(* ===== verification/Rn_Scanner.thy ===== *)
theory Rn_Scanner
  imports Prelude
begin

text \<open>
  \<open>crates/aip-resourcename/src/lib.rs\<close>: the segment and literal views, and the \<open>Scanner\<close> that walks a
  resource name by byte offsets. \<open>pending\<close> is its abstract state (the segments still to come), and
  \<open>scan_refines\<close> shows that every step of the scanner takes the head of that list.
\<close>

definition WILDCARD :: string where
  "WILDCARD = ''-''"

definition REVISION_SEPARATOR :: char where
  "REVISION_SEPARATOR = CHR ''@''"

subsection \<open>Segments and literals\<close>

type_synonym segment = string
type_synonym literal = string

definition is_variable :: "segment \<Rightarrow> bool" where
  "is_variable s \<longleftrightarrow> length s > 2 \<and> s ! 0 = CHR 0x7B \<and> s ! (length s - 1) = CHR 0x7D"

definition is_wildcard :: "segment \<Rightarrow> bool" where
  "is_wildcard s \<longleftrightarrow> s = WILDCARD"

definition literal_of :: "segment \<Rightarrow> literal" where
  "literal_of s = (if is_variable s then take (length s - 2) (drop 1 s) else s)"

definition has_revision :: "literal \<Rightarrow> bool" where
  "has_revision l =
     (case find_char REVISION_SEPARATOR l of
        None \<Rightarrow> False
      | Some i \<Rightarrow>
          if i < 1 \<or> i \<ge> length l - 1 then False
          else REVISION_SEPARATOR \<notin> set (drop (i + 1) l))"

definition resource_id :: "literal \<Rightarrow> string" where
  "resource_id l =
     (case find_char REVISION_SEPARATOR l of
        Some i \<Rightarrow> if has_revision l then take i l else l
      | None \<Rightarrow> l)"

definition revision_id :: "literal \<Rightarrow> string option" where
  "revision_id l =
     (case find_char REVISION_SEPARATOR l of
        Some i \<Rightarrow> if has_revision l then Some (drop (i + 1) l) else None
      | None \<Rightarrow> None)"

text \<open>A literal carries a revision exactly when it is \<open>id@rev\<close> with both sides non-empty and \<open>@\<close>-free.\<close>

lemma has_revision_iff:
  "has_revision l \<longleftrightarrow>
     (\<exists>i r. l = i @ REVISION_SEPARATOR # r \<and> i \<noteq> [] \<and> r \<noteq> []
            \<and> REVISION_SEPARATOR \<notin> set i \<and> REVISION_SEPARATOR \<notin> set r)"
proof
  assume h: "has_revision l"
  then obtain k where k: "find_char REVISION_SEPARATOR l = Some k"
    by (auto simp: has_revision_def split: option.splits)
  from k obtain i r where l: "l = i @ REVISION_SEPARATOR # r" and "length i = k"
    and "REVISION_SEPARATOR \<notin> set i" by (rule find_char_SomeD)
  with h k show "\<exists>i r. l = i @ REVISION_SEPARATOR # r \<and> i \<noteq> [] \<and> r \<noteq> []
            \<and> REVISION_SEPARATOR \<notin> set i \<and> REVISION_SEPARATOR \<notin> set r"
    by (auto simp: has_revision_def split: if_splits)
next
  assume "\<exists>i r. l = i @ REVISION_SEPARATOR # r \<and> i \<noteq> [] \<and> r \<noteq> []
            \<and> REVISION_SEPARATOR \<notin> set i \<and> REVISION_SEPARATOR \<notin> set r"
  then show "has_revision l" by (auto simp: has_revision_def str_simps)
qed

lemma revision_split:
  assumes "i \<noteq> []" and "r \<noteq> []" and "REVISION_SEPARATOR \<notin> set i" and "REVISION_SEPARATOR \<notin> set r"
  shows "resource_id (i @ REVISION_SEPARATOR # r) = i"
    and "revision_id (i @ REVISION_SEPARATOR # r) = Some r"
  using assms has_revision_iff [of "i @ REVISION_SEPARATOR # r"]
  by (auto simp: resource_id_def revision_id_def str_simps)

lemma no_revision:
  assumes "\<not> has_revision l"
  shows "resource_id l = l" and "revision_id l = None"
  using assms by (auto simp: resource_id_def revision_id_def split: option.splits)

subsection \<open>The scanner\<close>

record scanner =
  sc_name :: string
  sc_start :: nat
  sc_end :: nat
  sc_service_start :: nat
  sc_service_end :: nat
  sc_full :: bool

definition scanner_new :: "string \<Rightarrow> scanner" where
  "scanner_new name =
     \<lparr>sc_name = name, sc_start = 0, sc_end = 0, sc_service_start = 0, sc_service_end = 0,
      sc_full = False\<rparr>"

text \<open>The tail of \<open>scan\<close>: find the end of the segment that begins at \<open>start\<close>.\<close>

definition scan_segment :: "scanner \<Rightarrow> segment option \<times> scanner" where
  "scan_segment s =
     (let e = (case find_char CHR ''/'' (drop (sc_start s) (sc_name s)) of
                 Some next \<Rightarrow> sc_start s + next
               | None \<Rightarrow> length (sc_name s))
      in (Some (take (e - sc_start s) (drop (sc_start s) (sc_name s))), s\<lparr>sc_end := e\<rparr>))"

definition scan :: "scanner \<Rightarrow> segment option \<times> scanner" where
  "scan s =
     (let len = length (sc_name s) in
      if sc_end s = len then (None, s)
      else if sc_end s = 0 then
        (if starts_with (sc_name s) ''//'' then
           (let s1 = s\<lparr>sc_full := True, sc_start := 2\<rparr> in
            case find_char CHR ''/'' (drop 2 (sc_name s)) of
              None \<Rightarrow> (None, s1\<lparr>sc_service_start := 2, sc_service_end := len, sc_start := len, sc_end := len\<rparr>)
            | Some next \<Rightarrow>
                scan_segment (s1\<lparr>sc_service_start := 2, sc_service_end := 2 + next,
                                sc_start := 2 + next + 1\<rparr>))
         else if starts_with (sc_name s) ''/'' then scan_segment (s\<lparr>sc_start := 1\<rparr>)
         else scan_segment s)
      else scan_segment (s\<lparr>sc_start := sc_end s + 1\<rparr>))"

definition service_name :: "scanner \<Rightarrow> string" where
  "service_name s =
     take (sc_service_end s - sc_service_start s) (drop (sc_service_start s) (sc_name s))"

text \<open>The measure every \<open>while let Some(..) = scanner.scan()\<close> loop decreases.\<close>

definition scan_left :: "scanner \<Rightarrow> nat" where
  "scan_left s =
     (if sc_end s > length (sc_name s) then 1 else length (sc_name s) - sc_end s)"

lemma scan_name [simp]: "sc_name (snd (scan s)) = sc_name s"
  by (auto simp: scan_def scan_segment_def Let_def split: option.splits)

lemma scan_segment_end:
  assumes "scan_segment s = (r, s')"
  shows "sc_end s' \<le> length (sc_name s)"
    and "sc_start s \<le> length (sc_name s) \<Longrightarrow> sc_start s \<le> sc_end s'"
  using assms
  by (auto simp: scan_segment_def Let_def dest!: find_char_Some split: option.splits)

lemma find_char_pos: "x \<noteq> [] \<Longrightarrow> \<not> starts_with x [c] \<Longrightarrow> find_char c x \<noteq> Some 0"
  by (cases x) (auto simp: starts_with_def)

lemma scan_decreases:
  assumes "scan s = (Some seg, s')"
  shows "scan_left s' < scan_left s"
proof -
  have name: "sc_name s' = sc_name s" using scan_name [of s] assms by simp
  have ne: "sc_end s \<noteq> length (sc_name s)" using assms by (auto simp: scan_def)
  consider "sc_end s = 0" | "sc_end s \<noteq> 0" "sc_end s < length (sc_name s)"
    | "sc_end s > length (sc_name s)" using ne by linarith
  then show ?thesis
  proof cases
    case 1
    have "sc_end s' \<le> length (sc_name s) \<and> sc_end s' \<noteq> 0"
    proof (cases "sc_name s")
      case Nil
      then show ?thesis using ne 1 by simp
    next
      case (Cons c cs)
      then show ?thesis
        using assms 1 ne
        by (cases "sc_start s")
          (auto simp: scan_def scan_segment_def Let_def starts_with_def dest!: find_char_Some
            split: if_splits option.splits)
    qed
    with 1 ne name show ?thesis by (auto simp: scan_left_def)
  next
    case 2
    then have seg: "scan_segment (s\<lparr>sc_start := sc_end s + 1\<rparr>) = (Some seg, s')"
      using assms by (simp add: scan_def)
    from scan_segment_end [OF seg] 2 name show ?thesis by (auto simp: scan_left_def)
  next
    case 3
    then have seg: "scan_segment (s\<lparr>sc_start := sc_end s + 1\<rparr>) = (Some seg, s')"
      using assms by (simp add: scan_def)
    from seg 3 have "sc_end s' = length (sc_name s)"
      by (auto simp: scan_segment_def Let_def)
    with 3 name show ?thesis by (auto simp: scan_left_def)
  qed
qed

lemma scan_decreases_sym [termination_simp]:
  "(Some seg, s') = scan s \<Longrightarrow> scan_left s' < scan_left s"
  using scan_decreases by metis

text \<open>\<open>name_segments\<close>: the whole loop, with the scanner it leaves behind.\<close>

function scan_all :: "scanner \<Rightarrow> segment list \<times> scanner" where
  "scan_all s =
     (case scan s of
        (None, s') \<Rightarrow> ([], s')
      | (Some seg, s') \<Rightarrow> (case scan_all s' of (segs, s'') \<Rightarrow> (seg # segs, s'')))"
  by pat_completeness auto
termination
  by (relation "measure scan_left") (simp_all add: scan_decreases_sym)

declare scan_all.simps [simp del]

definition name_segments :: "string \<Rightarrow> segment list" where
  "name_segments name = fst (scan_all (scanner_new name))"

subsection \<open>The abstract scanner\<close>

text \<open>
  What the scanner should yield: the name is split on slashes after the service prefix or one
  leading slash is dropped.
\<close>

definition resource_segments :: "string \<Rightarrow> segment list" where
  "resource_segments name =
     (if name = [] then []
      else if starts_with name ''//'' then
        (case find_char CHR ''/'' (drop 2 name) of
           None \<Rightarrow> []
         | Some i \<Rightarrow> split_on CHR ''/'' (drop (3 + i) name))
      else if starts_with name ''/'' then split_on CHR ''/'' (drop 1 name)
      else split_on CHR ''/'' name)"

definition pending :: "scanner \<Rightarrow> segment list" where
  "pending s =
     (if sc_end s = length (sc_name s) then []
      else if sc_end s = 0 then resource_segments (sc_name s)
      else split_on CHR ''/'' (drop (sc_end s + 1) (sc_name s)))"

definition scanner_ok :: "scanner \<Rightarrow> bool" where
  "scanner_ok s \<longleftrightarrow>
     sc_end s \<le> length (sc_name s) \<and> (sc_end s = 0 \<longrightarrow> sc_start s = 0 \<or> sc_name s = [])"

lemma scanner_new_name [simp]: "sc_name (scanner_new name) = name"
  by (simp add: scanner_new_def)

lemma scanner_ok_new [simp]: "scanner_ok (scanner_new name)"
  by (simp add: scanner_ok_def scanner_new_def)

lemma pending_new [simp]: "pending (scanner_new name) = resource_segments name"
  by (simp add: pending_def scanner_new_def resource_segments_def)

lemma scan_segment_refines:
  assumes start: "sc_start s \<le> length (sc_name s)"
    and pos: "sc_start s = 0 \<Longrightarrow> sc_name s \<noteq> [] \<and> \<not> starts_with (sc_name s) ''/''"
    and seg: "scan_segment s = (r, s')"
  shows "scanner_ok s' \<and> (\<exists>x. r = Some x \<and> split_on CHR ''/'' (drop (sc_start s) (sc_name s)) = x # pending s')"
proof (cases "find_char CHR ''/'' (drop (sc_start s) (sc_name s))")
  case None
  then show ?thesis using seg start
    by (auto simp: scan_segment_def scanner_ok_def pending_def split_on_find [of _ "drop _ _"])
next
  case (Some i)
  from find_char_Some [OF Some] have lt: "sc_start s + i < length (sc_name s)" by auto
  have nz: "sc_start s + i \<noteq> 0"
  proof
    assume "sc_start s + i = 0"
    with Some pos show False using find_char_pos [of "sc_name s" "CHR ''/''"] by auto
  qed
  have s': "s' = s\<lparr>sc_end := sc_start s + i\<rparr>"
    and r: "r = Some (take i (drop (sc_start s) (sc_name s)))"
    using seg Some by (auto simp: scan_segment_def Let_def)
  have "split_on CHR ''/'' (drop (sc_start s) (sc_name s)) =
          take i (drop (sc_start s) (sc_name s))
          # split_on CHR ''/'' (drop (Suc i) (drop (sc_start s) (sc_name s)))"
    using Some by (subst split_on_find) simp
  with lt nz show ?thesis
    by (auto simp: s' r scanner_ok_def pending_def add.commute)
qed

text \<open>One step: the scanner is at its end exactly when nothing is pending, else it yields the head.\<close>

lemma scan_refines:
  assumes ok: "scanner_ok s" and step: "scan s = (r, s')"
  shows "scanner_ok s'"
    and "pending s = (case r of None \<Rightarrow> [] | Some x \<Rightarrow> x # pending s')"
    and "r = None \<Longrightarrow> pending s' = []"
proof -
  have goal: "scanner_ok s' \<and> pending s = (case r of None \<Rightarrow> [] | Some x \<Rightarrow> x # pending s')
      \<and> (r = None \<longrightarrow> pending s' = [])"
  proof (cases "sc_end s = length (sc_name s)")
    case True
    with step ok show ?thesis by (auto simp: scan_def pending_def)
  next
    case ne: False
    show ?thesis
    proof (cases "sc_end s = 0")
      case False
      with ne step have seg: "scan_segment (s\<lparr>sc_start := sc_end s + 1\<rparr>) = (r, s')"
        by (simp add: scan_def)
      have "sc_end s + 1 \<le> length (sc_name s)" using ok ne by (simp add: scanner_ok_def)
      with scan_segment_refines [OF _ _ seg] False ne show ?thesis
        by (auto simp: pending_def)
    next
      case zero: True
      then have name: "sc_name s \<noteq> []" using ne by auto
      consider (full) "starts_with (sc_name s) ''//''"
        | (slash) "\<not> starts_with (sc_name s) ''//''" "starts_with (sc_name s) ''/''"
        | (plain) "\<not> starts_with (sc_name s) ''//''" "\<not> starts_with (sc_name s) ''/''" by blast
      then show ?thesis
      proof cases
        case full
        then have two: "2 \<le> length (sc_name s)" by (auto simp: starts_with_iff)
        show ?thesis
        proof (cases "find_char CHR ''/'' (drop 2 (sc_name s))")
          case None
          with full ne zero step name show ?thesis
            by (auto simp: scan_def Let_def scanner_ok_def pending_def resource_segments_def)
        next
          case (Some i)
          define s1 where "s1 = s\<lparr>sc_full := True, sc_service_start := 2, sc_service_end := 2 + i,
                                 sc_start := 3 + i\<rparr>"
          from find_char_Some [OF Some] have "3 + i \<le> length (sc_name s)" by auto
          moreover have seg: "scan_segment s1 = (r, s')"
            using full ne zero step Some by (simp add: scan_def Let_def s1_def numeral_3_eq_3)
          ultimately show ?thesis
            using scan_segment_refines [OF _ _ seg] full ne zero Some name
            by (auto simp: s1_def pending_def resource_segments_def)
        qed
      next
        case slash
        with ne zero step have seg: "scan_segment (s\<lparr>sc_start := 1\<rparr>) = (r, s')"
          by (simp add: scan_def)
        from name have "1 \<le> length (sc_name s)" by (cases "sc_name s") auto
        with scan_segment_refines [OF _ _ seg] slash ne zero name show ?thesis
          by (auto simp: pending_def resource_segments_def)
      next
        case plain
        with ne zero step have seg: "scan_segment s = (r, s')"
          by (simp add: scan_def)
        moreover have "sc_start s = 0" using ok zero name by (simp add: scanner_ok_def)
        ultimately show ?thesis
          using scan_segment_refines [OF _ _ seg] plain ne zero name
          by (auto simp: pending_def resource_segments_def)
      qed
    qed
  qed
  then show "scanner_ok s'"
    and "pending s = (case r of None \<Rightarrow> [] | Some x \<Rightarrow> x # pending s')"
    and "r = None \<Longrightarrow> pending s' = []" by auto
qed


text \<open>Where the first segment begins, and the service a full resource name carries.\<close>

definition body_start :: "string \<Rightarrow> nat" where
  "body_start name =
     (if starts_with name ''//'' then
        (case find_char CHR ''/'' (drop 2 name) of None \<Rightarrow> length name | Some i \<Rightarrow> 3 + i)
      else if starts_with name ''/'' then 1 else 0)"

definition service_of :: "string \<Rightarrow> string option" where
  "service_of name =
     (if starts_with name ''//'' then
        (case find_char CHR ''/'' (drop 2 name) of
           None \<Rightarrow> Some (drop 2 name) | Some i \<Rightarrow> Some (take i (drop 2 name)))
      else None)"

text \<open>
  The scanner is either fresh, or it stands at the end of a segment and its service fields
  are those of the name.
\<close>

definition position_ok :: "scanner \<Rightarrow> bool" where
  "position_ok s \<longleftrightarrow>
     sc_end s = 0 \<or>
     (body_start (sc_name s) \<le> sc_end s
      \<and> (sc_end s < length (sc_name s) \<longrightarrow> sc_name s ! sc_end s = CHR ''/''))"

definition service_ok :: "scanner \<Rightarrow> bool" where
  "service_ok s \<longleftrightarrow>
     (if sc_end s = 0 then \<not> sc_full s \<and> sc_service_start s = 0 \<and> sc_service_end s = 0
      else sc_full s = (service_of (sc_name s) \<noteq> None)
           \<and> service_name s = (case service_of (sc_name s) of None \<Rightarrow> [] | Some svc \<Rightarrow> svc))"

definition scanner_inv :: "scanner \<Rightarrow> bool" where
  "scanner_inv s \<longleftrightarrow> scanner_ok s \<and> position_ok s \<and> service_ok s"

lemma scanner_inv_new [simp]: "scanner_inv (scanner_new name)"
  by (simp add: scanner_inv_def position_ok_def service_ok_def scanner_new_def scanner_ok_def)

lemma scan_segment_position:
  assumes "body_start (sc_name s) \<le> sc_start s" and "sc_start s \<le> length (sc_name s)"
    and seg: "scan_segment s = (r, s')"
  shows "position_ok s'"
proof (cases "find_char CHR ''/'' (drop (sc_start s) (sc_name s))")
  case None
  then show ?thesis using assms by (auto simp: scan_segment_def position_ok_def)
next
  case (Some i)
  from find_char_Some [OF Some] have "sc_name s ! (sc_start s + i) = CHR ''/''" by auto
  then show ?thesis using assms Some by (auto simp: scan_segment_def position_ok_def)
qed

lemma scan_segment_frame:
  assumes "scan_segment s = (r, s')"
  shows "sc_name s' = sc_name s" and "sc_full s' = sc_full s" and "service_name s' = service_name s"
    and "sc_service_start s' = sc_service_start s" and "sc_service_end s' = sc_service_end s"
  using assms by (auto simp: scan_segment_def service_name_def Let_def)

lemma body_start_le: "name \<noteq> [] \<Longrightarrow> body_start name \<le> length name"
  by (auto simp: body_start_def Suc_le_eq dest!: find_char_Some split: option.splits)

lemma body_start_service [simp]:
  "service_of name \<noteq> None \<Longrightarrow> 2 \<le> body_start name"
  by (auto simp: body_start_def service_of_def starts_with_iff split: if_splits option.splits)


lemma scan_inv:
  assumes inv: "scanner_inv s" and step: "scan s = (r, s')"
  shows "scanner_inv s'" and "sc_name s \<noteq> [] \<Longrightarrow> sc_end s' \<noteq> 0"
proof -
  have ok: "scanner_ok s" and pos: "position_ok s" and svc: "service_ok s"
    using inv by (auto simp: scanner_inv_def)
  have ok': "scanner_ok s'" using scan_refines(1) [OF ok step] .
  have goal: "position_ok s' \<and> service_ok s' \<and> (sc_name s \<noteq> [] \<longrightarrow> sc_end s' \<noteq> 0)"
  proof (cases "sc_end s = length (sc_name s)")
    case True
    with step pos svc show ?thesis by (auto simp: scan_def)
  next
    case ne: False
    show ?thesis
    proof (cases "sc_end s = 0")
      case False
      with ne step have seg: "scan_segment (s\<lparr>sc_start := sc_end s + 1\<rparr>) = (r, s')"
        by (simp add: scan_def)
      have le: "sc_end s + 1 \<le> length (sc_name s)" using ok ne by (simp add: scanner_ok_def)
      moreover have "body_start (sc_name s) \<le> sc_end s" using pos False by (simp add: position_ok_def)
      ultimately have "position_ok s'"
        using scan_segment_position [OF _ _ seg] by simp
      moreover have "sc_end s' \<noteq> 0" using scan_segment_end [OF seg] le by simp
      moreover have "service_ok s'" using svc False \<open>sc_end s' \<noteq> 0\<close> scan_segment_frame [OF seg]
        by (simp add: service_ok_def service_name_def)
      ultimately show ?thesis by simp
    next
      case zero: True
      then have name: "sc_name s \<noteq> []" using ne by auto
      have start: "sc_start s = 0" using ok zero name by (simp add: scanner_ok_def)
      have fresh: "\<not> sc_full s" "sc_service_start s = 0" "sc_service_end s = 0"
        using svc zero by (auto simp: service_ok_def)
      show ?thesis
      proof (cases "starts_with (sc_name s) ''//'' \<and> CHR ''/'' \<notin> set (drop 2 (sc_name s))")
        case True
        then have "find_char CHR ''/'' (drop 2 (sc_name s)) = None" by (simp add: find_char_None)
        with True ne zero step show ?thesis
          by (auto simp: scan_def Let_def position_ok_def service_ok_def body_start_def
              service_of_def service_name_def starts_with_iff)
      next
        case False
        obtain t where t: "sc_name t = sc_name s" "sc_start t = body_start (sc_name s)"
          and seg: "scan_segment t = (r, s')"
          and full: "sc_full t = (service_of (sc_name s) \<noteq> None)"
            "service_name t = (case service_of (sc_name s) of None \<Rightarrow> [] | Some svc \<Rightarrow> svc)"
          and start0: "body_start (sc_name s) = 0 \<Longrightarrow> \<not> starts_with (sc_name s) ''/''"
        proof -
          consider i where "starts_with (sc_name s) ''//''" "find_char CHR ''/'' (drop 2 (sc_name s)) = Some i"
            | "\<not> starts_with (sc_name s) ''//''" "starts_with (sc_name s) ''/''"
            | "\<not> starts_with (sc_name s) ''//''" "\<not> starts_with (sc_name s) ''/''"
            using False by (auto simp: find_char_None [symmetric])
          then show ?thesis
          proof cases
            case (1 i)
            with ne zero step show ?thesis
              by (intro that [of "s\<lparr>sc_full := True, sc_service_start := 2, sc_service_end := 2 + i,
                                   sc_start := 3 + i\<rparr>"])
                (auto simp: scan_def Let_def body_start_def service_of_def service_name_def
                  numeral_3_eq_3)
          next
            case 2
            with ne zero step fresh show ?thesis
              by (intro that [of "s\<lparr>sc_start := 1\<rparr>"])
                (auto simp: scan_def body_start_def service_of_def service_name_def)
          next
            case 3
            with ne zero step fresh start show ?thesis
              by (intro that [of s]) (auto simp: scan_def body_start_def service_of_def service_name_def)
          qed
        qed
        have le: "sc_start t \<le> length (sc_name t)" using body_start_le [OF name] t by simp
        have "position_ok s'" using scan_segment_position [OF _ _ seg] t le by simp
        moreover have nz: "sc_end s' \<noteq> 0"
        proof (cases "body_start (sc_name s) = 0")
          case False
          then show ?thesis using scan_segment_end(2) [OF seg le] t by simp
        next
          case True
          with start0 name t seg find_char_pos [of "sc_name s" "CHR ''/''"]
          show ?thesis by (auto simp: scan_segment_def Let_def split: option.splits)
        qed
        moreover have "service_ok s'"
          using nz full t scan_segment_frame [OF seg] by (simp add: service_ok_def)
        ultimately show ?thesis by simp
      qed
    qed
  qed
  with ok' show "scanner_inv s'" and "sc_name s \<noteq> [] \<Longrightarrow> sc_end s' \<noteq> 0"
    by (auto simp: scanner_inv_def)
qed

text \<open>The offsets cut the name between what was scanned and what is pending.\<close>

lemma resource_segments_cut:
  assumes "scanner_inv s"
  shows "resource_segments (sc_name s) =
           resource_segments (take (sc_end s) (sc_name s)) @ pending s"
proof -
  let ?n = "sc_name s" and ?e = "sc_end s"
  consider "?e = 0" | "?e = length ?n" | "?e \<noteq> 0" "?e < length ?n"
    using assms by (fastforce simp: scanner_inv_def scanner_ok_def)
  then show ?thesis
  proof cases
    case 3
    then have bs: "body_start ?n \<le> ?e" and delim: "?n ! ?e = CHR ''/''"
      using assms by (auto simp: scanner_inv_def position_ok_def)
    define p y where "p = take ?e ?n" and "y = drop (Suc ?e) ?n"
    have n: "?n = p @ CHR ''/'' # y" and p: "length p = ?e"
      using 3 id_take_nth_drop [of ?e ?n] delim by (simp_all add: p_def y_def)
    have pend: "pending s = split_on CHR ''/'' y"
      using 3 by (simp add: pending_def y_def)
    have pne: "p \<noteq> []" using p 3 by auto
    have "resource_segments (p @ CHR ''/'' # y) = resource_segments p @ split_on CHR ''/'' y"
    proof (cases "starts_with (p @ CHR ''/'' # y) ''//''")
      case True
      with bs p have two: "2 \<le> length p"
        by (auto simp: body_start_def n starts_with_iff split: option.splits)
      then obtain q where q: "p = ''//'' @ q"
        using True by (auto simp: starts_with_def take_Cons' intro: that [of "drop 2 p"])
          (metis append_take_drop_id append_Cons append_Nil)
      show ?thesis
      proof (cases "find_char CHR ''/'' q")
        case None
        then have "find_char CHR ''/'' (q @ CHR ''/'' # y) = Some (length q)"
          by (simp add: find_char_None str_simps)
        with bs p show ?thesis by (auto simp: body_start_def n q starts_with_def)
      next
        case (Some i)
        then obtain a b where "q = a @ CHR ''/'' # b" "length a = i" "CHR ''/'' \<notin> set a"
          by (rule find_char_SomeD)
        then show ?thesis
          by (auto simp: resource_segments_def q starts_with_def str_simps split_on_append_delim
              numeral_3_eq_3)
      qed
    next
      case False
      then have "\<not> starts_with p ''//''" by (auto simp: starts_with_iff)
      with False pne show ?thesis
        by (cases p) (auto simp: resource_segments_def starts_with_def split_on_append_delim
            split_on_append_delim [where x = "a # l" for a l, unfolded append_Cons]
            simp del: split_on.simps(2))
    qed
    then show ?thesis by (simp add: n [symmetric] pend p_def [symmetric])
  qed (auto simp: pending_def resource_segments_def)
qed

end
