(* ===== verification/Utf8.thy ===== *)
theory Utf8
  imports Prelude
begin

text \<open>
  Characters of a Rust string: UTF-8 decoding and encoding of Unicode scalar values (as
  natural numbers), the \<open>char\<close> predicates the crates use, and the \<open>{:?}\<close> rendering of a
  string. The predicates with large tables in the standard library are given by a
  \<^typ>\<open>nat \<Rightarrow> bool\<close> field of \<open>unicode_tables\<close>, consulted for non-ASCII values only; the ASCII range and
  \<open>White_Space\<close> are written out.
\<close>

record unicode_tables =
  uni_lowercase :: "nat \<Rightarrow> bool"
  uni_numeric :: "nat \<Rightarrow> bool"
  uni_printable :: "nat \<Rightarrow> bool"

text \<open>Tables that know no non-ASCII character, for concrete inputs.\<close>

definition ascii_tables :: unicode_tables where
  "ascii_tables = \<lparr>uni_lowercase = \<lambda>_. False, uni_numeric = \<lambda>_. False, uni_printable = \<lambda>_. False\<rparr>"

abbreviation byte :: "char \<Rightarrow> nat" where
  "byte c \<equiv> of_char c"

text \<open>
  \<open>s.chars().next()\<close> with the remaining bytes. The last equation covers byte sequences that
  no Rust string holds (a truncated multi-byte character).
\<close>

fun next_char :: "string \<Rightarrow> (nat \<times> string) option" where
  "next_char [] = None"
| "next_char (b # bs) =
     (let b0 = byte b in
      if b0 < 128 then Some (b0, bs)
      else if b0 < 224 then
        (case bs of
           b1 # r \<Rightarrow> Some ((b0 mod 32) * 64 + byte b1 mod 64, r)
         | _ \<Rightarrow> Some (b0, bs))
      else if b0 < 240 then
        (case bs of
           b1 # b2 # r \<Rightarrow> Some ((b0 mod 16) * 4096 + (byte b1 mod 64) * 64 + byte b2 mod 64, r)
         | _ \<Rightarrow> Some (b0, bs))
      else
        (case bs of
           b1 # b2 # b3 # r \<Rightarrow>
             Some ((b0 mod 8) * 262144 + (byte b1 mod 64) * 4096 + (byte b2 mod 64) * 64
                   + byte b3 mod 64, r)
         | _ \<Rightarrow> Some (b0, bs)))"

text \<open>The UTF-8 bytes of a scalar value (\<open>String::push\<close>), and \<open>char::from_u32\<close>.\<close>

definition encode_char :: "nat \<Rightarrow> string" where
  "encode_char c =
     (if c < 128 then [char_of c]
      else if c < 2048 then [char_of (192 + c div 64), char_of (128 + c mod 64)]
      else if c < 65536 then
        [char_of (224 + c div 4096), char_of (128 + c div 64 mod 64), char_of (128 + c mod 64)]
      else
        [char_of (240 + c div 262144), char_of (128 + c div 4096 mod 64),
         char_of (128 + c div 64 mod 64), char_of (128 + c mod 64)])"

definition is_scalar :: "nat \<Rightarrow> bool" where
  "is_scalar c \<longleftrightarrow> c < 55296 \<or> (57344 \<le> c \<and> c < 1114112)"

definition char_from_u32 :: "nat \<Rightarrow> nat option" where
  "char_from_u32 c = (if is_scalar c then Some c else None)"

lemma next_char_shorter: "next_char s = Some (c, t) \<Longrightarrow> length t < length s"
  by (cases s) (auto simp: Let_def split: if_splits list.splits)

lemma next_char_suffix: "next_char s = Some (c, t) \<Longrightarrow> \<exists>p. s = p @ t \<and> p \<noteq> []"
  by (cases s) (auto simp: Let_def split: if_splits list.splits)

lemma next_char_None [simp]: "next_char s = None \<longleftrightarrow> s = []"
  by (cases s) (auto simp: Let_def split: list.splits)

lemma next_char_ascii [str_simps]: "byte c < 128 \<Longrightarrow> next_char (c # s) = Some (byte c, s)"
  by simp

lemma byte_char_of_less [simp]: "n < 256 \<Longrightarrow> byte (char_of n) = (n::nat)"
  by simp

lemma byte_bits:
  "k < 32 \<Longrightarrow> (192 + k) mod 32 = (k::nat)"
  "k < 16 \<Longrightarrow> (224 + k) mod 16 = (k::nat)"
  "k < 8 \<Longrightarrow> (240 + k) mod 8 = (k::nat)"
  "k < 64 \<Longrightarrow> (128 + k) mod 64 = (k::nat)"
  using mod_mult_self3 [of 6 32 k] mod_mult_self3 [of 14 16 k] mod_mult_self3 [of 30 8 k]
    mod_mult_self3 [of 2 64 k]
  by simp_all

lemma regroup3: "c div 4096 * 4096 + c div 64 mod 64 * 64 + c mod 64 = (c::nat)"
proof -
  have "c div 4096 = c div 64 div 64" by (simp flip: div_mult2_eq)
  moreover have "c div 64 div 64 * 64 + c div 64 mod 64 = c div 64" by (rule div_mult_mod_eq)
  moreover have "c div 64 * 64 + c mod 64 = c" by (rule div_mult_mod_eq)
  ultimately show ?thesis by linarith
qed

lemma regroup4:
  "c div 262144 * 262144 + c div 4096 mod 64 * 4096 + c div 64 mod 64 * 64 + c mod 64 = (c::nat)"
proof -
  have "c div 262144 = c div 4096 div 64" by (simp flip: div_mult2_eq)
  moreover have "c div 4096 div 64 * 64 + c div 4096 mod 64 = c div 4096" by (rule div_mult_mod_eq)
  ultimately show ?thesis using regroup3 [of c] by linarith
qed

text \<open>Decoding inverts encoding, for every scalar value.\<close>

lemma next_char_encode: "is_scalar c \<Longrightarrow> next_char (encode_char c @ s) = Some (c, s)"
proof -
  assume "is_scalar c"
  then have c: "c < 1114112" by (auto simp: is_scalar_def)
  consider "c < 128" | "128 \<le> c" "c < 2048" | "2048 \<le> c" "c < 65536" | "65536 \<le> c"
    by linarith
  then show ?thesis
  proof cases
    case 1
    then show ?thesis by (simp add: encode_char_def)
  next
    case 2
    define a b where ab: "a = c div 64" "b = c mod 64"
    have "a < 32" "b < 64" "a * 64 + b = c" using 2 unfolding ab by auto
    with 2 show ?thesis by (simp add: encode_char_def Let_def ab [symmetric] byte_bits)
  next
    case 3
    define a b d where ab: "a = c div 4096" "b = c div 64 mod 64" "d = c mod 64"
    have "a < 16" "b < 64" "d < 64" using 3 unfolding ab by auto
    moreover have "a * 4096 + b * 64 + d = c" unfolding ab by (rule regroup3)
    ultimately show ?thesis using 3 by (simp add: encode_char_def Let_def ab [symmetric] byte_bits)
  next
    case 4
    define a b d e where
      ab: "a = c div 262144" "b = c div 4096 mod 64" "d = c div 64 mod 64" "e = c mod 64"
    have "a < 8" "b < 64" "d < 64" "e < 64" using 4 c unfolding ab by auto
    moreover have "a * 262144 + b * 4096 + d * 64 + e = c" unfolding ab by (rule regroup4)
    ultimately show ?thesis using 4 by (simp add: encode_char_def Let_def ab [symmetric] byte_bits)
  qed
qed

text \<open>\<open>s.chars()\<close>.\<close>

function chars :: "string \<Rightarrow> nat list" where
  "chars s = (case next_char s of None \<Rightarrow> [] | Some (c, t) \<Rightarrow> c # chars t)"
  by pat_completeness auto
termination
  by (relation "measure length") (auto simp: next_char_shorter)

declare chars.simps [simp del]

lemma chars_Nil [simp]: "chars [] = []"
  by (simp add: chars.simps)

lemma chars_ascii_Cons [str_simps]: "byte c < (128::nat) \<Longrightarrow> chars (c # s) = byte c # chars s"
  by (subst chars.simps) simp

definition ascii :: "string \<Rightarrow> bool" where
  "ascii s \<longleftrightarrow> (\<forall>c \<in> set s. byte c < (128::nat))"

lemma ascii_simps [simp]:
  "ascii []"
  "ascii (c # s) \<longleftrightarrow> byte c < (128::nat) \<and> ascii s"
  by (auto simp: ascii_def)

lemma chars_ascii: "ascii s \<Longrightarrow> chars s = map byte s"
  by (induction s) (auto simp: chars_ascii_Cons)

subsection \<open>Character classes\<close>

text \<open>A Rust string is the concatenation of the encodings of its characters.\<close>

definition rust_str :: "nat list \<Rightarrow> string" where
  "rust_str cs = concat (map encode_char cs)"

lemma encode_char_ascii: "c < 128 \<Longrightarrow> encode_char c = [char_of c]"
  by (simp add: encode_char_def)

lemma chars_rust_str: "list_all is_scalar cs \<Longrightarrow> chars (rust_str cs) = cs"
proof (induction cs)
  case (Cons c cs)
  then have "next_char (rust_str (c # cs)) = Some (c, rust_str cs)"
    by (simp add: rust_str_def next_char_encode)
  with Cons show ?case by (subst chars.simps) simp
qed (simp add: rust_str_def)

lemma rust_str_ascii: "list_all (\<lambda>c. c < 128) cs \<Longrightarrow> rust_str cs = map char_of cs"
  by (induction cs) (simp_all add: rust_str_def encode_char_ascii)

text \<open>\<open>char::is_whitespace\<close>: the Unicode \<open>White_Space\<close> property.\<close>

definition is_whitespace :: "nat \<Rightarrow> bool" where
  "is_whitespace c \<longleftrightarrow>
     (9 \<le> c \<and> c \<le> 13) \<or> c = 32 \<or> c = 133 \<or> c = 160 \<or> c = 5760 \<or> (8192 \<le> c \<and> c \<le> 8202)
     \<or> c = 8232 \<or> c = 8233 \<or> c = 8239 \<or> c = 8287 \<or> c = 12288"

definition is_lowercase :: "unicode_tables \<Rightarrow> nat \<Rightarrow> bool" where
  "is_lowercase u c = (if c < 128 then 97 \<le> c \<and> c \<le> 122 else uni_lowercase u c)"

definition is_numeric :: "unicode_tables \<Rightarrow> nat \<Rightarrow> bool" where
  "is_numeric u c = (if c < 128 then 48 \<le> c \<and> c \<le> 57 else uni_numeric u c)"

text \<open>\<open>char::to_digit(16)\<close>.\<close>

definition hex_digit :: "nat \<Rightarrow> nat option" where
  "hex_digit c =
     (if 48 \<le> c \<and> c \<le> 57 then Some (c - 48)
      else if 97 \<le> c \<and> c \<le> 102 then Some (c - 87)
      else if 65 \<le> c \<and> c \<le> 70 then Some (c - 55) else None)"

subsection \<open>Debug rendering of strings\<close>

definition hex_char :: "nat \<Rightarrow> char" where
  "hex_char d = char_of (if d < 10 then 48 + d else 87 + d)"

fun show_hex :: "nat \<Rightarrow> string" where
  "show_hex n = (if n < 16 then [hex_char n] else show_hex (n div 16) @ [hex_char (n mod 16)])"

declare show_hex.simps [simp del]

text \<open>One character of \<open>{:?}\<close> of a \<open>&str\<close> (\<open>char::escape_debug\<close>; a single quote is not escaped).\<close>

definition escape_debug :: "unicode_tables \<Rightarrow> nat \<Rightarrow> string" where
  "escape_debug u c =
     (if c = 0 then [CHR 0x5C, CHR ''0'']
      else if c = 9 then [CHR 0x5C, CHR ''t'']
      else if c = 10 then [CHR 0x5C, CHR ''n'']
      else if c = 13 then [CHR 0x5C, CHR ''r'']
      else if c = 34 then [CHR 0x5C, CHR 0x22]
      else if c = 92 then [CHR 0x5C, CHR 0x5C]
      else if (if c < 128 then 32 \<le> c \<and> c < 127 else uni_printable u c) then encode_char c
      else [CHR 0x5C, CHR ''u'', CHR 0x7B] @ show_hex c @ [CHR 0x7D])"

definition str_debug :: "unicode_tables \<Rightarrow> string \<Rightarrow> string" where
  "str_debug u s = [CHR 0x22] @ concat (map (escape_debug u) (chars s)) @ [CHR 0x22]"

end
