(* ===== verification/Status.thy ===== *)
theory Status
  imports Prelude
begin

text \<open>
  The shape of a gRPC error the crates produce (\<open>tonic::Status\<close> with AIP-193 details): a
  code, a message, an optional \<open>ErrorInfo\<close> and the \<open>BadRequest\<close> field violations, and the
  contract every crate's \<open>From<Error> for tonic::Status\<close> keeps: the \<open>ErrorInfo.domain\<close> is the
  sentinel the serving boundary replaces.
\<close>

datatype grpc_code =
  Code_Ok | Code_Cancelled | Code_Unknown | Code_InvalidArgument | Code_DeadlineExceeded
| Code_NotFound | Code_AlreadyExists | Code_PermissionDenied | Code_ResourceExhausted
| Code_FailedPrecondition | Code_Aborted | Code_OutOfRange | Code_Unimplemented
| Code_Internal | Code_Unavailable | Code_DataLoss | Code_Unauthenticated

text \<open>\<open>code as i32\<close>.\<close>

fun code_number :: "grpc_code \<Rightarrow> int" where
  "code_number Code_Ok = 0"
| "code_number Code_Cancelled = 1"
| "code_number Code_Unknown = 2"
| "code_number Code_InvalidArgument = 3"
| "code_number Code_DeadlineExceeded = 4"
| "code_number Code_NotFound = 5"
| "code_number Code_AlreadyExists = 6"
| "code_number Code_PermissionDenied = 7"
| "code_number Code_ResourceExhausted = 8"
| "code_number Code_FailedPrecondition = 9"
| "code_number Code_Aborted = 10"
| "code_number Code_OutOfRange = 11"
| "code_number Code_Unimplemented = 12"
| "code_number Code_Internal = 13"
| "code_number Code_Unavailable = 14"
| "code_number Code_DataLoss = 15"
| "code_number Code_Unauthenticated = 16"

record error_info =
  ei_reason :: string
  ei_domain :: string
  ei_metadata :: "string \<rightharpoonup> string"

record status =
  st_code :: grpc_code
  st_message :: string
  st_info :: "error_info option"
  st_violations :: "(string \<times> string) list"

definition ERROR_DOMAIN :: string where
  "ERROR_DOMAIN = ''aip-rs''"

text \<open>
  \<open>details.set_error_info(reason, ERROR_DOMAIN, metadata)\<close>, the violations added, then
  \<open>Status::with_error_details(code, message, details)\<close>: the tail every mapping shares.
\<close>

definition detailed_status ::
  "grpc_code \<Rightarrow> string \<Rightarrow> string \<Rightarrow> (string \<times> string) list \<Rightarrow> (string \<times> string) list \<Rightarrow> status" where
  "detailed_status c msg reason metadata violations =
     \<lparr>st_code = c, st_message = msg,
      st_info = Some \<lparr>ei_reason = reason, ei_domain = ERROR_DOMAIN, ei_metadata = map_of metadata\<rparr>,
      st_violations = violations\<rparr>"

text \<open>\<open>Status::internal(message)\<close>.\<close>

definition plain_status :: "grpc_code \<Rightarrow> string \<Rightarrow> status" where
  "plain_status c msg = \<lparr>st_code = c, st_message = msg, st_info = None, st_violations = []\<rparr>"

lemma detailed_status_sel [simp]:
  "st_code (detailed_status c m r md vs) = c"
  "st_message (detailed_status c m r md vs) = m"
  "st_violations (detailed_status c m r md vs) = vs"
  "st_info (detailed_status c m r md vs) =
     Some \<lparr>ei_reason = r, ei_domain = ERROR_DOMAIN, ei_metadata = map_of md\<rparr>"
  by (simp_all add: detailed_status_def)

lemma plain_status_sel [simp]:
  "st_code (plain_status c m) = c"
  "st_message (plain_status c m) = m"
  "st_violations (plain_status c m) = []"
  "st_info (plain_status c m) = None"
  by (simp_all add: plain_status_def)

text \<open>What the boundary does to a status: the sentinel domain, and only it, is replaced.\<close>

definition rebrand_info :: "string \<Rightarrow> error_info \<Rightarrow> error_info" where
  "rebrand_info d i = (if ei_domain i = ERROR_DOMAIN then i\<lparr>ei_domain := d\<rparr> else i)"

definition rebrand :: "string \<Rightarrow> status \<Rightarrow> status" where
  "rebrand d s = s\<lparr>st_info := map_option (rebrand_info d) (st_info s)\<rparr>"

lemma rebrand_idem: "d \<noteq> ERROR_DOMAIN \<Longrightarrow> rebrand d (rebrand d s) = rebrand d s"
  by (cases s; cases "st_info s") (auto simp: rebrand_def rebrand_info_def)

lemma rebrand_frame [simp]:
  "st_code (rebrand d s) = st_code s"
  "st_message (rebrand d s) = st_message s"
  "st_violations (rebrand d s) = st_violations s"
  by (simp_all add: rebrand_def)

text \<open>
  The interface of an error mapping. A crate interprets it on its own conversion; the
  boundary then gives every status the one domain of the service.
\<close>

locale error_mapping =
  fixes to_status :: "'e \<Rightarrow> status"
  assumes sentinel: "st_info (to_status e) = Some i \<Longrightarrow> ei_domain i = ERROR_DOMAIN"
    and not_ok: "st_code (to_status e) \<noteq> Code_Ok"
begin

lemma rebranded: "st_info (rebrand d (to_status e)) = Some i \<Longrightarrow> ei_domain i = d"
  using sentinel [of e]
  by (auto simp: rebrand_def rebrand_info_def split: option.splits)

lemma no_sentinel_out:
  "d \<noteq> ERROR_DOMAIN \<Longrightarrow> st_info (rebrand d (to_status e)) = Some i \<Longrightarrow> ei_domain i \<noteq> ERROR_DOMAIN"
  using rebranded by metis

end

text \<open>A mapping that attaches an \<open>ErrorInfo\<close> to every error (AIP-193's requirement).\<close>

locale detailed_mapping = error_mapping +
  assumes has_info: "st_info (to_status e) \<noteq> None"
begin

lemma rebranded_domain: "\<exists>i. st_info (rebrand d (to_status e)) = Some i \<and> ei_domain i = d"
  using has_info [of e] rebranded [of d e] by (fastforce simp: rebrand_def)

end

end
