(* ===== verification/Rn_Error.thy ===== *)
theory Rn_Error
  imports Utf8 Status
begin

text \<open>
  The errors of \<open>crates/aip-resourcename/src/lib.rs\<close>, their text, and their conversion to a gRPC
  status, alone and annotated with the request field.
\<close>

datatype rn_error =
  Empty
| EmptySegment nat
| InvalidDnsName string
| PatternMismatch string
| InvalidPattern string
| VariableInName string
| MissingVariable string
| UnknownVariable string
| InvalidVariable string string

fun rn_error_display :: "unicode_tables \<Rightarrow> rn_error \<Rightarrow> string" where
  "rn_error_display u Empty = ''empty resource name''"
| "rn_error_display u (EmptySegment index) = ''segment '' @ show_nat index @ '' is empty''"
| "rn_error_display u (InvalidDnsName segment) =
     ''segment '' @ str_debug u segment @ '' is not a valid DNS name''"
| "rn_error_display u (PatternMismatch pattern) =
     ''resource name does not match pattern '' @ str_debug u pattern"
| "rn_error_display u (InvalidPattern detail) = ''invalid pattern: '' @ detail"
| "rn_error_display u (VariableInName segment) =
     ''segment '' @ str_debug u segment @ '': resource names must not contain variables''"
| "rn_error_display u (MissingVariable name) = ''missing value for variable '' @ str_debug u name"
| "rn_error_display u (UnknownVariable name) =
     ''variable '' @ str_debug u name @ '' is not declared in the pattern''"
| "rn_error_display u (InvalidVariable name reason) =
     ''variable '' @ str_debug u name @ '' has an invalid value: '' @ reason"

fun rn_error_reason :: "rn_error \<Rightarrow> string \<times> (string \<times> string) list" where
  "rn_error_reason Empty = (''RESOURCE_NAME_EMPTY'', [])"
| "rn_error_reason (EmptySegment index) =
     (''RESOURCE_NAME_EMPTY_SEGMENT'', [(''index'', show_nat index)])"
| "rn_error_reason (InvalidDnsName segment) =
     (''RESOURCE_NAME_INVALID_SEGMENT'', [(''segment'', segment)])"
| "rn_error_reason (PatternMismatch pattern) =
     (''RESOURCE_NAME_PATTERN_MISMATCH'', [(''pattern'', pattern)])"
| "rn_error_reason (InvalidPattern detail) =
     (''RESOURCE_NAME_INVALID_PATTERN'', [(''detail'', detail)])"
| "rn_error_reason (VariableInName segment) =
     (''RESOURCE_NAME_VARIABLE_IN_NAME'', [(''segment'', segment)])"
| "rn_error_reason (MissingVariable name) =
     (''RESOURCE_NAME_MISSING_VARIABLE'', [(''variable'', name)])"
| "rn_error_reason (UnknownVariable name) =
     (''RESOURCE_NAME_UNKNOWN_VARIABLE'', [(''variable'', name)])"
| "rn_error_reason (InvalidVariable name reason) =
     (''RESOURCE_NAME_INVALID_VARIABLE'', [(''variable'', name), (''reason'', reason)])"

definition rn_status :: "unicode_tables \<Rightarrow> rn_error \<Rightarrow> status" where
  "rn_status u err =
     (case rn_error_reason err of (reason, metadata) \<Rightarrow>
        detailed_status Code_InvalidArgument (rn_error_display u err) reason metadata [])"

record field_error =
  fe_field :: string
  fe_source :: rn_error

definition field_error_display :: "unicode_tables \<Rightarrow> field_error \<Rightarrow> string" where
  "field_error_display u err = fe_field err @ '': '' @ rn_error_display u (fe_source err)"

definition field_error_status :: "unicode_tables \<Rightarrow> field_error \<Rightarrow> status" where
  "field_error_status u err =
     (case rn_error_reason (fe_source err) of (reason, metadata) \<Rightarrow>
        detailed_status Code_InvalidArgument (field_error_display u err) reason metadata
          [(fe_field err, rn_error_display u (fe_source err))])"

text \<open>Reason codes identify the error's constructor.\<close>

lemma rn_reason_unique:
  "fst (rn_error_reason a) = fst (rn_error_reason b) \<Longrightarrow>
     snd (rn_error_reason a) = snd (rn_error_reason b) \<Longrightarrow> (\<forall>i j. a = EmptySegment i \<and> b = EmptySegment j \<longrightarrow> i = j) \<Longrightarrow> a = b"
  by (cases a; cases b) simp_all

interpretation rn_err: detailed_mapping "rn_status u"
  by unfold_locales (auto simp: rn_status_def split: prod.splits)

interpretation rn_field_err: detailed_mapping "field_error_status u"
  by unfold_locales (auto simp: field_error_status_def split: prod.splits)

text \<open>The annotated error differs from the bare one only in its message and its violation.\<close>

lemma field_error_same_info: "st_info (field_error_status u e) = st_info (rn_status u (fe_source e))"
  by (auto simp: field_error_status_def rn_status_def split: prod.splits)

end
