(* ===== verification/Rn_Name.thy ===== *)
theory Rn_Name
  imports Rn_Scanner Rn_Error
begin

text \<open>
  The functions of \<open>crates/aip-resourcename/src/lib.rs\<close> that walk names with the scanner: \<open>ancestor\<close>,
  \<open>has_parent\<close>, \<open>contains_wildcard\<close>, \<open>validate\<close>, \<open>validate_pattern\<close>, and the character tests they
  use. Each loop is a recursion on the scanners it advances, and is shown equal to a
  recursion on the segment lists.
\<close>

subsection \<open>Character tests\<close>

fun is_snake_case_from :: "unicode_tables \<Rightarrow> nat \<Rightarrow> nat list \<Rightarrow> bool" where
  "is_snake_case_from u i [] = True"
| "is_snake_case_from u i (c # cs) =
     (if i = 0 then
        (if \<not> is_lowercase u c then False else is_snake_case_from u (i + 1) cs)
      else if c \<noteq> 95 \<and> \<not> is_lowercase u c \<and> \<not> is_numeric u c then False
      else is_snake_case_from u (i + 1) cs)"

definition is_snake_case :: "unicode_tables \<Rightarrow> string \<Rightarrow> bool" where
  "is_snake_case u s = is_snake_case_from u 0 (chars s)"

fun domain_loop :: "string \<Rightarrow> char \<Rightarrow> nat \<Rightarrow> bool" where
  "domain_loop [] prev part_len = (\<not> (prev = CHR ''-'' \<or> part_len > 63))"
| "domain_loop (c # cs) prev part_len =
     (if is_alnum c \<or> c = CHR ''_'' then domain_loop cs c (part_len + 1)
      else if c = CHR ''-'' then
        (if prev = CHR ''.'' then False else domain_loop cs c (part_len + 1))
      else if c = CHR ''.'' then
        (if prev = CHR ''.'' \<or> prev = CHR ''-'' then False
         else if part_len > 63 \<or> part_len = 0 then False
         else domain_loop cs c 0)
      else False)"

definition is_domain_name :: "string \<Rightarrow> bool" where
  "is_domain_name s =
     (let l = length s in
      if l = 0 \<or> l > 254 \<or> (l = 254 \<and> s ! (l - 1) \<noteq> CHR ''.'') then False
      else domain_loop s (CHR ''.'') 0)"

subsection \<open>The walks\<close>

function ancestor_loop :: "scanner \<Rightarrow> scanner \<Rightarrow> scanner option" where
  "ancestor_loop ps ns =
     (case scan ps of
        (None, _) \<Rightarrow> Some ns
      | (Some pseg, ps') \<Rightarrow>
          (case scan ns of
             (None, _) \<Rightarrow> None
           | (Some nseg, ns') \<Rightarrow>
               if is_wildcard pseg then None
               else if \<not> is_variable pseg \<and> pseg \<noteq> nseg then None
               else ancestor_loop ps' ns'))"
  by pat_completeness auto
termination
  by (relation "measure (\<lambda>(ps, _). scan_left ps)") (simp_all add: scan_decreases_sym)

definition ancestor :: "string \<Rightarrow> string \<Rightarrow> string option" where
  "ancestor name pattern =
     (if name = [] \<or> pattern = [] then None
      else (case ancestor_loop (scanner_new pattern) (scanner_new name) of
              None \<Rightarrow> None
            | Some ns \<Rightarrow> Some (take (sc_end ns) name)))"

text \<open>\<open>None\<close> is the early \<open>return false\<close>; otherwise the two scanners after the loop.\<close>

function has_parent_loop :: "scanner \<Rightarrow> scanner \<Rightarrow> (scanner \<times> scanner) option" where
  "has_parent_loop ps ns =
     (case scan ps of
        (None, ps') \<Rightarrow> Some (ps', ns)
      | (Some pseg, ps') \<Rightarrow>
          (case scan ns of
             (None, _) \<Rightarrow> None
           | (Some nseg, ns') \<Rightarrow>
               if is_wildcard pseg then has_parent_loop ps' ns'
               else if has_revision (literal_of nseg) \<and> \<not> has_revision (literal_of pseg)
                       \<and> resource_id (literal_of nseg) = resource_id (literal_of pseg)
               then has_parent_loop ps' ns'
               else if pseg \<noteq> nseg then None
               else has_parent_loop ps' ns'))"
  by pat_completeness auto
termination
  by (relation "measure (\<lambda>(ps, _). scan_left ps)") (simp_all add: scan_decreases_sym)

definition has_parent :: "string \<Rightarrow> string \<Rightarrow> bool" where
  "has_parent name parent =
     (if name = [] \<or> parent = [] \<or> name = parent then False
      else (case has_parent_loop (scanner_new parent) (scanner_new name) of
              None \<Rightarrow> False
            | Some (ps, ns) \<Rightarrow>
                if sc_full ps \<and> sc_full ns then service_name ps = service_name ns else True))"

function contains_wildcard_loop :: "scanner \<Rightarrow> bool" where
  "contains_wildcard_loop s =
     (case scan s of
        (None, _) \<Rightarrow> False
      | (Some seg, s') \<Rightarrow> if is_wildcard seg then True else contains_wildcard_loop s')"
  by pat_completeness auto
termination
  by (relation "measure scan_left") (simp_all add: scan_decreases_sym)

definition contains_wildcard :: "string \<Rightarrow> bool" where
  "contains_wildcard name = contains_wildcard_loop (scanner_new name)"

function validate_loop :: "scanner \<Rightarrow> nat \<Rightarrow> rn_error + scanner" where
  "validate_loop s index =
     (case scan s of
        (None, s') \<Rightarrow> Inr s'
      | (Some seg, s') \<Rightarrow>
          (let index = index + 1 in
           if seg = [] then Inl (EmptySegment index)
           else if is_wildcard seg then validate_loop s' index
           else if is_variable seg then Inl (VariableInName seg)
           else if \<not> is_domain_name seg then Inl (InvalidDnsName seg)
           else validate_loop s' index))"
  by pat_completeness auto
termination
  by (relation "measure (\<lambda>(s, _). scan_left s)") (simp_all add: scan_decreases_sym)

definition validate :: "string \<Rightarrow> rn_error + unit" where
  "validate name =
     (if name = [] then Inl Empty
      else (case validate_loop (scanner_new name) 0 of
              Inl e \<Rightarrow> Inl e
            | Inr s \<Rightarrow>
                if sc_full s \<and> \<not> is_domain_name (service_name s)
                then Inl (InvalidDnsName (service_name s))
                else Inr ()))"

function validate_pattern_loop :: "unicode_tables \<Rightarrow> scanner \<Rightarrow> nat \<Rightarrow> rn_error + scanner" where
  "validate_pattern_loop u s index =
     (case scan s of
        (None, s') \<Rightarrow> Inr s'
      | (Some seg, s') \<Rightarrow>
          (let index = index + 1 in
           if seg = [] then Inl (EmptySegment index)
           else if is_wildcard seg then Inl (InvalidPattern ''wildcards not allowed in patterns'')
           else if is_variable seg then
             (let name = literal_of seg in
              if name = [] then Inl (InvalidPattern ''missing variable name'')
              else if \<not> is_snake_case u name
              then Inl (InvalidPattern ''variable name must be valid snake case'')
              else validate_pattern_loop u s' index)
           else if \<not> is_domain_name seg then Inl (InvalidDnsName seg)
           else validate_pattern_loop u s' index))"
  by pat_completeness auto
termination
  by (relation "measure (\<lambda>(u, s, _). scan_left s)") (simp_all add: scan_decreases_sym)

definition validate_pattern :: "unicode_tables \<Rightarrow> string \<Rightarrow> rn_error + unit" where
  "validate_pattern u pattern =
     (if pattern = [] then Inl (InvalidPattern ''pattern is empty'')
      else (case validate_pattern_loop u (scanner_new pattern) 0 of
              Inl e \<Rightarrow> Inl e
            | Inr s \<Rightarrow>
                if sc_full s then Inl (InvalidPattern ''patterns can not be full resource names'')
                else Inr ()))"

declare ancestor_loop.simps [simp del] has_parent_loop.simps [simp del]
  contains_wildcard_loop.simps [simp del] validate_loop.simps [simp del]
  validate_pattern_loop.simps [simp del]


subsection \<open>What the character tests accept\<close>

text \<open>The label grammar of a DNS name; the last label may be empty (a trailing dot).\<close>

definition label_char :: "char \<Rightarrow> bool" where
  "label_char c \<longleftrightarrow> is_alnum c \<or> c = CHR ''_'' \<or> c = CHR ''-''"

definition good_label :: "string \<Rightarrow> bool" where
  "good_label l \<longleftrightarrow>
     l \<noteq> [] \<and> length l \<le> 63 \<and> list_all label_char l \<and> hd l \<noteq> CHR ''-'' \<and> last l \<noteq> CHR ''-''"

fun labels_ok :: "string list \<Rightarrow> bool" where
  "labels_ok [] = True"
| "labels_ok [l] = (l = [] \<or> good_label l)"
| "labels_ok (l # m # ls) = (good_label l \<and> labels_ok (m # ls))"

lemma label_char_delims: "\<not> label_char CHR ''.''" "\<not> label_char CHR ''/''" "\<not> label_char CHR 0x7B"
  by (auto simp: label_char_def char_class_defs)

lemma alnum_delims: "\<not> is_alnum CHR ''.''" "\<not> is_alnum CHR ''-''" "\<not> is_alnum CHR ''/''"
  by (auto simp: char_class_defs)

lemma good_label_bad_char: "\<not> label_char c \<Longrightarrow> c \<in> set l \<Longrightarrow> \<not> good_label l"
  by (auto simp: good_label_def list_all_iff)

lemma labels_ok_bad_hd:
  "l \<noteq> [] \<Longrightarrow> \<not> good_label l \<Longrightarrow> \<not> labels_ok (l # ls)"
  by (cases ls) auto

lemma domain_loop_labels:
  assumes "list_all label_char cur" and "cur \<noteq> [] \<Longrightarrow> hd cur \<noteq> CHR ''-''"
    and "prev = (if cur = [] then CHR ''.'' else last cur)"
  shows "domain_loop s prev (length cur)
           = labels_ok (case split_on CHR ''.'' s of l # ls \<Rightarrow> (cur @ l) # ls | [] \<Rightarrow> [])"
  using assms
proof (induction s arbitrary: prev cur)
  case Nil
  then show ?case by (auto simp: good_label_def)
next
  case (Cons c s)
  obtain l ls where sp: "split_on CHR ''.'' s = l # ls" by (cases "split_on CHR ''.'' s") auto
  have step: "domain_loop s c (Suc (length cur)) = labels_ok ((cur @ c # l) # ls)"
    if "label_char c" and "cur = [] \<longrightarrow> c \<noteq> CHR ''-''"
    using Cons.IH [of "cur @ [c]" c] Cons.prems that by (auto simp: sp hd_append)
  consider (word) "is_alnum c \<or> c = CHR ''_''" | (dash) "c = CHR ''-''" | (dot) "c = CHR ''.''"
    | (bad) "\<not> label_char c" "c \<noteq> CHR ''.''" by (auto simp: label_char_def)
  then show ?case
  proof cases
    case word
    then have "c \<noteq> CHR ''.''" and "c \<noteq> CHR ''-''" and "label_char c"
      by (auto simp: label_char_def alnum_delims)
    with word step show ?thesis by (auto simp: sp)
  next
    case dash
    have prev: "prev = CHR ''.'' \<longleftrightarrow> cur = []"
      using Cons.prems label_char_delims last_in_set [of cur] unfolding list_all_iff by metis
    have "cur = [] \<Longrightarrow> \<not> labels_ok ((CHR ''-'' # l) # ls)"
      by (rule labels_ok_bad_hd) (auto simp: good_label_def)
    with dash step prev show ?thesis
      by (auto simp: sp alnum_delims label_char_def)
  next
    case dot
    have prev: "prev = CHR ''.'' \<longleftrightarrow> cur = []"
      using Cons.prems label_char_delims last_in_set [of cur] unfolding list_all_iff by metis
    have fresh: "domain_loop s CHR ''.'' 0 = labels_ok (l # ls)"
      using Cons.IH [of "[]" "CHR ''.''"] by (simp add: sp)
    have "prev = CHR ''-'' \<longleftrightarrow> cur \<noteq> [] \<and> last cur = CHR ''-''" using Cons.prems by auto
    with dot fresh prev Cons.prems show ?thesis
      by (auto simp: sp alnum_delims good_label_def)
  next
    case bad
    then have "\<not> labels_ok ((cur @ c # l) # ls)"
      by (intro labels_ok_bad_hd good_label_bad_char) auto
    with bad show ?thesis by (auto simp: sp label_char_def)
  qed
qed

lemma domain_name_labels:
  "is_domain_name s \<longleftrightarrow>
     s \<noteq> [] \<and> length s \<le> 254 \<and> (length s = 254 \<longrightarrow> last s = CHR ''.'')
     \<and> labels_ok (split_on CHR ''.'' s)"
proof -
  have "domain_loop s CHR ''.'' 0 = labels_ok (split_on CHR ''.'' s)"
    using domain_loop_labels [of "[]" "CHR ''.''" s] by (cases "split_on CHR ''.'' s") auto
  then show ?thesis by (auto simp: is_domain_name_def Let_def last_conv_nth)
qed

lemma domain_loop_chars: "domain_loop s p n \<Longrightarrow> c \<in> set s \<Longrightarrow> label_char c \<or> c = CHR ''.''"
  by (induction s p n rule: domain_loop.induct) (auto simp: label_char_def split: if_splits)

lemma domain_name_chars: "is_domain_name s \<Longrightarrow> c \<in> set s \<Longrightarrow> label_char c \<or> c = CHR ''.''"
  by (auto simp: is_domain_name_def Let_def dest: domain_loop_chars split: if_splits)

lemma domain_name_not_variable: "is_domain_name s \<Longrightarrow> \<not> is_variable s"
  using domain_name_chars [of s "CHR 0x7B"] label_char_delims
  by (cases s) (auto simp: is_variable_def)

lemma domain_name_not_Nil [simp]: "\<not> is_domain_name []"
  by (simp add: is_domain_name_def)

text \<open>A snake-case identifier, without the position counter.\<close>

lemma snake_from_Suc:
  "is_snake_case_from u (Suc i) cs
     = list_all (\<lambda>c. c = 95 \<or> is_lowercase u c \<or> is_numeric u c) cs"
  by (induction cs arbitrary: i) auto

lemma snake_case_iff:
  "is_snake_case u s \<longleftrightarrow>
     (case chars s of [] \<Rightarrow> True
      | c # cs \<Rightarrow> is_lowercase u c \<and> list_all (\<lambda>d. d = 95 \<or> is_lowercase u d \<or> is_numeric u d) cs)"
  by (auto simp: is_snake_case_def snake_from_Suc split: list.splits)

subsection \<open>The walks on segment lists\<close>

lemma scan_stepE:
  assumes "scanner_inv s"
  obtains (stop) s' where "scan s = (None, s')" "pending s = []" "scanner_inv s'"
      "sc_name s' = sc_name s" "sc_name s = [] \<or> sc_end s' \<noteq> 0"
    | (more) x s' where "scan s = (Some x, s')" "pending s = x # pending s'" "scanner_inv s'"
      "sc_name s' = sc_name s" "sc_name s = [] \<or> sc_end s' \<noteq> 0"
proof -
  obtain r s' where step: "scan s = (r, s')" by (cases "scan s")
  have ok: "scanner_ok s" using assms by (simp add: scanner_inv_def)
  note facts = scan_refines [OF ok step]
  have inv: "scanner_inv s'" and "sc_name s = [] \<or> sc_end s' \<noteq> 0" and "sc_name s' = sc_name s"
    using scan_inv [OF assms step] scan_name [of s] step by (blast, blast, simp)
  then show ?thesis
    using facts step stop more by (cases r) auto
qed

text \<open>What an exhausted or advanced scanner says of its service.\<close>

lemma scanned_service:
  assumes "scanner_inv s" and "sc_end s \<noteq> 0"
  shows "sc_full s = (service_of (sc_name s) \<noteq> None)"
    and "service_of (sc_name s) = Some svc \<Longrightarrow> service_name s = svc"
  using assms by (auto simp: scanner_inv_def service_ok_def)

lemma contains_wildcard_loop_list:
  "scanner_inv s \<Longrightarrow> contains_wildcard_loop s = (WILDCARD \<in> set (pending s))"
proof (induction s rule: contains_wildcard_loop.induct)
  case (1 s)
  from \<open>scanner_inv s\<close> show ?case
  proof (cases rule: scan_stepE)
    case (stop s')
    then show ?thesis by (simp add: contains_wildcard_loop.simps [of s])
  next
    case (more x s')
    with 1 show ?thesis by (auto simp: contains_wildcard_loop.simps [of s] is_wildcard_def)
  qed
qed

lemma scan_all_pending: "scanner_inv s \<Longrightarrow> fst (scan_all s) = pending s"
proof (induction s rule: scan_all.induct)
  case (1 s)
  from \<open>scanner_inv s\<close> show ?case
  proof (cases rule: scan_stepE)
    case (stop s')
    then show ?thesis by (simp add: scan_all.simps [of s])
  next
    case (more x s')
    with 1 show ?thesis by (cases "scan_all s'") (simp add: scan_all.simps [of s])
  qed
qed

lemma name_segments_eq: "name_segments name = resource_segments name"
  by (simp add: name_segments_def scan_all_pending)


text \<open>\<open>pattern\<close> covers \<open>name\<close> from the left, segment by segment.\<close>

fun covers :: "segment list \<Rightarrow> segment list \<Rightarrow> bool" where
  "covers [] ns = True"
| "covers (p # ps) [] = False"
| "covers (p # ps) (n # ns) = (\<not> is_wildcard p \<and> (is_variable p \<or> p = n) \<and> covers ps ns)"

lemma ancestor_loop_list:
  assumes "scanner_inv ps" and "scanner_inv ns"
  shows "case ancestor_loop ps ns of
           None \<Rightarrow> \<not> covers (pending ps) (pending ns)
         | Some ns' \<Rightarrow> covers (pending ps) (pending ns) \<and> scanner_inv ns' \<and> sc_name ns' = sc_name ns
             \<and> pending ns = take (length (pending ps)) (pending ns) @ pending ns'"
  using assms
proof (induction ps ns rule: ancestor_loop.induct)
  case (1 ps ns)
  from \<open>scanner_inv ps\<close> show ?case
  proof (cases rule: scan_stepE)
    case (stop ps')
    then show ?thesis using 1 by (simp add: ancestor_loop.simps [of ps])
  next
    case p: (more p ps')
    from \<open>scanner_inv ns\<close> show ?thesis
    proof (cases rule: scan_stepE)
      case (stop ns')
      with p show ?thesis by (simp add: ancestor_loop.simps [of ps])
    next
      case n: (more n ns')
      show ?thesis
      proof (cases "is_wildcard p \<or> (\<not> is_variable p \<and> p \<noteq> n)")
        case True
        with p n show ?thesis by (auto simp: ancestor_loop.simps [of ps])
      next
        case False
        with p n 1(1) [OF p(1) [symmetric] refl n(1) [symmetric] refl] show ?thesis
          by (auto simp: ancestor_loop.simps [of ps ns] split: option.splits)
      qed
    qed
  qed
qed

lemma ancestor_cases:
  "case ancestor name pattern of
     None \<Rightarrow> name = [] \<or> pattern = [] \<or> \<not> covers (resource_segments pattern) (resource_segments name)
   | Some a \<Rightarrow> name \<noteq> [] \<and> pattern \<noteq> [] \<and> covers (resource_segments pattern) (resource_segments name)
       \<and> prefix a name
       \<and> resource_segments a = take (length (resource_segments pattern)) (resource_segments name)"
proof (cases "name = [] \<or> pattern = []")
  case True
  then show ?thesis by (auto simp: ancestor_def)
next
  case False
  note list = ancestor_loop_list [of "scanner_new pattern" "scanner_new name"]
  show ?thesis
  proof (cases "ancestor_loop (scanner_new pattern) (scanner_new name)")
    case None
    with list False show ?thesis by (simp add: ancestor_def)
  next
    case (Some ns)
    with list have cov: "covers (resource_segments pattern) (resource_segments name)"
      and inv: "scanner_inv ns" and nm: "sc_name ns = name"
      and rest: "resource_segments name
           = take (length (resource_segments pattern)) (resource_segments name) @ pending ns"
      by (auto simp: scanner_new_name)
    have "resource_segments (take (sc_end ns) name)
            = take (length (resource_segments pattern)) (resource_segments name)"
      using resource_segments_cut [OF inv] rest by (simp add: nm)
    with Some False cov show ?thesis by (simp add: ancestor_def take_is_prefix)
  qed
qed

text \<open>One segment of a parent against one of a name.\<close>

definition segment_parent :: "segment \<Rightarrow> segment \<Rightarrow> bool" where
  "segment_parent p n \<longleftrightarrow>
     is_wildcard p \<or> p = n
     \<or> (has_revision (literal_of n) \<and> \<not> has_revision (literal_of p)
        \<and> resource_id (literal_of n) = resource_id (literal_of p))"

fun parent_covers :: "segment list \<Rightarrow> segment list \<Rightarrow> bool" where
  "parent_covers [] ns = True"
| "parent_covers (p # ps) [] = False"
| "parent_covers (p # ps) (n # ns) = (segment_parent p n \<and> parent_covers ps ns)"

text \<open>What \<open>has_parent_loop\<close> returns, from the two abstract states.\<close>

definition parent_post :: "scanner \<Rightarrow> scanner \<Rightarrow> (scanner \<times> scanner) option \<Rightarrow> bool" where
  "parent_post ps ns r =
     (case r of
        None \<Rightarrow> \<not> parent_covers (pending ps) (pending ns)
      | Some (ps', ns') \<Rightarrow>
          parent_covers (pending ps) (pending ns) \<and> scanner_inv ps' \<and> scanner_inv ns'
          \<and> sc_name ps' = sc_name ps \<and> sc_name ns' = sc_name ns
          \<and> (sc_name ps \<noteq> [] \<longrightarrow> sc_end ps' \<noteq> 0)
          \<and> (pending ps = [] \<longrightarrow> ns' = ns)
          \<and> (sc_end ns \<noteq> 0 \<longrightarrow> sc_end ns' \<noteq> 0)
          \<and> (pending ps \<noteq> [] \<and> sc_name ns \<noteq> [] \<longrightarrow> sc_end ns' \<noteq> 0))"

lemma parent_post_step:
  assumes "parent_post ps' ns' r" and "pending ps = p # pending ps'" and "pending ns = n # pending ns'"
    and "segment_parent p n" and "sc_name ps' = sc_name ps" and "sc_name ns' = sc_name ns"
    and "sc_name ns = [] \<or> sc_end ns' \<noteq> 0" and "scanner_inv ns"
  shows "parent_post ps ns r"
proof (cases r)
  case None
  with assms show ?thesis by (simp add: parent_post_def)
next
  case (Some q)
  obtain ps'' ns'' where q: "q = (ps'', ns'')" by (cases q)
  have pn: "sc_name ps \<noteq> [] \<longrightarrow> sc_end ps'' \<noteq> 0"
    using assms(1,5) by (simp add: Some q parent_post_def)
  have "sc_name ns = [] \<longrightarrow> sc_end ns = 0"
    using assms(8) by (auto simp: scanner_inv_def scanner_ok_def)
  with pn assms show ?thesis by (auto simp: Some q parent_post_def)
qed

lemma has_parent_loop_list:
  assumes "scanner_inv ps" and "scanner_inv ns"
  shows "parent_post ps ns (has_parent_loop ps ns)"
  using assms
proof (induction ps ns rule: has_parent_loop.induct)
  case (1 ps ns)
  from \<open>scanner_inv ps\<close> show ?case
  proof (cases rule: scan_stepE)
    case (stop ps')
    then show ?thesis using 1 by (auto simp: has_parent_loop.simps [of ps] parent_post_def)
  next
    case p: (more p ps')
    from \<open>scanner_inv ns\<close> show ?thesis
    proof (cases rule: scan_stepE)
      case (stop ns')
      with p show ?thesis by (simp add: has_parent_loop.simps [of ps] parent_post_def)
    next
      case n: (more n ns')
      have eq: "has_parent_loop ps ns = (if segment_parent p n then has_parent_loop ps' ns' else None)"
        by (auto simp: has_parent_loop.simps [of ps ns] p(1) n(1) segment_parent_def)
      show ?thesis
      proof (cases "segment_parent p n")
        case False
        with p n eq show ?thesis by (simp add: parent_post_def)
      next
        case True
        have "parent_post ps' ns' (has_parent_loop ps' ns')"
          using True 1(1-3) [OF p(1) [symmetric] refl n(1) [symmetric] refl] p(3) n(3)
          by (auto simp: segment_parent_def)
        with p n eq True \<open>scanner_inv ns\<close> show ?thesis by (auto intro: parent_post_step)
      qed
    qed
  qed
qed

lemma has_parent_iff:
  "has_parent name parent \<longleftrightarrow>
     name \<noteq> [] \<and> parent \<noteq> [] \<and> name \<noteq> parent
     \<and> parent_covers (resource_segments parent) (resource_segments name)
     \<and> (resource_segments parent = [] \<or> service_of parent = None \<or> service_of name = None
         \<or> service_of parent = service_of name)"
proof (cases "name = [] \<or> parent = []")
  case True
  then show ?thesis by (auto simp: has_parent_def)
next
  case False
  let ?r = "has_parent_loop (scanner_new parent) (scanner_new name)"
  have post: "parent_post (scanner_new parent) (scanner_new name) ?r"
    by (rule has_parent_loop_list) simp_all
  show ?thesis
  proof (cases ?r)
    case None
    with post show ?thesis by (simp add: has_parent_def parent_post_def)
  next
    case (Some r)
    then obtain ps ns where r: "?r = Some (ps, ns)" by (cases r) auto
    with post have cov: "parent_covers (resource_segments parent) (resource_segments name)"
      and inv: "scanner_inv ps" "scanner_inv ns" and nm: "sc_name ps = parent" "sc_name ns = name"
      and ends: "sc_end ps \<noteq> 0" "resource_segments parent \<noteq> [] \<Longrightarrow> sc_end ns \<noteq> 0"
      and fresh: "resource_segments parent = [] \<Longrightarrow> ns = scanner_new name"
      using False by (auto simp: parent_post_def scanner_new_name)
    show ?thesis
    proof (cases "resource_segments parent = []")
      case True
      with r cov fresh False show ?thesis by (auto simp: has_parent_def scanner_new_def)
    next
      case ne: False
      from scanned_service [OF inv(1) ends(1)] scanned_service [OF inv(2) ends(2) [OF ne]]
      show ?thesis using r cov False ne nm by (auto simp: has_parent_def)
    qed
  qed
qed


subsection \<open>Validation on segment lists\<close>

text \<open>The verdict on one segment of a name, and of a pattern; \<open>None\<close> accepts it.\<close>

definition segment_error :: "nat \<Rightarrow> segment \<Rightarrow> rn_error option" where
  "segment_error index seg =
     (if seg = [] then Some (EmptySegment index)
      else if is_wildcard seg \<or> is_domain_name seg then None
      else if is_variable seg then Some (VariableInName seg)
      else Some (InvalidDnsName seg))"

definition pattern_segment_error :: "unicode_tables \<Rightarrow> nat \<Rightarrow> segment \<Rightarrow> rn_error option" where
  "pattern_segment_error u index seg =
     (if seg = [] then Some (EmptySegment index)
      else if is_wildcard seg then Some (InvalidPattern ''wildcards not allowed in patterns'')
      else if is_variable seg then
        (if is_snake_case u (literal_of seg) then None
         else Some (InvalidPattern ''variable name must be valid snake case''))
      else if is_domain_name seg then None else Some (InvalidDnsName seg))"

fun first_error :: "(nat \<Rightarrow> segment \<Rightarrow> rn_error option) \<Rightarrow> nat \<Rightarrow> segment list \<Rightarrow> rn_error option" where
  "first_error f i [] = None"
| "first_error f i (seg # segs) =
     (case f (Suc i) seg of Some e \<Rightarrow> Some e | None \<Rightarrow> first_error f (Suc i) segs)"

lemma first_error_None: "first_error f i segs = None \<longleftrightarrow> (\<forall>k < length segs. f (Suc (i + k)) (segs ! k) = None)"
proof (induction segs arbitrary: i)
  case Nil
  then show ?case by simp
next
  case (Cons s segs)
  then show ?case by (auto simp: All_less_Suc2 split: option.splits)
qed

lemma first_error_append:
  "first_error f i segs = None \<Longrightarrow> f (Suc (i + length segs)) seg = Some e
    \<Longrightarrow> first_error f i (segs @ seg # rest) = Some e"
  by (induction segs arbitrary: i) (auto split: option.splits)

lemma literal_of_not_Nil: "is_variable seg \<Longrightarrow> literal_of seg \<noteq> []"
  by (auto simp: literal_of_def is_variable_def)

text \<open>The post-condition both validation loops share.\<close>

definition validate_post :: "scanner \<Rightarrow> rn_error option \<Rightarrow> rn_error + scanner \<Rightarrow> bool" where
  "validate_post s err r =
     (case err of
        Some e \<Rightarrow> r = Inl e
      | None \<Rightarrow> (\<exists>s'. r = Inr s' \<and> scanner_inv s' \<and> sc_name s' = sc_name s
                     \<and> (sc_name s \<noteq> [] \<longrightarrow> sc_end s' \<noteq> 0)))"

lemma validate_post_name: "sc_name s' = sc_name s \<Longrightarrow> validate_post s' err r \<Longrightarrow> validate_post s err r"
  by (auto simp: validate_post_def split: option.splits)

lemma validate_loop_list:
  "scanner_inv s \<Longrightarrow> validate_post s (first_error segment_error i (pending s)) (validate_loop s i)"
proof (induction "scan_left s" arbitrary: s i rule: less_induct)
  case (less s i)
  from \<open>scanner_inv s\<close> show ?case
  proof (cases rule: scan_stepE)
    case (stop s')
    then show ?thesis by (auto simp: validate_loop.simps [of s] validate_post_def)
  next
    case (more x s')
    have eq: "validate_loop s i = (case segment_error (Suc i) x of Some e \<Rightarrow> Inl e | None \<Rightarrow> validate_loop s' (Suc i))"
      using domain_name_not_variable [of x]
      by (auto simp: validate_loop.simps [of s] more(1) segment_error_def Let_def)
    show ?thesis
    proof (cases "segment_error (Suc i) x")
      case (Some e)
      with eq more show ?thesis by (simp add: validate_post_def)
    next
      case None
      have "validate_post s' (first_error segment_error (Suc i) (pending s')) (validate_loop s' (Suc i))"
        using less.hyps [OF scan_decreases [OF more(1)] more(3)] .
      from validate_post_name [OF more(4) this] eq None more(2) show ?thesis by simp
    qed
  qed
qed

lemma validate_pattern_loop_list:
  "scanner_inv s \<Longrightarrow>
     validate_post s (first_error (pattern_segment_error u) i (pending s)) (validate_pattern_loop u s i)"
proof (induction "scan_left s" arbitrary: s i rule: less_induct)
  case (less s i)
  from \<open>scanner_inv s\<close> show ?case
  proof (cases rule: scan_stepE)
    case (stop s')
    then show ?thesis by (auto simp: validate_pattern_loop.simps [of _ s] validate_post_def)
  next
    case (more x s')
    have eq: "validate_pattern_loop u s i =
      (case pattern_segment_error u (Suc i) x of Some e \<Rightarrow> Inl e | None \<Rightarrow> validate_pattern_loop u s' (Suc i))"
      using literal_of_not_Nil [of x]
      by (auto simp: validate_pattern_loop.simps [of _ s] more(1) pattern_segment_error_def Let_def)
    show ?thesis
    proof (cases "pattern_segment_error u (Suc i) x")
      case (Some e)
      with eq more show ?thesis by (simp add: validate_post_def)
    next
      case None
      have "validate_post s' (first_error (pattern_segment_error u) (Suc i) (pending s')) (validate_pattern_loop u s' (Suc i))"
        using less.hyps [OF scan_decreases [OF more(1)] more(3)] .
      from validate_post_name [OF more(4) this] eq None more(2) show ?thesis by simp
    qed
  qed
qed

lemma validate_eq:
  assumes "name \<noteq> []"
  shows "validate name =
     (case first_error segment_error 0 (resource_segments name) of
        Some e \<Rightarrow> Inl e
      | None \<Rightarrow> (case service_of name of
                  Some svc \<Rightarrow> if is_domain_name svc then Inr () else Inl (InvalidDnsName svc)
                | None \<Rightarrow> Inr ()))"
proof -
  have post: "validate_post (scanner_new name) (first_error segment_error 0 (resource_segments name))
          (validate_loop (scanner_new name) 0)"
    using validate_loop_list [of "scanner_new name" 0] by simp
  show ?thesis
  proof (cases "first_error segment_error 0 (resource_segments name)")
    case (Some e)
    with post assms show ?thesis by (simp add: validate_def validate_post_def)
  next
    case None
    with post assms obtain s where s: "validate_loop (scanner_new name) 0 = Inr s" "scanner_inv s"
        "sc_name s = name" "sc_end s \<noteq> 0"
      by (auto simp: validate_post_def)
    from scanned_service [OF s(2,4)] s None assms show ?thesis
      by (auto simp: validate_def split: option.splits)
  qed
qed

lemma validate_pattern_eq:
  assumes "pattern \<noteq> []"
  shows "validate_pattern u pattern =
     (case first_error (pattern_segment_error u) 0 (resource_segments pattern) of
        Some e \<Rightarrow> Inl e
      | None \<Rightarrow> if service_of pattern = None then Inr ()
               else Inl (InvalidPattern ''patterns can not be full resource names''))"
proof -
  have post: "validate_post (scanner_new pattern)
      (first_error (pattern_segment_error u) 0 (resource_segments pattern))
      (validate_pattern_loop u (scanner_new pattern) 0)"
    using validate_pattern_loop_list [of "scanner_new pattern" u 0] by simp
  show ?thesis
  proof (cases "first_error (pattern_segment_error u) 0 (resource_segments pattern)")
    case (Some e)
    with post assms show ?thesis by (simp add: validate_pattern_def validate_post_def)
  next
    case None
    with post assms obtain s where s: "validate_pattern_loop u (scanner_new pattern) 0 = Inr s"
        "scanner_inv s" "sc_name s = pattern" "sc_end s \<noteq> 0"
      by (auto simp: validate_post_def)
    from scanned_service [OF s(2,4)] s None assms show ?thesis
      by (auto simp: validate_pattern_def)
  qed
qed

end
