(* ===== verification/Codec.thy ===== *)
theory Codec
  imports Prelude
begin

text \<open>
  The interface of a type with a text form: \<open>Display\<close> renders a value, \<open>FromStr\<close> parses it.
  Several crates promise the same contract (members, roles, permissions, operation names); each
  interprets the locales below on its own two functions, and the consequences are proved once.
\<close>

locale text_codec =
  fixes render :: "'a \<Rightarrow> string"
    and parse :: "string \<Rightarrow> 'e + 'a"
    and wf :: "'a \<Rightarrow> bool"
  assumes parse_render: "wf x \<Longrightarrow> parse (render x) = Inr x"
    and parse_wf: "parse s = Inr x \<Longrightarrow> wf x"
begin

lemma render_inject: "wf x \<Longrightarrow> wf y \<Longrightarrow> render x = render y \<longleftrightarrow> x = y"
  by (metis parse_render sum.inject(2))

lemma reparse: "parse s = Inr x \<Longrightarrow> parse (render x) = Inr x"
  by (blast intro: parse_render parse_wf)

lemma wf_iff_parsed: "wf x \<longleftrightarrow> (\<exists>s. parse s = Inr x)"
  by (blast intro: parse_render parse_wf)

end

text \<open>A lossless form: the parsed text is the rendering of its value, so there is one text per value.\<close>

locale lossless_codec = text_codec +
  assumes render_parse: "parse s = Inr x \<Longrightarrow> render x = s"
begin

lemma parse_inject: "parse s = Inr x \<Longrightarrow> parse t = Inr x \<Longrightarrow> s = t"
  using render_parse by metis

lemma accepts_iff: "(\<exists>x. parse s = Inr x) \<longleftrightarrow> (\<exists>x. wf x \<and> s = render x)"
  using render_parse parse_render parse_wf by metis

lemma parse_iff: "parse s = Inr x \<longleftrightarrow> wf x \<and> s = render x"
  using render_parse parse_render parse_wf by metis

end

end
