(* ===== verification/Rn_Pattern.thy ===== *)
theory Rn_Pattern
  imports Rn_Name Codec
begin

text \<open>
  \<open>Pattern\<close> of \<open>crates/aip-resourcename/src/lib.rs\<close>: parsing a pattern, matching a name against it
  (exactly, or with wildcards), and formatting a name from its variables.
\<close>

definition validate_variable :: "string \<Rightarrow> string \<Rightarrow> rn_error + unit" where
  "validate_variable name val =
     (if val = [] then Inl (InvalidVariable name ''must not be empty'')
      else if CHR ''/'' \<in> set val then Inl (InvalidVariable name (''must not contain '' @ [CHR 0x27, CHR ''/'', CHR 0x27]))
      else Inr ())"

datatype pattern_segment = Literal string | Variable string

record pattern =
  pat_segments :: "pattern_segment list"

definition variable_name :: "string \<Rightarrow> string option" where
  "variable_name s =
     (if length s \<ge> 2 \<and> s ! 0 = CHR 0x7B \<and> s ! (length s - 1) = CHR 0x7D
      then Some (take (length s - 2) (drop 1 s)) else None)"

fun parse_segments :: "unicode_tables \<Rightarrow> string list \<Rightarrow> string set \<Rightarrow> rn_error + pattern_segment list" where
  "parse_segments u [] seen = Inr []"
| "parse_segments u (raw # rest) seen =
     (if raw = [] then Inl (InvalidPattern ''pattern has an empty segment'')
      else if raw = WILDCARD then Inl (InvalidPattern ''wildcard `-` is not allowed in a pattern'')
      else
        (case variable_name raw of
           Some name \<Rightarrow>
             if name = [] then Inl (InvalidPattern ''variable segment has an empty name'')
             else if name \<in> seen then
               Inl (InvalidPattern (''variable '' @ str_debug u name @ '' appears more than once''))
             else res_bind (parse_segments u rest (insert name seen)) (\<lambda>segs. Inr (Variable name # segs))
         | None \<Rightarrow>
             if CHR 0x7B \<in> set raw \<or> CHR 0x7D \<in> set raw then
               Inl (InvalidPattern (''segment '' @ str_debug u raw @ '' is a malformed variable''))
             else res_bind (parse_segments u rest seen) (\<lambda>segs. Inr (Literal raw # segs))))"

definition pattern_parse :: "unicode_tables \<Rightarrow> string \<Rightarrow> rn_error + pattern" where
  "pattern_parse u pat =
     (if starts_with pat ''//'' then Inl (InvalidPattern ''full resource name is not a valid pattern'')
      else
        (let body = (case strip_prefix ''/'' pat of Some b \<Rightarrow> b | None \<Rightarrow> pat) in
         if body = [] then Inl (InvalidPattern ''pattern is empty'')
         else res_bind (parse_segments u (split_on CHR ''/'' body) {})
                (\<lambda>segs. Inr \<lparr>pat_segments = segs\<rparr>)))"

text \<open>\<open>Captures\<close> is the ordered map of the bound variables.\<close>

type_synonym captures = "string btree"

fun match_loop :: "pattern_segment list \<Rightarrow> segment list \<Rightarrow> captures \<Rightarrow> captures option" where
  "match_loop (p # ps) (seg # segs) vars =
     (if variable_name seg \<noteq> None then None
      else (case p of
              Literal literal \<Rightarrow> if literal \<noteq> seg then None else match_loop ps segs vars
            | Variable name \<Rightarrow>
                if seg = [] then None else match_loop ps segs (bt_insert name seg vars)))"
| "match_loop _ _ vars = Some vars"

definition match_name :: "pattern \<Rightarrow> string \<Rightarrow> captures option" where
  "match_name p name =
     (let segments = name_segments name in
      if length segments \<noteq> length (pat_segments p) then None
      else match_loop (pat_segments p) segments [])"

definition captures_get :: "captures \<Rightarrow> string \<Rightarrow> string option" where
  "captures_get c name = map_of c name"

definition captures_iter :: "captures \<Rightarrow> (string \<times> string) list" where
  "captures_iter c = c"

fun render_segment :: "pattern_segment \<Rightarrow> string" where
  "render_segment (Literal literal) = literal"
| "render_segment (Variable var) = [CHR 0x7B] @ var @ [CHR 0x7D]"

definition pattern_render :: "pattern \<Rightarrow> string" where
  "pattern_render p = join ''/'' (map render_segment (pat_segments p))"

definition mismatch :: "pattern \<Rightarrow> rn_error" where
  "mismatch p = PatternMismatch (pattern_render p)"

fun match_wild_loop ::
  "pattern \<Rightarrow> pattern_segment list \<Rightarrow> segment list \<Rightarrow> (string \<rightharpoonup> string option) \<Rightarrow> rn_error + (string \<rightharpoonup> string option)" where
  "match_wild_loop pat (p # ps) (seg # segs) vars =
     (if variable_name seg \<noteq> None then Inl (mismatch pat)
      else (case p of
              Literal literal \<Rightarrow>
                if literal \<noteq> seg then Inl (mismatch pat) else match_wild_loop pat ps segs vars
            | Variable var \<Rightarrow>
                if seg = WILDCARD then match_wild_loop pat ps segs (vars(var \<mapsto> None))
                else if seg = [] then Inl (mismatch pat)
                else match_wild_loop pat ps segs (vars(var \<mapsto> Some seg))))"
| "match_wild_loop pat _ _ vars = Inr vars"

definition match_with_wildcards :: "pattern \<Rightarrow> string \<Rightarrow> rn_error + (string \<rightharpoonup> string option)" where
  "match_with_wildcards p name =
     (let segments = name_segments name in
      if length segments \<noteq> length (pat_segments p) then Inl (mismatch p)
      else match_wild_loop p (pat_segments p) segments Map.empty)"

definition declares :: "pattern \<Rightarrow> string \<Rightarrow> bool" where
  "declares p name = list_ex (\<lambda>s. s = Variable name) (pat_segments p)"

fun format_loop :: "(string \<rightharpoonup> string) \<Rightarrow> nat \<Rightarrow> pattern_segment list \<Rightarrow> string \<Rightarrow> rn_error + string" where
  "format_loop provided i [] out = Inr out"
| "format_loop provided i (p # ps) out =
     (let out = (if i > 0 then out @ ''/'' else out) in
      case p of
        Literal literal \<Rightarrow> format_loop provided (i + 1) ps (out @ literal)
      | Variable name \<Rightarrow>
          (case provided name of
             None \<Rightarrow> Inl (MissingVariable name)
           | Some v \<Rightarrow> format_loop provided (i + 1) ps (out @ v)))"

definition pattern_format :: "pattern \<Rightarrow> (string \<times> string) list \<Rightarrow> rn_error + string" where
  "pattern_format p vars =
     (let provided = bt_of_list vars in
      case find (\<lambda>(name, _). \<not> declares p name) provided of
        Some (name, _) \<Rightarrow> Inl (UnknownVariable name)
      | None \<Rightarrow> format_loop (map_of provided) 0 (pat_segments p) [])"

definition is_match :: "unicode_tables \<Rightarrow> string \<Rightarrow> string \<Rightarrow> bool" where
  "is_match u pat name =
     (case pattern_parse u pat of Inl _ \<Rightarrow> False | Inr p \<Rightarrow> match_name p name \<noteq> None)"

subsection \<open>Well-formed patterns, and the text form\<close>

fun variables :: "pattern_segment list \<Rightarrow> string list" where
  "variables [] = []"
| "variables (Literal _ # ps) = variables ps"
| "variables (Variable v # ps) = v # variables ps"

fun segment_wf :: "pattern_segment \<Rightarrow> bool" where
  "segment_wf (Literal l) \<longleftrightarrow>
     l \<noteq> [] \<and> l \<noteq> WILDCARD \<and> CHR ''/'' \<notin> set l \<and> CHR 0x7B \<notin> set l \<and> CHR 0x7D \<notin> set l"
| "segment_wf (Variable v) \<longleftrightarrow> v \<noteq> [] \<and> CHR ''/'' \<notin> set v"

definition pattern_wf :: "pattern \<Rightarrow> bool" where
  "pattern_wf p \<longleftrightarrow>
     pat_segments p \<noteq> [] \<and> list_all segment_wf (pat_segments p) \<and> distinct (variables (pat_segments p))"

lemma variable_name_braces [simp]: "variable_name (CHR 0x7B # v @ [CHR 0x7D]) = Some v"
  by (simp add: variable_name_def nth_append)

lemma variable_name_Some: "variable_name s = Some v \<longleftrightarrow> s = [CHR 0x7B] @ v @ [CHR 0x7D]"
proof
  assume h: "variable_name s = Some v"
  then have len: "length s \<ge> 2" and hd: "s ! 0 = CHR 0x7B" and lst: "s ! (length s - 1) = CHR 0x7D"
    and v: "v = take (length s - 2) (drop 1 s)"
    by (auto simp: variable_name_def split: if_splits)
  obtain a t where s: "s = a # t" using len by (cases s) auto
  with len have t: "t \<noteq> []" by (cases t) auto
  then have "t = butlast t @ [last t]" by simp
  moreover have "last t = CHR 0x7D" using lst s t by (simp add: last_conv_nth nth_Cons')
  moreover have "butlast t = v" using v s by (simp add: butlast_conv_take)
  ultimately show "s = [CHR 0x7B] @ v @ [CHR 0x7D]" using s hd by simp
qed (simp add: variable_name_def nth_append)

lemma variable_name_None: "CHR 0x7B \<notin> set s \<Longrightarrow> variable_name s = None"
  by (cases "variable_name s") (auto simp: variable_name_Some)

lemma parse_segments_render:
  "list_all segment_wf ps \<Longrightarrow> distinct (variables ps) \<Longrightarrow> seen \<inter> set (variables ps) = {} \<Longrightarrow>
     parse_segments u (map render_segment ps) seen = Inr ps"
proof (induction ps arbitrary: seen)
  case Nil
  then show ?case by simp
next
  case (Cons p ps)
  then show ?case
  proof (cases p)
    case (Literal l)
    with Cons show ?thesis by (auto simp: variable_name_None)
  next
    case (Variable v)
    with Cons show ?thesis by (auto simp: WILDCARD_def)
  qed
qed

lemma parse_segments_Cons:
  "parse_segments u (raw # rest) seen = Inr ps \<Longrightarrow>
     \<exists>p qs. ps = p # qs \<and> raw = render_segment p \<and> (CHR ''/'' \<notin> set raw \<longrightarrow> segment_wf p)
       \<and> (case p of Literal _ \<Rightarrow> parse_segments u rest seen = Inr qs
          | Variable v \<Rightarrow> v \<notin> seen \<and> parse_segments u rest (insert v seen) = Inr qs)"
  by (cases "variable_name raw")
    (auto simp: res_bind_Inr_iff variable_name_Some split: if_splits)

lemma parse_segments_wf:
  "parse_segments u raws seen = Inr ps \<Longrightarrow> \<forall>r \<in> set raws. CHR ''/'' \<notin> set r \<Longrightarrow>
     list_all segment_wf ps \<and> distinct (variables ps) \<and> (\<forall>v \<in> set (variables ps). v \<notin> seen)
     \<and> map render_segment ps = raws"
proof (induction raws arbitrary: ps seen)
  case Nil
  then show ?case by simp
next
  case (Cons raw raws)
  from parse_segments_Cons [OF Cons.prems(1)] obtain p qs where
    ps: "ps = p # qs" "raw = render_segment p" "CHR ''/'' \<notin> set raw \<longrightarrow> segment_wf p"
    and rest: "case p of Literal _ \<Rightarrow> parse_segments u raws seen = Inr qs
          | Variable v \<Rightarrow> v \<notin> seen \<and> parse_segments u raws (insert v seen) = Inr qs" by blast
  show ?case
  proof (cases p)
    case (Literal l)
    with Cons.IH [of seen qs] rest ps Cons.prems(2) show ?thesis by auto
  next
    case (Variable v)
    with Cons.IH [of "insert v seen" qs] rest ps Cons.prems(2) show ?thesis by auto
  qed
qed

lemma render_no_slash: "list_all segment_wf ps \<Longrightarrow> \<forall>r \<in> set (map render_segment ps). CHR ''/'' \<notin> set r"
  by (induction ps) (auto elim: segment_wf.elims)

lemma render_not_Nil: "segment_wf p \<Longrightarrow> render_segment p \<noteq> []"
  by (cases p) auto

lemma pattern_render_head:
  assumes "pattern_wf p"
  shows "\<not> starts_with (pattern_render p) ''/''" and "pattern_render p \<noteq> []"
proof -
  obtain q qs where p: "pat_segments p = q # qs" and q: "segment_wf q"
    using assms by (cases "pat_segments p") (auto simp: pattern_wf_def)
  obtain c r where r: "render_segment q = c # r" using render_not_Nil [OF q]
    by (cases "render_segment q") auto
  moreover have "c \<noteq> CHR ''/''" using r q by (cases q) auto
  ultimately show "\<not> starts_with (pattern_render p) ''/''" and "pattern_render p \<noteq> []"
    by (cases qs; auto simp: pattern_render_def p starts_with_def)+
qed

lemma pattern_parse_render: "pattern_wf p \<Longrightarrow> pattern_parse u (pattern_render p) = Inr p"
proof -
  assume wf: "pattern_wf p"
  then have "split_on CHR ''/'' (pattern_render p) = map render_segment (pat_segments p)"
    unfolding pattern_render_def
    by (intro split_on_join render_no_slash) (auto simp: pattern_wf_def)
  moreover have "\<not> starts_with (pattern_render p) ''//''" and "strip_prefix ''/'' (pattern_render p) = None"
    using pattern_render_head(1) [OF wf] starts_with_iff [of "pattern_render p"]
    by (fastforce, simp add: strip_prefix_def starts_with_def)
  ultimately show ?thesis using wf pattern_render_head [OF wf]
    by (simp add: pattern_parse_def pattern_wf_def parse_segments_render)
qed

lemma pattern_parse_wf: "pattern_parse u s = Inr p \<Longrightarrow> pattern_wf p"
  using parse_segments_wf split_on_no_delim
  by (fastforce simp: pattern_parse_def Let_def pattern_wf_def res_bind_Inr_iff split: if_splits)

text \<open>The parser accepts exactly the rendering of its result, after one optional slash.\<close>

lemma pattern_render_parse:
  assumes "pattern_parse u s = Inr p"
  shows "s = pattern_render p \<or> s = ''/'' @ pattern_render p"
proof -
  define body where "body = (case strip_prefix ''/'' s of Some b \<Rightarrow> b | None \<Rightarrow> s)"
  from assms obtain ps where "parse_segments u (split_on CHR ''/'' body) {} = Inr ps"
    and p: "p = \<lparr>pat_segments = ps\<rparr>"
    by (auto simp: pattern_parse_def body_def Let_def res_bind_Inr_iff split: if_splits)
  then have "map render_segment ps = split_on CHR ''/'' body"
    using parse_segments_wf split_on_no_delim by blast
  then have "pattern_render p = body" by (simp add: pattern_render_def p)
  then show ?thesis
    by (auto simp: body_def strip_prefix_Some split: option.splits)
qed

interpretation pattern_text: text_codec pattern_render "pattern_parse u" pattern_wf
  by unfold_locales (auto intro: pattern_parse_render pattern_parse_wf)


subsection \<open>Matching and formatting on lists\<close>

text \<open>A segment fits its place in the pattern; \<open>binds\<close> pairs the variables with their segments.\<close>

fun fits :: "pattern_segment \<Rightarrow> segment \<Rightarrow> bool" where
  "fits (Literal l) seg \<longleftrightarrow> variable_name seg = None \<and> l = seg"
| "fits (Variable v) seg \<longleftrightarrow> variable_name seg = None \<and> seg \<noteq> []"

fun binds :: "pattern_segment list \<Rightarrow> segment list \<Rightarrow> (string \<times> string) list" where
  "binds (Literal _ # ps) (seg # segs) = binds ps segs"
| "binds (Variable v # ps) (seg # segs) = (v, seg) # binds ps segs"
| "binds _ _ = []"

fun subst :: "(string \<rightharpoonup> string) \<Rightarrow> pattern_segment \<Rightarrow> string" where
  "subst m (Literal l) = l"
| "subst m (Variable v) = the (m v)"

lemma match_loop_eq:
  "length ps = length segs \<Longrightarrow>
     match_loop ps segs vars =
       (if list_all2 fits ps segs then Some (fold (\<lambda>(k, v). bt_insert k v) (binds ps segs) vars) else None)"
proof (induction ps segs arbitrary: vars rule: list_induct2')
  case (4 p ps seg segs)
  then show ?case by (cases p) auto
qed auto

lemma match_name_eq:
  "match_name p name =
     (if list_all2 fits (pat_segments p) (resource_segments name)
      then Some (bt_of_list (binds (pat_segments p) (resource_segments name))) else None)"
  by (auto simp: match_name_def name_segments_eq Let_def match_loop_eq bt_of_list_def
      dest: list_all2_lengthD)

lemma keys_binds: "length ps = length segs \<Longrightarrow> map fst (binds ps segs) = variables ps"
proof (induction ps segs rule: list_induct2')
  case (4 p ps seg segs)
  then show ?case by (cases p) auto
qed auto

lemma format_loop_ok:
  "set (variables ps) \<subseteq> dom m \<Longrightarrow>
     format_loop m i ps out =
       Inr (out @ (if i = 0 then join ''/'' (map (subst m) ps)
                   else concat (map (\<lambda>p. ''/'' @ subst m p) ps)))"
proof (induction ps arbitrary: i out)
  case Nil
  then show ?case by simp
next
  case (Cons p ps)
  then show ?case
    by (cases p) (auto simp: Let_def join_slash_Cons comp_def split: option.splits)
qed

lemma format_loop_missing:
  "\<not> set (variables ps) \<subseteq> dom m \<Longrightarrow>
     \<exists>name. name \<in> set (variables ps) \<and> m name = None \<and> format_loop m i ps out = Inl (MissingVariable name)"
proof (induction ps arbitrary: i out)
  case Nil
  then show ?case by simp
next
  case (Cons p ps)
  show ?case
  proof (cases p)
    case (Literal l)
    with Cons show ?thesis by (simp add: Let_def)
  next
    case (Variable v)
    show ?thesis
    proof (cases "m v")
      case (Some a)
      with Cons Variable have "\<not> set (variables ps) \<subseteq> dom m" by auto
      with Cons.IH [OF this] Variable Some show ?thesis by (simp add: Let_def) blast
    qed (simp add: Variable Let_def)
  qed
qed

lemma declares_iff: "declares p name \<longleftrightarrow> name \<in> set (variables (pat_segments p))"
proof -
  have "list_ex (\<lambda>s. s = Variable name) ps \<longleftrightarrow> name \<in> set (variables ps)" for ps
    by (induction ps rule: variables.induct) auto
  then show ?thesis by (simp add: declares_def)
qed

text \<open>Formatting succeeds exactly when the supplied names are the declared ones.\<close>

lemma pattern_format_eq:
  assumes "fst ` set vars = set (variables (pat_segments p))"
  shows "pattern_format p vars = Inr (join ''/'' (map (subst (map_of (rev vars))) (pat_segments p)))"
proof -
  have keys: "fst ` set (bt_of_list vars) = set (variables (pat_segments p))"
    using assms by (metis dom_map_of_conv_image_fst map_of_bt_of_list set_rev)
  then have "find (\<lambda>(name, _). \<not> declares p name) (bt_of_list vars) = None"
    by (force simp: find_None_iff declares_iff)
  moreover have "set (variables (pat_segments p)) \<subseteq> dom (map_of (rev vars))"
    using assms by (simp add: dom_map_of_conv_image_fst)
  ultimately show ?thesis
    by (simp add: pattern_format_def Let_def map_of_bt_of_list format_loop_ok)
qed

lemma pattern_format_error:
  assumes "fst ` set vars \<noteq> set (variables (pat_segments p))"
  shows "\<exists>name. pattern_format p vars = Inl (UnknownVariable name)
                  \<and> name \<in> fst ` set vars - set (variables (pat_segments p))
              \<or> pattern_format p vars = Inl (MissingVariable name)
                  \<and> fst ` set vars \<subseteq> set (variables (pat_segments p))
                  \<and> name \<in> set (variables (pat_segments p)) - fst ` set vars"
proof (cases "find (\<lambda>(name, _). \<not> declares p name) (bt_of_list vars)")
  case (Some kv)
  obtain k v where kv: "kv = (k, v)" by (cases kv)
  with Some have "\<not> declares p k" and "(k, v) \<in> set (bt_of_list vars)"
    by (auto simp: find_Some_iff) (metis nth_mem)
  moreover have "fst ` set (bt_of_list vars) = fst ` set vars"
    by (metis dom_map_of_conv_image_fst map_of_bt_of_list set_rev)
  ultimately show ?thesis using Some kv
    by (intro exI [of _ k]) (force simp: pattern_format_def Let_def declares_iff)
next
  case None
  have keys: "fst ` set (bt_of_list vars) = fst ` set vars"
    by (metis dom_map_of_conv_image_fst map_of_bt_of_list set_rev)
  have sub: "fst ` set vars \<subseteq> set (variables (pat_segments p))"
    using None unfolding keys [symmetric] by (auto simp: find_None_iff declares_iff)
  with assms have "\<not> set (variables (pat_segments p)) \<subseteq> dom (map_of (bt_of_list vars))"
    by (auto simp: map_of_bt_of_list dom_map_of_conv_image_fst)
  from format_loop_missing [OF this, of 0 "[]"] obtain name
    where "name \<in> set (variables (pat_segments p))" "map_of (bt_of_list vars) name = None"
      "format_loop (map_of (bt_of_list vars)) 0 (pat_segments p) [] = Inl (MissingVariable name)" by blast
  with None sub show ?thesis
    by (intro exI [of _ name])
      (auto simp: pattern_format_def Let_def map_of_eq_None_iff simp flip: keys)
qed

text \<open>What a wildcard match binds a segment to.\<close>

definition wild_value :: "string \<Rightarrow> string option" where
  "wild_value v = (if v = WILDCARD then None else Some v)"

definition wild_put :: "string \<times> string \<Rightarrow> (string \<rightharpoonup> string option) \<Rightarrow> (string \<rightharpoonup> string option)" where
  "wild_put kv m = m(fst kv \<mapsto> wild_value (snd kv))"

lemma wild_put_pair [simp]: "wild_put (k, v) m = m(k \<mapsto> wild_value v)"
  by (simp add: wild_put_def)

lemma wild_value_simps [simp]: "wild_value WILDCARD = None" "v \<noteq> WILDCARD \<Longrightarrow> wild_value v = Some v"
  by (simp_all add: wild_value_def)

lemma WILDCARD_not_Nil [simp]: "WILDCARD \<noteq> []" "[] \<noteq> WILDCARD"
  by (simp_all add: WILDCARD_def)

lemma match_wild_loop_eq:
  "length ps = length segs \<Longrightarrow>
     match_wild_loop pat ps segs vars =
       (if list_all2 fits ps segs then Inr (fold wild_put (binds ps segs) vars) else Inl (mismatch pat))"
proof (induction ps segs arbitrary: vars rule: list_induct2')
  case (4 p ps seg segs)
  then show ?case by (cases p) auto
qed auto

lemma fold_wild_map:
  "fold wild_put xs (\<lambda>k. map_option wild_value (map_of m k)) =
     (\<lambda>k. map_option wild_value (map_of (fold (\<lambda>(k, v). bt_insert k v) xs m) k))"
proof (induction xs arbitrary: m)
  case Nil
  then show ?case by simp
next
  case (Cons x xs)
  obtain k v where x: "x = (k, v)" by (cases x)
  have "wild_put (k, v) (\<lambda>k. map_option wild_value (map_of m k))
          = (\<lambda>j. map_option wild_value (map_of (bt_insert k v m) j))"
    by (auto simp: fun_eq_iff)
  with Cons.IH [of "bt_insert k v m"] show ?case by (simp only: x fold_simps prod.case)
qed

lemma match_with_wildcards_eq:
  "match_with_wildcards p name =
     (case match_name p name of
        None \<Rightarrow> Inl (mismatch p)
      | Some c \<Rightarrow> Inr (\<lambda>k. map_option wild_value (captures_get c k)))"
proof (cases "length (resource_segments name) = length (pat_segments p)")
  case False
  then show ?thesis
    by (simp add: match_with_wildcards_def match_name_def name_segments_eq Let_def)
next
  case True
  have "fold wild_put xs Map.empty = (\<lambda>k. map_option wild_value (map_of (bt_of_list xs) k))" for xs
    using fold_wild_map [of xs "[]"] by (simp add: bt_of_list_def)
  with True show ?thesis
    by (simp add: match_with_wildcards_def match_name_eq name_segments_eq Let_def match_wild_loop_eq
        captures_get_def)
qed


subsection \<open>Matching inverts formatting\<close>

lemma subst_binds:
  "list_all2 fits ps segs \<Longrightarrow> distinct (variables ps) \<Longrightarrow>
     \<forall>k x. map_of (binds ps segs) k = Some x \<longrightarrow> m k = Some x \<Longrightarrow> map (subst m) ps = segs"
proof (induction ps segs rule: list_induct2')
  case (4 p ps seg segs)
  show ?case
  proof (cases p)
    case (Literal l)
    with 4 show ?thesis by simp
  next
    case (Variable v)
    from 4 Variable have m: "m v = Some seg" by simp
    have "map fst (binds ps segs) = variables ps"
      using 4(2) by (intro keys_binds) (auto dest: list_all2_lengthD)
    then have "v \<notin> set (map fst (binds ps segs))" using 4(3) Variable by (simp only:) simp
    then have none: "map_of (binds ps segs) v = None" by (simp add: map_of_eq_None_iff)
    have "\<forall>k x. map_of (binds ps segs) k = Some x \<longrightarrow> m k = Some x"
    proof (intro allI impI)
      fix k x
      assume k: "map_of (binds ps segs) k = Some x"
      with none have "k \<noteq> v" by auto
      with k 4(4) Variable show "m k = Some x" by (simp del: fun_upd_apply) (simp add: fun_upd_def)
    qed
    with 4 Variable m show ?thesis by simp
  qed
qed auto

lemma binds_subst:
  "map fst (binds ps (map (subst m) ps)) = variables ps"
  "v \<in> set (variables ps) \<Longrightarrow> distinct (variables ps) \<Longrightarrow>
     map_of (binds ps (map (subst m) ps)) v = Some (the (m v))"
  by (simp add: keys_binds) (induction ps rule: variables.induct, auto)

lemma match_then_format:
  assumes wf: "pattern_wf p" and m: "match_name p name = Some c"
  shows "pattern_format p (captures_iter c) = Inr (join ''/'' (resource_segments name))"
proof -
  let ?b = "binds (pat_segments p) (resource_segments name)"
  have fit: "list_all2 fits (pat_segments p) (resource_segments name)" and c: "c = bt_of_list ?b"
    using m by (auto simp: match_name_eq split: if_splits)
  have keys: "map fst ?b = variables (pat_segments p)"
    using fit by (simp add: keys_binds list_all2_lengthD)
  have dist: "distinct (map fst ?b)" using keys wf by (simp add: pattern_wf_def)
  have mc: "map_of c = map_of ?b"
    using dist by (simp add: c map_of_bt_of_list map_of_rev_distinct)
  have dc: "distinct (map fst c)" by (simp add: c bt_wf_distinct bt_wf_of_list)
  have "fst ` set c = set (variables (pat_segments p))"
    using keys mc by (metis dom_map_of_conv_image_fst list.set_map)
  then have "pattern_format p c
      = Inr (join ''/'' (map (subst (map_of (rev c))) (pat_segments p)))"
    by (rule pattern_format_eq)
  also have "map (subst (map_of (rev c))) (pat_segments p) = resource_segments name"
    using fit wf dc mc by (intro subst_binds) (auto simp: pattern_wf_def map_of_rev_distinct)
  finally show ?thesis by (simp add: captures_iter_def)
qed

lemma resource_segments_join:
  assumes "segs \<noteq> []" and "\<forall>s \<in> set segs. CHR ''/'' \<notin> set s" and "hd segs \<noteq> []"
  shows "resource_segments (join ''/'' segs) = segs"
proof -
  obtain s ss where segs: "segs = s # ss" using assms(1) by (cases segs) auto
  obtain c cs where s: "s = c # cs" using assms(3) segs by (cases s) auto
  have "c \<noteq> CHR ''/''" using assms(2) segs s by auto
  then have "\<not> starts_with (join ''/'' segs) ''/''" and "join ''/'' segs \<noteq> []"
    by (auto simp: segs s join_slash_Cons starts_with_def)
  moreover have "\<not> starts_with (join ''/'' segs) ''//''"
    using calculation(1) by (auto simp: starts_with_iff)
  ultimately show ?thesis using assms by (simp add: resource_segments_def split_on_join)
qed

text \<open>What \<open>validate_variable\<close> and the brace test ask of every supplied value.\<close>

definition good_values :: "(string \<times> string) list \<Rightarrow> bool" where
  "good_values vars =
     list_all (\<lambda>(k, v). validate_variable k v = Inr () \<and> variable_name v = None) vars"

lemma format_then_match:
  assumes wf: "pattern_wf p" and f: "pattern_format p vars = Inr name" and good: "good_values vars"
  shows "match_name p name = Some (bt_of_list vars)"
proof -
  let ?m = "map_of (rev vars)" and ?ps = "pat_segments p"
  have keys: "fst ` set vars = set (variables ?ps)"
    using pattern_format_error [of vars p] f by (cases "fst ` set vars = set (variables ?ps)") auto
  have name: "name = join ''/'' (map (subst ?m) ?ps)"
    using pattern_format_eq [OF keys] f by simp
  have val: "v \<noteq> []" "CHR ''/'' \<notin> set v" "variable_name v = None" if "?m k = Some v" for k v
  proof -
    have "(k, v) \<in> set vars" using map_of_SomeD [OF that] by simp
    with good show "v \<noteq> []" "CHR ''/'' \<notin> set v" "variable_name v = None"
      by (fastforce simp: good_values_def list_all_iff validate_variable_def split: if_splits)+
  qed
  have fit: "fits q (subst ?m q) \<and> subst ?m q \<noteq> [] \<and> CHR ''/'' \<notin> set (subst ?m q)"
    if q: "q \<in> set ?ps" for q
  proof (cases q)
    case (Literal l)
    with q wf show ?thesis by (auto simp: pattern_wf_def list_all_iff variable_name_None)
  next
    case (Variable v)
    have "Variable v \<in> set qs \<Longrightarrow> v \<in> set (variables qs)" for qs
      by (induction qs rule: variables.induct) auto
    with q Variable have "v \<in> fst ` set vars" by (simp add: keys)
    then obtain x where "?m v = Some x"
      by (metis dom_map_of_conv_image_fst domD set_rev)
    with val [OF this] Variable show ?thesis by simp
  qed
  have ne: "?ps \<noteq> []" using wf by (simp add: pattern_wf_def)
  have segs: "resource_segments name = map (subst ?m) ?ps"
    unfolding name using ne fit by (intro resource_segments_join) (auto simp: hd_map)
  have all: "list_all2 fits ?ps (map (subst ?m) ?ps)"
    using fit by (auto simp: list_all2_conv_all_nth)
  have "bt_of_list (binds ?ps (map (subst ?m) ?ps)) = bt_of_list vars"
  proof (rule bt_ext)
    have d: "distinct (map fst (binds ?ps (map (subst ?m) ?ps)))"
      using wf by (simp add: binds_subst pattern_wf_def)
    show "map_of (bt_of_list (binds ?ps (map (subst ?m) ?ps))) = map_of (bt_of_list vars)"
    proof
      fix k
      show "map_of (bt_of_list (binds ?ps (map (subst ?m) ?ps))) k = map_of (bt_of_list vars) k"
      proof (cases "k \<in> set (variables ?ps)")
        case True
        then have "?m k \<noteq> None" using keys by (simp add: map_of_eq_None_iff)
        with True wf d show ?thesis
          by (auto simp: map_of_bt_of_list map_of_rev_distinct binds_subst pattern_wf_def)
      next
        case False
        then have "?m k = None" using keys by (simp add: map_of_eq_None_iff)
        moreover have "map_of (binds ?ps (map (subst ?m) ?ps)) k = None"
          using False binds_subst(1) [of ?ps ?m] by (metis map_of_eq_None_iff set_map)
        ultimately show ?thesis using d by (simp add: map_of_bt_of_list map_of_rev_distinct)
      qed
    qed
  qed (simp_all add: bt_wf_of_list)
  with all segs show ?thesis by (simp add: match_name_eq)
qed


subsection \<open>Properties\<close>

text \<open>\<open>has_parent\<close> decides the parent relation on segments: every segment of the parent is a
  wildcard, the name's segment, or its unrevised form, the name is at least as long and another
  name; two full names must agree on the service. A parent that is only a service
  (\<open>//service\<close>, no segment) is a parent of every other name, whatever its service.\<close>

theorem has_parent_decides:
  "has_parent name parent \<longleftrightarrow>
     name \<noteq> [] \<and> parent \<noteq> [] \<and> name \<noteq> parent
     \<and> parent_covers (resource_segments parent) (resource_segments name)
     \<and> (resource_segments parent = [] \<or> service_of parent = None \<or> service_of name = None
         \<or> service_of parent = service_of name)"
  by (rule has_parent_iff)

text \<open>The full-name rule is not applied to a parent without segments.\<close>

lemma has_parent_service_only:
  "has_parent ''//b.example.com/shippers/1'' ''//a.example.com''"
  by (simp add: has_parent_iff resource_segments_def str_simps starts_with_def)

text \<open>\<open>ancestor\<close> returns the prefix of the name whose segments are as many leading segments as
  the pattern has, exactly when both are non-empty and the pattern covers the name from the
  left without wildcards.\<close>

theorem ancestor_returns_covered_prefix:
  "((\<exists>a. ancestor name pattern = Some a) \<longleftrightarrow>
      name \<noteq> [] \<and> pattern \<noteq> [] \<and> covers (resource_segments pattern) (resource_segments name))
   \<and> pred_option (\<lambda>a. prefix a name
        \<and> resource_segments a = take (length (resource_segments pattern)) (resource_segments name))
       (ancestor name pattern)"
  using ancestor_cases [of name pattern] by (cases "ancestor name pattern") auto

text \<open>C34: \<open>validate\<close> accepts a name exactly when each segment is a wildcard or a DNS name
  (labels of 1 to 63 letters, digits, underscores and inner dashes, at most 254 bytes) and the
  service, if any, is a DNS name; otherwise it reports the first faulty segment, by its 1-based
  index when it is empty.\<close>

theorem validate_accepts_and_reports:
  "(validate name = Inr () \<longleftrightarrow>
      name \<noteq> []
      \<and> list_all (\<lambda>seg. seg = WILDCARD \<or> is_domain_name seg) (resource_segments name)
      \<and> pred_option is_domain_name (service_of name))
   \<and> (is_domain_name seg \<longleftrightarrow>
        seg \<noteq> [] \<and> length seg \<le> 254 \<and> (length seg = 254 \<longrightarrow> last seg = CHR ''.'')
        \<and> labels_ok (split_on CHR ''.'' seg))
   \<and> (resource_segments name = good @ bad # rest \<longrightarrow>
        list_all (\<lambda>seg. seg = WILDCARD \<or> is_domain_name seg) good \<longrightarrow>
        (bad \<noteq> WILDCARD \<and> \<not> is_domain_name bad) \<longrightarrow>
        validate name = Inl (if bad = [] then EmptySegment (Suc (length good))
                             else if is_variable bad then VariableInName bad else InvalidDnsName bad))"
proof -
  have none: "segment_error i s = None \<longleftrightarrow> s = WILDCARD \<or> is_domain_name s" for i s
    by (auto simp: segment_error_def is_wildcard_def)
  have all: "first_error segment_error 0 segs = None \<longleftrightarrow> list_all (\<lambda>s. s = WILDCARD \<or> is_domain_name s) segs" for segs
    by (simp add: first_error_None none list_all_length)
  have accept: "validate name = Inr () \<longleftrightarrow>
      name \<noteq> [] \<and> list_all (\<lambda>seg. seg = WILDCARD \<or> is_domain_name seg) (resource_segments name)
      \<and> pred_option is_domain_name (service_of name)"
  proof (cases "name = []")
    case True
    then show ?thesis by (simp add: validate_def)
  next
    case False
    then show ?thesis
      by (auto simp: validate_eq all [symmetric] split: option.splits if_splits)
  qed
  have report: "validate name = Inl (if bad = [] then EmptySegment (Suc (length good))
                             else if is_variable bad then VariableInName bad else InvalidDnsName bad)"
    if "resource_segments name = good @ bad # rest" and "first_error segment_error 0 good = None"
      and "bad \<noteq> WILDCARD \<and> \<not> is_domain_name bad"
  proof -
    have "name \<noteq> []" using that(1) by (auto simp: resource_segments_def)
    moreover have "segment_error (Suc (0 + length good)) bad =
        Some (if bad = [] then EmptySegment (Suc (length good))
              else if is_variable bad then VariableInName bad else InvalidDnsName bad)"
      using that(3) by (simp add: segment_error_def is_wildcard_def)
    ultimately show ?thesis
      using first_error_append [OF that(2)] by (simp add: validate_eq that(1))
  qed
  show ?thesis using accept report domain_name_labels [of seg] by (simp add: all)
qed

theorem validate_accepts_and_reports_witness:
  "validate ''shippers/-/sites/a_b.c'' = Inr () \<and> validate ''a//b'' = Inl (EmptySegment 2)"
proof -
  have a: "resource_segments ''a//b'' = [''a''] @ [] # [''b'']" by (simp add: resource_segments_def starts_with_def)
  have b: "is_domain_name ''a''" "WILDCARD \<noteq> []" by (simp_all add: is_domain_name_def char_class_defs)
  have "validate ''a//b'' = Inl (EmptySegment 2)"
    using validate_accepts_and_reports [of "''a//b''" "''a''" "[''a'']" "[]" "[''b'']"] a b by simp
  moreover have "validate ''shippers/-/sites/a_b.c'' = Inr ()"
    using validate_accepts_and_reports [of "''shippers/-/sites/a_b.c''"]
    by (simp add: resource_segments_def starts_with_def WILDCARD_def is_domain_name_def
        char_class_defs service_of_def)
  ultimately show ?thesis by simp
qed

text \<open>C13: Matching a name and formatting the captured variables gives the name's segments
  back, and a name formatted from single-segment values matches its pattern with exactly those
  values, so patterns lose nothing in either direction.\<close>

theorem pattern_match_format_inverse:
  assumes "pattern_parse u s = Inr p"
  shows "(match_name p name = Some c \<longrightarrow>
            pattern_format p (captures_iter c) = Inr (join ''/'' (resource_segments name)))
         \<and> (pattern_format p vars = Inr name \<longrightarrow> good_values vars \<longrightarrow>
              match_name p name = Some (bt_of_list vars))"
  using match_then_format format_then_match pattern_parse_wf [OF assms] by blast

lemma sample_pattern:
  "pattern_parse ascii_tables ''/a/{b}'' = Inr \<lparr>pat_segments = [Literal ''a'', Variable ''b'']\<rparr>"
  by code_simp

theorem pattern_match_format_inverse_witness:
  "match_name \<lparr>pat_segments = [Literal ''a'', Variable ''b'']\<rparr> ''a/x'' = Some [(''b'', ''x'')]
   \<and> pattern_format \<lparr>pat_segments = [Literal ''a'', Variable ''b'']\<rparr> [(''b'', ''x'')] = Inr ''a/x''"
proof -
  let ?p = "\<lparr>pat_segments = [Literal ''a'', Variable ''b'']\<rparr>"
  have f: "pattern_format ?p [(''b'', ''x'')] = Inr ''a/x''" by code_simp
  moreover have "good_values [(''b'', ''x'')]" by code_simp
  moreover have "bt_of_list [(''b'', ''x'')] = [(''b'', ''x'')]" by code_simp
  ultimately show ?thesis
    using pattern_match_format_inverse [OF sample_pattern, of "''a/x''" _ "[(''b'', ''x'')]"] by simp
qed

text \<open>A parsed pattern renders to the text it was parsed from, up to one leading slash, and
  the rendering parses to the same pattern: no two patterns share a text.\<close>

theorem pattern_text_roundtrip:
  assumes "pattern_parse u s = Inr p"
  shows "pattern_parse u (pattern_render p) = Inr p \<and> (s = pattern_render p \<or> s = ''/'' @ pattern_render p)"
  using pattern_text.reparse [OF assms] pattern_render_parse [OF assms] by simp

theorem pattern_text_roundtrip_witness:
  "pattern_parse ascii_tables (pattern_render \<lparr>pat_segments = [Literal ''a'', Variable ''b'']\<rparr>)
     = Inr \<lparr>pat_segments = [Literal ''a'', Variable ''b'']\<rparr>"
  using pattern_text_roundtrip [OF sample_pattern] by simp

text \<open>Matching with wildcards accepts the names exact matching accepts, binds the same
  variables, and turns exactly the \<open>-\<close> bindings into unconstrained ones; formatting succeeds
  exactly on the declared variables.\<close>

theorem wildcard_match_agrees:
  "match_with_wildcards p name =
     (case match_name p name of
        None \<Rightarrow> Inl (mismatch p)
      | Some c \<Rightarrow> Inr (\<lambda>k. map_option wild_value (captures_get c k)))
   \<and> (is_ok (pattern_format p vars) \<longleftrightarrow> fst ` set vars = set (variables (pat_segments p)))"
  using match_with_wildcards_eq pattern_format_eq [of vars p] pattern_format_error [of vars p]
  by (cases "fst ` set vars = set (variables (pat_segments p))") auto

end
