(* ===== verification/Iam_Principal.thy ===== *)
theory Iam_Principal
  imports Utf8 Status Codec
begin

text \<open>
  \<open>crates/aip-iam/src\<close>: the error type (\<open>lib.rs\<close>), members (\<open>member.rs\<close>), permissions
  (\<open>permission.rs\<close>), roles and role sets (\<open>role.rs\<close>), and the authorization errors (\<open>authz.rs\<close>).
  Members, roles and permissions interpret the text-form interface.
\<close>

subsection \<open>Errors\<close>

datatype iam_error =
  MemberEmpty
| MemberUnknownType string
| MemberEmptyValue string
| RoleMalformed string
| PermissionMalformed string
| PolicyConditionRequiresVersion3 int
| PolicyEtagMismatch
| ConditionMalformed string string
| ConditionEvaluation string string

fun iam_error_display :: "unicode_tables \<Rightarrow> iam_error \<Rightarrow> string" where
  "iam_error_display u MemberEmpty = ''member must not be empty''"
| "iam_error_display u (MemberUnknownType prefx) =
     ''unknown member type '' @ str_debug u prefx
     @ '' (expected user:, serviceAccount:, group:, domain:, allUsers, or allAuthenticatedUsers)''"
| "iam_error_display u (MemberEmptyValue kind) =
     ''member type '' @ str_debug u kind @ '' must have a non-empty value after ''
     @ [CHR 0x27, CHR '':'', CHR 0x27]"
| "iam_error_display u (RoleMalformed role) =
     ''role '' @ str_debug u role
     @ '' must be roles/{role}, projects/{p}/roles/{r}, or organizations/{o}/roles/{r}''"
| "iam_error_display u (PermissionMalformed permission) =
     ''permission '' @ str_debug u permission @ '' must be of the form service.resource.verb''"
| "iam_error_display u (PolicyConditionRequiresVersion3 version) =
     ''a conditional binding requires policy version 3, but the policy is version ''
     @ show_int version"
| "iam_error_display u PolicyEtagMismatch =
     ''policy etag mismatch: the policy was modified concurrently; re-read and retry''"
| "iam_error_display u (ConditionMalformed expression detail) =
     ''condition expression '' @ str_debug u expression @ '' is not valid CEL: '' @ detail"
| "iam_error_display u (ConditionEvaluation expression detail) =
     ''condition expression '' @ str_debug u expression
     @ '' could not be evaluated to a boolean: '' @ detail"

fun iam_error_reason :: "iam_error \<Rightarrow> grpc_code \<times> string \<times> (string \<times> string) list" where
  "iam_error_reason MemberEmpty = (Code_InvalidArgument, ''IAM_MEMBER_EMPTY'', [])"
| "iam_error_reason (MemberUnknownType prefx) =
     (Code_InvalidArgument, ''IAM_MEMBER_UNKNOWN_TYPE'', [(''prefix'', prefx)])"
| "iam_error_reason (MemberEmptyValue kind) =
     (Code_InvalidArgument, ''IAM_MEMBER_EMPTY_VALUE'', [(''kind'', kind)])"
| "iam_error_reason (RoleMalformed role) =
     (Code_InvalidArgument, ''IAM_ROLE_MALFORMED'', [(''role'', role)])"
| "iam_error_reason (PermissionMalformed permission) =
     (Code_InvalidArgument, ''IAM_PERMISSION_MALFORMED'', [(''permission'', permission)])"
| "iam_error_reason (PolicyConditionRequiresVersion3 version) =
     (Code_InvalidArgument, ''IAM_POLICY_CONDITION_REQUIRES_VERSION_3'',
      [(''version'', show_int version)])"
| "iam_error_reason PolicyEtagMismatch = (Code_Aborted, ''IAM_POLICY_ETAG_MISMATCH'', [])"
| "iam_error_reason (ConditionMalformed expression detail) =
     (Code_InvalidArgument, ''IAM_CONDITION_MALFORMED'',
      [(''expression'', expression), (''detail'', detail)])"
| "iam_error_reason (ConditionEvaluation expression detail) =
     (Code_InvalidArgument, ''IAM_CONDITION_EVALUATION_FAILED'',
      [(''expression'', expression), (''detail'', detail)])"

definition iam_status :: "unicode_tables \<Rightarrow> iam_error \<Rightarrow> status" where
  "iam_status u err =
     (case iam_error_reason err of (code, reason, metadata) \<Rightarrow>
        detailed_status code (iam_error_display u err) reason metadata [])"

lemma iam_reason_code: "fst (iam_error_reason e) \<noteq> Code_Ok"
  by (cases e) simp_all

interpretation iam_err: detailed_mapping "iam_status u"
proof
  fix e i
  show "st_info (iam_status u e) = Some i \<Longrightarrow> ei_domain i = ERROR_DOMAIN"
    by (auto simp: iam_status_def split: prod.splits)
  show "st_code (iam_status u e) \<noteq> Code_Ok"
    using iam_reason_code [of e] by (auto simp: iam_status_def split: prod.splits)
  show "st_info (iam_status u e) \<noteq> None"
    by (auto simp: iam_status_def split: prod.splits)
qed

subsection \<open>Members\<close>

datatype member =
  AllUsers
| AllAuthenticatedUsers
| User string
| ServiceAccount string
| Group string
| Domain string

definition member_parse :: "string \<Rightarrow> iam_error + member" where
  "member_parse s =
     (if s = [] then Inl MemberEmpty
      else if s = ''allUsers'' then Inr AllUsers
      else if s = ''allAuthenticatedUsers'' then Inr AllAuthenticatedUsers
      else
        (case split_once CHR '':'' s of
           None \<Rightarrow> Inl (MemberUnknownType s)
         | Some (kind, val) \<Rightarrow>
             if val = [] then Inl (MemberEmptyValue kind)
             else if kind = ''user'' then Inr (User val)
             else if kind = ''serviceAccount'' then Inr (ServiceAccount val)
             else if kind = ''group'' then Inr (Group val)
             else if kind = ''domain'' then Inr (Domain val)
             else Inl (MemberUnknownType kind)))"

fun member_display :: "member \<Rightarrow> string" where
  "member_display AllUsers = ''allUsers''"
| "member_display AllAuthenticatedUsers = ''allAuthenticatedUsers''"
| "member_display (User email) = ''user:'' @ email"
| "member_display (ServiceAccount email) = ''serviceAccount:'' @ email"
| "member_display (Group email) = ''group:'' @ email"
| "member_display (Domain domain) = ''domain:'' @ domain"

definition matches_grant :: "member \<Rightarrow> string \<Rightarrow> bool" where
  "matches_grant self granted =
     (if granted = ''allUsers'' \<or> granted = ''allAuthenticatedUsers'' then True
      else member_display self = granted)"

definition grant_admits :: "string \<Rightarrow> member option \<Rightarrow> bool" where
  "grant_admits granted caller =
     (if granted = ''allUsers'' then True
      else (case caller of Some m \<Rightarrow> matches_grant m granted | None \<Rightarrow> False))"

fun member_wf :: "member \<Rightarrow> bool" where
  "member_wf (User v) = (v \<noteq> [])"
| "member_wf (ServiceAccount v) = (v \<noteq> [])"
| "member_wf (Group v) = (v \<noteq> [])"
| "member_wf (Domain v) = (v \<noteq> [])"
| "member_wf _ = True"

lemma split_once_Some_iff: "split_once c s = Some (a, b) \<longleftrightarrow> s = a @ c # b \<and> c \<notin> set a"
  using split_once_Some split_once_append by blast

lemma member_parse_display: "member_wf m \<Longrightarrow> member_parse (member_display m) = Inr m"
proof (cases m)
  case (User v)
  have "split_once CHR '':'' (''user'' @ CHR '':'' # v) = Some (''user'', v)" by (rule split_once_append) simp
  with User show "member_wf m \<Longrightarrow> ?thesis" by (simp add: member_parse_def)
next
  case (ServiceAccount v)
  have "split_once CHR '':'' (''serviceAccount'' @ CHR '':'' # v) = Some (''serviceAccount'', v)"
    by (rule split_once_append) simp
  with ServiceAccount show "member_wf m \<Longrightarrow> ?thesis" by (simp add: member_parse_def)
next
  case (Group v)
  have "split_once CHR '':'' (''group'' @ CHR '':'' # v) = Some (''group'', v)" by (rule split_once_append) simp
  with Group show "member_wf m \<Longrightarrow> ?thesis" by (simp add: member_parse_def)
next
  case (Domain v)
  have "split_once CHR '':'' (''domain'' @ CHR '':'' # v) = Some (''domain'', v)" by (rule split_once_append) simp
  with Domain show "member_wf m \<Longrightarrow> ?thesis" by (simp add: member_parse_def)
qed (simp_all add: member_parse_def)

lemma member_parse_SomeD: "member_parse s = Inr m \<Longrightarrow> member_wf m \<and> member_display m = s"
  by (auto simp: member_parse_def split_once_Some_iff split: if_splits option.splits)

interpretation member_text: lossless_codec member_display member_parse member_wf
  by unfold_locales (auto intro: member_parse_display dest: member_parse_SomeD)

text \<open>A grant string that is the rendering of a member admits exactly that member.\<close>

lemma grant_admits_typed:
  assumes "member_wf g" and "member_wf c" and "g \<noteq> AllUsers" and "g \<noteq> AllAuthenticatedUsers"
  shows "grant_admits (member_display g) (Some c) \<longleftrightarrow> c = g"
    and "\<not> grant_admits (member_display g) None"
proof -
  have no: "member_display g \<noteq> ''allUsers''" "member_display g \<noteq> ''allAuthenticatedUsers''"
    using member_text.render_inject [OF assms(1), of AllUsers]
      member_text.render_inject [OF assms(1), of AllAuthenticatedUsers] assms by auto
  then show "grant_admits (member_display g) (Some c) \<longleftrightarrow> c = g"
    using member_text.render_inject [OF assms(2,1)]
    by (simp add: grant_admits_def matches_grant_def)
  show "\<not> grant_admits (member_display g) None" using no by (simp add: grant_admits_def)
qed

subsection \<open>Permissions\<close>

datatype permission = Permission string

fun well_formed_loop :: "string \<Rightarrow> nat \<Rightarrow> nat \<Rightarrow> bool" where
  "well_formed_loop [] segments seg_len = (if seg_len = 0 then False else segments + 1 \<ge> 3)"
| "well_formed_loop (b # bs) segments seg_len =
     (if b = CHR ''.'' then
        (if seg_len = 0 then False else well_formed_loop bs (segments + 1) 0)
      else if seg_len = 0 then
        (if \<not> is_alpha b then False else well_formed_loop bs segments (seg_len + 1))
      else if \<not> is_alnum b then False
      else well_formed_loop bs segments (seg_len + 1))"

definition is_well_formed :: "string \<Rightarrow> bool" where
  "is_well_formed s = well_formed_loop s 0 0"

text \<open>\<open>None\<close> is the panic on a malformed literal.\<close>

definition from_static :: "string \<Rightarrow> permission option" where
  "from_static p = (if \<not> is_well_formed p then None else Some (Permission p))"

definition permission_parse :: "string \<Rightarrow> iam_error + permission" where
  "permission_parse s = (if is_well_formed s then Inr (Permission s) else Inl (PermissionMalformed s))"

fun permission_str :: "permission \<Rightarrow> string" where
  "permission_str (Permission s) = s"

definition permission_service :: "permission \<Rightarrow> string" where
  "permission_service p = hd (split_on CHR ''.'' (permission_str p))"

definition permission_verb :: "permission \<Rightarrow> string" where
  "permission_verb p = last (split_on CHR ''.'' (permission_str p))"

text \<open>The abstract form: at least three segments, each a letter then letters and digits.\<close>

definition word_ok :: "string \<Rightarrow> bool" where
  "word_ok w \<longleftrightarrow> w \<noteq> [] \<and> is_alpha (hd w) \<and> list_all is_alnum w"

lemma dot_not_alnum [simp]: "\<not> is_alnum CHR ''.''" "\<not> is_alpha CHR ''.''"
  by (simp_all add: char_class_defs)

lemma alpha_alnum: "is_alpha c \<Longrightarrow> is_alnum c"
  by (simp add: is_alnum_def)

lemma well_formed_loop_words:
  assumes "cur = [] \<or> word_ok cur"
  shows "well_formed_loop s segments (length cur) =
    (case split_on CHR ''.'' s of
       w # ws \<Rightarrow> word_ok (cur @ w) \<and> list_all word_ok ws \<and> segments + Suc (length ws) \<ge> 3
     | [] \<Rightarrow> False)"
  using assms
proof (induction s arbitrary: segments cur)
  case Nil
  then show ?case by (auto simp: word_ok_def)
next
  case (Cons b s)
  obtain w ws where sp: "split_on CHR ''.'' s = w # ws" by (cases "split_on CHR ''.'' s") auto
  show ?case
  proof (cases "b = CHR ''.''")
    case True
    have "well_formed_loop s (segments + 1) 0 =
        (word_ok w \<and> list_all word_ok ws \<and> segments + 1 + Suc (length ws) \<ge> 3)"
      using Cons.IH [of "[]" "segments + 1"] by (simp add: sp)
    with True Cons.prems show ?thesis by (auto simp: sp word_ok_def)
  next
    case False
    show ?thesis
    proof (cases "is_alnum b \<and> (cur = [] \<longrightarrow> is_alpha b)")
      case True
      then have "word_ok (cur @ [b])" using Cons.prems by (auto simp: word_ok_def hd_append)
      then have "well_formed_loop s segments (Suc (length cur)) =
          (word_ok (cur @ b # w) \<and> list_all word_ok ws \<and> segments + Suc (length ws) \<ge> 3)"
        using Cons.IH [of "cur @ [b]" segments] by (simp add: sp)
      with True False show ?thesis by (auto simp: sp)
    next
      case bad: False
      then have "\<not> word_ok (cur @ b # w)" by (auto simp: word_ok_def hd_append)
      with bad False alpha_alnum show ?thesis by (auto simp: sp)
    qed
  qed
qed

lemma is_well_formed_iff:
  "is_well_formed s \<longleftrightarrow> length (split_on CHR ''.'' s) \<ge> 3 \<and> list_all word_ok (split_on CHR ''.'' s)"
proof -
  obtain w ws where "split_on CHR ''.'' s = w # ws" by (cases "split_on CHR ''.'' s") auto
  then show ?thesis using well_formed_loop_words [of "[]" s 0] by (auto simp: is_well_formed_def)
qed

fun permission_wf :: "permission \<Rightarrow> bool" where
  "permission_wf (Permission s) = is_well_formed s"

interpretation permission_text: lossless_codec permission_str permission_parse permission_wf
proof
  fix x :: permission and s
  show "permission_wf x \<Longrightarrow> permission_parse (permission_str x) = Inr x"
    by (cases x) (simp add: permission_parse_def)
  show "permission_parse s = Inr x \<Longrightarrow> permission_wf x"
    by (auto simp: permission_parse_def split: if_splits)
  show "permission_parse s = Inr x \<Longrightarrow> permission_str x = s"
    by (auto simp: permission_parse_def split: if_splits)
qed

subsection \<open>Roles\<close>

datatype role =
  Predefined string
| Organization string string
| Project string string

definition role_parse :: "string \<Rightarrow> iam_error + role" where
  "role_parse s =
     (case split_on CHR ''/'' s of
        [a, role] \<Rightarrow>
          if a = ''roles'' then (if role = [] then Inl (RoleMalformed s) else Inr (Predefined role))
          else Inl (RoleMalformed s)
      | [a, x, b, role] \<Rightarrow>
          if a = ''organizations'' \<and> b = ''roles'' then
            (if x = [] \<or> role = [] then Inl (RoleMalformed s) else Inr (Organization x role))
          else if a = ''projects'' \<and> b = ''roles'' then
            (if x = [] \<or> role = [] then Inl (RoleMalformed s) else Inr (Project x role))
          else Inl (RoleMalformed s)
      | _ \<Rightarrow> Inl (RoleMalformed s))"

fun role_display :: "role \<Rightarrow> string" where
  "role_display (Predefined role) = ''roles/'' @ role"
| "role_display (Organization organization role) =
     ''organizations/'' @ organization @ ''/roles/'' @ role"
| "role_display (Project project role) = ''projects/'' @ project @ ''/roles/'' @ role"

definition id_ok :: "string \<Rightarrow> bool" where
  "id_ok s \<longleftrightarrow> s \<noteq> [] \<and> CHR ''/'' \<notin> set s"

fun role_wf :: "role \<Rightarrow> bool" where
  "role_wf (Predefined r) = id_ok r"
| "role_wf (Organization x r) = (id_ok x \<and> id_ok r)"
| "role_wf (Project p r) = (id_ok p \<and> id_ok r)"

lemma role_segments:
  "CHR ''/'' \<notin> set r \<Longrightarrow> split_on CHR ''/'' (role_display (Predefined r)) = [''roles'', r]"
  "CHR ''/'' \<notin> set x \<Longrightarrow> CHR ''/'' \<notin> set r \<Longrightarrow>
     split_on CHR ''/'' (role_display (Organization x r)) = [''organizations'', x, ''roles'', r]"
  "CHR ''/'' \<notin> set x \<Longrightarrow> CHR ''/'' \<notin> set r \<Longrightarrow>
     split_on CHR ''/'' (role_display (Project x r)) = [''projects'', x, ''roles'', r]"
  by (simp_all add: str_simps split_on_append [of _ x "CHR ''r'' # _"])

lemma role_parse_display: "role_wf r \<Longrightarrow> role_parse (role_display r) = Inr r"
  by (cases r) (simp_all add: role_parse_def id_ok_def role_segments del: role_display.simps)

lemma role_parse_InrD:
  assumes "role_parse s = Inr r"
  shows "role_wf r \<and> role_display r = s"
proof -
  define segs where "segs = split_on CHR ''/'' s"
  have s: "s = join ''/'' segs" and ok: "\<forall>x \<in> set segs. CHR ''/'' \<notin> set x"
    using split_on_no_delim by (auto simp: segs_def)
  have "(\<exists>x. segs = [''roles'', x] \<and> x \<noteq> [] \<and> r = Predefined x)
      \<or> (\<exists>x y. segs = [''organizations'', x, ''roles'', y] \<and> x \<noteq> [] \<and> y \<noteq> [] \<and> r = Organization x y)
      \<or> (\<exists>x y. segs = [''projects'', x, ''roles'', y] \<and> x \<noteq> [] \<and> y \<noteq> [] \<and> r = Project x y)"
    using assms unfolding role_parse_def segs_def [symmetric]
    by (simp split: list.splits if_splits)
  then show ?thesis using ok by (auto simp: s id_ok_def)
qed

interpretation role_text: lossless_codec role_display role_parse role_wf
  by unfold_locales (auto intro: role_parse_display dest: role_parse_InrD)

record role_set =
  rs_roles :: "(string \<times> permission list list) list"

definition role_set_new :: "(string \<times> permission list list) list \<Rightarrow> role_set" where
  "role_set_new roles = \<lparr>rs_roles = roles\<rparr>"

definition role_permissions :: "role_set \<Rightarrow> string \<Rightarrow> permission list" where
  "role_permissions rs role =
     (case find (\<lambda>entry. fst entry = role) (rs_roles rs) of
        None \<Rightarrow> []
      | Some entry \<Rightarrow> concat (snd entry))"

subsection \<open>Authorization errors\<close>

definition permission_denied :: "permission \<Rightarrow> string \<Rightarrow> status" where
  "permission_denied permission resource =
     detailed_status Code_PermissionDenied
       (''Permission '' @ [CHR 0x27] @ permission_str permission @ [CHR 0x27]
        @ '' denied on resource '' @ [CHR 0x27] @ resource @ [CHR 0x27]
        @ '' (or it might not exist).'')
       ''IAM_PERMISSION_DENIED''
       [(''permission'', permission_str permission), (''resource'', resource)] []"

definition not_found_via_parent :: "permission \<Rightarrow> string \<Rightarrow> bool \<Rightarrow> status" where
  "not_found_via_parent permission resource parent_read_allowed =
     (if parent_read_allowed then
        detailed_status Code_NotFound
          (''Resource '' @ [CHR 0x27] @ resource @ [CHR 0x27] @ '' not found.'')
          ''IAM_RESOURCE_NOT_FOUND'' [(''resource'', resource)] []
      else permission_denied permission resource)"

text \<open>Without read access to the parent the answer does not depend on existence.\<close>

lemma not_found_hides: "not_found_via_parent p r False = permission_denied p r"
  by (simp add: not_found_via_parent_def)

end
