(* ===== verification/Digest.thy ===== *)
theory Digest
  imports Utf8
begin

text \<open>
  The content digest the crates use for etags and checksums: \<open>crc32fast::hash\<close> (a parameter, a
  function from bytes to a 32-bit word) rendered as \<open>{:08x}\<close>, and the optimistic-concurrency
  contract a digest check keeps (\<open>aip_iam::policy::check\<close>, \<open>aip_etag::check\<close>).
\<close>

text \<open>\<open>format!("{d:08x}")\<close>.\<close>

definition hex08 :: "32 word \<Rightarrow> string" where
  "hex08 d = (let h = show_hex (unat d) in replicate (8 - length h) CHR ''0'' @ h)"

definition hex_val :: "char \<Rightarrow> nat" where
  "hex_val c = (if byte c < (97::nat) then byte c - 48 else byte c - 87)"

definition hex_read :: "string \<Rightarrow> nat" where
  "hex_read s = foldl (\<lambda>n c. 16 * n + hex_val c) 0 s"

lemma hex_val_char: "d < 16 \<Longrightarrow> hex_val (hex_char d) = d"
  by (auto simp: hex_val_def hex_char_def)

lemma hex_read_append: "hex_read (s @ [c]) = 16 * hex_read s + hex_val c"
  by (simp add: hex_read_def)

lemma hex_read_show: "hex_read (show_hex n) = n"
proof (induction n rule: show_hex.induct)
  case (1 n)
  show ?case
  proof (cases "n < 16")
    case True
    then show ?thesis by (subst show_hex.simps) (simp add: hex_read_def hex_val_char)
  next
    case False
    with 1 have "hex_read (show_hex (n div 16)) = n div 16" by simp
    with False show ?thesis
      by (subst show_hex.simps) (simp add: hex_read_append hex_val_char)
  qed
qed

lemma hex_read_zeros: "hex_read (replicate k CHR ''0'' @ s) = hex_read s"
proof (induction k)
  case (Suc k)
  then show ?case by (simp add: hex_read_def hex_val_def)
qed simp

lemma hex_read_hex08: "hex_read (hex08 d) = unat d"
  by (simp add: hex08_def Let_def hex_read_zeros hex_read_show)

lemma hex08_inject: "hex08 d = hex08 e \<longleftrightarrow> d = e"
  by (metis hex_read_hex08 word_unat_eq_iff)

lemma show_hex_length: "n < 16 ^ Suc k \<Longrightarrow> length (show_hex n) \<le> Suc k"
proof (induction k arbitrary: n)
  case 0
  then show ?case by (subst show_hex.simps) simp
next
  case (Suc k)
  show ?case
  proof (cases "n < 16")
    case True
    then show ?thesis by (subst show_hex.simps) simp
  next
    case False
    have "n div 16 < 16 ^ Suc k" using Suc.prems by (simp add: less_mult_imp_div_less)
    from Suc.IH [OF this] False show ?thesis by (subst show_hex.simps) simp
  qed
qed

lemma hex08_length: "length (hex08 d) = 8"
proof -
  have "unat d < 16 ^ Suc 7" using unsigned_less [of d] by simp
  then have "length (show_hex (unat d)) \<le> 8" using show_hex_length [of "unat d" 7] by simp
  then show ?thesis by (simp add: hex08_def Let_def)
qed

lemma hex08_not_Nil [simp]: "hex08 d \<noteq> []" "[] \<noteq> hex08 d"
  using hex08_length [of d] by auto

text \<open>
  The contract of a read-modify-write token: \<open>token\<close> digests what is stored, \<open>check\<close> admits a
  write carrying \<open>supplied\<close>. An empty token opts out; otherwise only the current token passes.
\<close>

locale freshness =
  fixes token :: "'a \<Rightarrow> string"
    and check :: "string \<Rightarrow> 'a \<Rightarrow> bool"
  assumes opt_out: "check [] x"
    and current: "check (token x) x"
    and stale: "s \<noteq> [] \<Longrightarrow> check s x \<Longrightarrow> s = token x"
begin

text \<open>A writer that read \<open>x\<close> can overwrite \<open>y\<close> only if the two have the same token.\<close>

lemma lost_update_detected: "token x \<noteq> [] \<Longrightarrow> token x \<noteq> token y \<Longrightarrow> \<not> check (token x) y"
  using stale by blast

lemma check_iff: "check s x \<longleftrightarrow> s = [] \<or> s = token x"
  using opt_out current stale by blast

end

end
