(* ===== verification/Iam_Policy.thy ===== *)
theory Iam_Policy
  imports Iam_Principal Digest "HOL-Library.Product_Lexorder" "HOL-Library.Option_ord"
begin

text \<open>
  \<open>crates/aip-iam/src/policy.rs\<close>: the read-modify-write operations on a policy. The messages are
  the records of \<open>google.iam.v1\<close> and \<open>google.type\<close>; \<open>prost\<close>'s encoding and \<open>crc32fast\<close> are
  parameters. \<open>granted\<close> is the abstract state of a policy, the set of its grants: \<open>normalize\<close>
  computes the one canonical representative of it.
\<close>

record expr =
  ex_expression :: string
  ex_title :: string
  ex_description :: string
  ex_location :: string

record binding =
  b_role :: string
  b_members :: "string list"
  b_condition :: "expr option"

record audit_log_config =
  alc_log_type :: int
  alc_exempted_members :: "string list"

record audit_config =
  ac_service :: string
  ac_audit_log_configs :: "audit_log_config list"

record policy =
  p_version :: int
  p_bindings :: "binding list"
  p_audit_configs :: "audit_config list"
  p_etag :: string

definition policy_default :: policy where
  "policy_default = \<lparr>p_version = 0, p_bindings = [], p_audit_configs = [], p_etag = []\<rparr>"

subsection \<open>Adding and removing a member\<close>

text \<open>\<open>iter_mut().find(P)\<close> and an in-place change; \<open>None\<close> when nothing matches.\<close>

fun update_first :: "('a \<Rightarrow> bool) \<Rightarrow> ('a \<Rightarrow> 'a) \<Rightarrow> 'a list \<Rightarrow> 'a list option" where
  "update_first P f [] = None"
| "update_first P f (x # xs) =
     (if P x then Some (f x # xs) else map_option (\<lambda>ys. x # ys) (update_first P f xs))"

fun position :: "('a \<Rightarrow> bool) \<Rightarrow> 'a list \<Rightarrow> nat option" where
  "position P [] = None"
| "position P (x # xs) = (if P x then Some 0 else map_option Suc (position P xs))"

definition add_member :: "role \<Rightarrow> member \<Rightarrow> policy \<Rightarrow> policy" where
  "add_member role member policy =
     (let r = role_display role; m = member_display member in
      case update_first (\<lambda>b. b_role b = r \<and> b_condition b = None)
             (\<lambda>b. if m \<in> set (b_members b) then b else b\<lparr>b_members := b_members b @ [m]\<rparr>)
             (p_bindings policy) of
        Some bs \<Rightarrow> policy\<lparr>p_bindings := bs\<rparr>
      | None \<Rightarrow> policy\<lparr>p_bindings := p_bindings policy
                  @ [\<lparr>b_role = r, b_members = [m], b_condition = None\<rparr>]\<rparr>)"

definition remove_member :: "role \<Rightarrow> member \<Rightarrow> policy \<Rightarrow> policy" where
  "remove_member role member policy =
     (let r = role_display role; m = member_display member in
      case position (\<lambda>b. b_role b = r \<and> b_condition b = None) (p_bindings policy) of
        None \<Rightarrow> policy
      | Some index \<Rightarrow>
          (let b = p_bindings policy ! index;
               b = b\<lparr>b_members := filter (\<lambda>x. x \<noteq> m) (b_members b)\<rparr> in
           policy\<lparr>p_bindings :=
             (if b_members b = []
              then take index (p_bindings policy) @ drop (index + 1) (p_bindings policy)
              else (p_bindings policy)[index := b])\<rparr>))"

subsection \<open>Normalisation\<close>

definition binding_key :: "binding \<Rightarrow> string \<times> (string \<times> string \<times> string \<times> string) option" where
  "binding_key b =
     (b_role b,
      map_option (\<lambda>e. (ex_expression e, ex_title e, ex_description e, ex_location e)) (b_condition b))"

definition sort_dedup :: "string list \<Rightarrow> string list" where
  "sort_dedup ms = remdups_adj (sort ms)"

fun merge_bindings :: "binding list \<Rightarrow> binding list \<Rightarrow> binding list" where
  "merge_bindings [] merged = merged"
| "merge_bindings (b # bs) merged =
     (let b = b\<lparr>b_members := sort_dedup (b_members b)\<rparr> in
      if b_members b = [] then merge_bindings bs merged
      else
        (case update_first (\<lambda>x. b_role x = b_role b \<and> b_condition x = b_condition b)
               (\<lambda>x. x\<lparr>b_members := sort_dedup (b_members x @ b_members b)\<rparr>) merged of
           Some merged' \<Rightarrow> merge_bindings bs merged'
         | None \<Rightarrow> merge_bindings bs (merged @ [b])))"

definition normalize :: "policy \<Rightarrow> policy" where
  "normalize policy =
     policy\<lparr>p_bindings := sort_key binding_key (merge_bindings (p_bindings policy) [])\<rparr>"

subsection \<open>Versions, membership, etags\<close>

definition any_conditional :: "binding list \<Rightarrow> bool" where
  "any_conditional bs = list_ex (\<lambda>b. b_condition b \<noteq> None) bs"

definition canonical_version :: "binding list \<Rightarrow> int" where
  "canonical_version bs = (if any_conditional bs then 3 else 1)"

definition policy_validate :: "policy \<Rightarrow> iam_error + unit" where
  "policy_validate policy =
     (if any_conditional (p_bindings policy) \<and> p_version policy \<noteq> 3
      then Inl (PolicyConditionRequiresVersion3 (p_version policy)) else Inr ())"

definition policy_grants :: "policy \<Rightarrow> member option \<Rightarrow> bool" where
  "policy_grants policy caller =
     list_ex (\<lambda>granted. grant_admits granted caller) (concat (map b_members (p_bindings policy)))"

text \<open>The two third-party functions of the digest.\<close>

record digest_ops =
  dg_encode :: "policy \<Rightarrow> string"
  dg_crc32 :: "string \<Rightarrow> 32 word"

definition policy_etag :: "digest_ops \<Rightarrow> policy \<Rightarrow> string" where
  "policy_etag ops policy =
     hex08 (dg_crc32 ops (dg_encode ops (policy\<lparr>p_etag := []\<rparr>)))"

definition policy_check :: "digest_ops \<Rightarrow> string \<Rightarrow> policy option \<Rightarrow> iam_error + unit" where
  "policy_check ops supplied current =
     (if supplied = [] then Inr ()
      else
        (let current_etag = (case current of
               Some policy \<Rightarrow> policy_etag ops policy
             | None \<Rightarrow> policy_etag ops policy_default)
         in if supplied = current_etag then Inr () else Inl PolicyEtagMismatch))"

subsection \<open>The grants of a policy\<close>

definition granted :: "binding list \<Rightarrow> (string \<times> expr option \<times> string) set" where
  "granted bs = {(b_role b, b_condition b, m) |b m. b \<in> set bs \<and> m \<in> set (b_members b)}"

lemma granted_simps [simp]:
  "granted [] = {}"
  "granted (b # bs) = {(b_role b, b_condition b, m) |m. m \<in> set (b_members b)} \<union> granted bs"
  "granted (bs @ cs) = granted bs \<union> granted cs"
  by (auto simp: granted_def)

lemma granted_set: "set bs = set cs \<Longrightarrow> granted bs = granted cs"
  by (simp add: granted_def)

lemma update_first_None: "update_first P f xs = None \<longleftrightarrow> (\<forall>x \<in> set xs. \<not> P x)"
  by (induction xs) auto

lemma update_first_Some:
  "update_first P f xs = Some ys \<Longrightarrow> \<exists>as x bs. xs = as @ x # bs \<and> P x \<and> (\<forall>a \<in> set as. \<not> P a) \<and> ys = as @ f x # bs"
proof (induction xs arbitrary: ys)
  case Nil
  then show ?case by simp
next
  case (Cons x xs)
  show ?case
  proof (cases "P x")
    case True
    with Cons.prems show ?thesis by (intro exI [of _ "[]"]) auto
  next
    case False
    with Cons.prems obtain zs where z: "update_first P f xs = Some zs" "ys = x # zs" by auto
    from Cons.IH [OF z(1)] obtain as y bs where
      "xs = as @ y # bs" "P y" "\<forall>a \<in> set as. \<not> P a" "zs = as @ f y # bs" by blast
    with False z show ?thesis by (intro exI [of _ "x # as"]) auto
  qed
qed

lemma position_None: "position P xs = None \<longleftrightarrow> (\<forall>x \<in> set xs. \<not> P x)"
  by (induction xs) auto

lemma position_Some:
  "position P xs = Some i \<Longrightarrow> \<exists>as x bs. xs = as @ x # bs \<and> P x \<and> length as = i \<and> (\<forall>a \<in> set as. \<not> P a)"
proof (induction xs arbitrary: i)
  case Nil
  then show ?case by simp
next
  case (Cons x xs)
  show ?case
  proof (cases "P x")
    case True
    with Cons.prems show ?thesis by (intro exI [of _ "[]"]) auto
  next
    case False
    with Cons.prems obtain j where z: "position P xs = Some j" "i = Suc j" by auto
    from Cons.IH [OF z(1)] obtain as y bs where
      "xs = as @ y # bs" "P y" "length as = j" "\<forall>a \<in> set as. \<not> P a" by blast
    with False z show ?thesis by (intro exI [of _ "x # as"]) auto
  qed
qed

text \<open>\<open>add_member\<close> adds exactly one unconditional grant, and does nothing the second time.\<close>

lemma add_member_granted:
  "granted (p_bindings (add_member r m p)) =
     insert (role_display r, None, member_display m) (granted (p_bindings p))"
proof (cases "update_first (\<lambda>b. b_role b = role_display r \<and> b_condition b = None)
             (\<lambda>b. if member_display m \<in> set (b_members b) then b
                  else b\<lparr>b_members := b_members b @ [member_display m]\<rparr>) (p_bindings p)")
  case None
  then show ?thesis by (auto simp: add_member_def Let_def)
next
  case (Some bs)
  from update_first_Some [OF this] obtain as x cs where
    "p_bindings p = as @ x # cs" "b_role x = role_display r" "b_condition x = None"
    "bs = as @ (if member_display m \<in> set (b_members x) then x
                else x\<lparr>b_members := b_members x @ [member_display m]\<rparr>) # cs" by blast
  with Some show ?thesis by (auto simp: add_member_def Let_def)
qed

lemma update_first_skip: "\<forall>a \<in> set as. \<not> P a \<Longrightarrow>
    update_first P f (as @ x # bs) = (if P x then Some (as @ f x # bs)
       else map_option (\<lambda>ys. as @ x # ys) (update_first P f bs))"
  by (induction as) (auto simp: option.map_comp comp_def)

lemma add_member_idem: "add_member r m (add_member r m p) = add_member r m p"
proof (cases "update_first (\<lambda>b. b_role b = role_display r \<and> b_condition b = None)
             (\<lambda>b. if member_display m \<in> set (b_members b) then b
                  else b\<lparr>b_members := b_members b @ [member_display m]\<rparr>) (p_bindings p)")
  case None
  then have "\<forall>b \<in> set (p_bindings p). \<not> (b_role b = role_display r \<and> b_condition b = None)"
    by (simp add: update_first_None)
  with None show ?thesis by (simp add: add_member_def Let_def update_first_skip)
next
  case (Some bs)
  from update_first_Some [OF this] obtain as x cs where
    "p_bindings p = as @ x # cs" "b_role x = role_display r \<and> b_condition x = None"
    "\<forall>a \<in> set as. \<not> (b_role a = role_display r \<and> b_condition a = None)"
    "bs = as @ (if member_display m \<in> set (b_members x) then x
                else x\<lparr>b_members := b_members x @ [member_display m]\<rparr>) # cs" by blast
  with Some show ?thesis by (simp add: add_member_def Let_def update_first_skip)
qed


subsection \<open>The canonical form\<close>

definition canonical :: "binding list \<Rightarrow> bool" where
  "canonical bs \<longleftrightarrow>
     sorted_wrt (<) (map binding_key bs)
     \<and> (\<forall>b \<in> set bs. b_members b \<noteq> [] \<and> sorted_wrt (<) (b_members b))"

lemma binding_key_inject:
  "binding_key a = binding_key b \<longleftrightarrow> b_role a = b_role b \<and> b_condition a = b_condition b"
  by (cases "b_condition a"; cases "b_condition b") (auto simp: binding_key_def)

lemma sort_dedup_set [simp]: "set (sort_dedup ms) = set ms"
  by (simp add: sort_dedup_def)

lemma sorted_remdups_adj_strict: "sorted xs \<Longrightarrow> sorted_wrt (<) (remdups_adj xs)"
  for xs :: "'a::linorder list"
proof (induction xs rule: remdups_adj.induct)
  case (3 x y xs)
  show ?case
  proof (cases "x = y")
    case True
    with 3 show ?thesis by simp
  next
    case False
    with 3 have "sorted_wrt (<) (remdups_adj (y # xs))" and "x < y" and "sorted (y # xs)" by auto
    then have "\<forall>z \<in> set (remdups_adj (y # xs)). x < z" by auto
    with False \<open>sorted_wrt (<) (remdups_adj (y # xs))\<close> show ?thesis by simp
  qed
qed simp_all

lemma sort_dedup_sorted: "sorted_wrt (<) (sort_dedup ms)"
  by (simp add: sort_dedup_def sorted_remdups_adj_strict)

lemma sort_dedup_Nil [simp]: "sort_dedup ms = [] \<longleftrightarrow> ms = []"
  by (metis set_empty sort_dedup_set)

text \<open>The bindings accumulated by the merge loop, in the order they were met.\<close>

definition merged_ok :: "binding list \<Rightarrow> bool" where
  "merged_ok bs \<longleftrightarrow>
     distinct (map binding_key bs)
     \<and> (\<forall>b \<in> set bs. b_members b \<noteq> [] \<and> sorted_wrt (<) (b_members b))"

lemma merge_step:
  fixes b :: binding
  assumes b': "b' = b\<lparr>b_members := sort_dedup (b_members b)\<rparr>"
    and ok: "merged_ok merged" and ne: "b_members b \<noteq> []"
    and r: "r = (case update_first (\<lambda>x. b_role x = b_role b' \<and> b_condition x = b_condition b')
               (\<lambda>x. x\<lparr>b_members := sort_dedup (b_members x @ b_members b')\<rparr>) merged of
             Some merged' \<Rightarrow> merged' | None \<Rightarrow> merged @ [b'])"
  shows "merged_ok r \<and> granted r = granted merged \<union> granted [b]"
proof (cases "update_first (\<lambda>x. b_role x = b_role b' \<and> b_condition x = b_condition b')
               (\<lambda>x. x\<lparr>b_members := sort_dedup (b_members x @ b_members b')\<rparr>) merged")
  case None
  then have "\<forall>x \<in> set merged. binding_key x \<noteq> binding_key b'"
    by (simp add: update_first_None binding_key_inject)
  with None ok ne sort_dedup_sorted show ?thesis
    by (auto simp: r merged_ok_def b')
next
  case (Some m)
  from update_first_Some [OF Some] obtain as x cs where split: "merged = as @ x # cs"
    "b_role x = b_role b'" "b_condition x = b_condition b'"
    "m = as @ x\<lparr>b_members := sort_dedup (b_members x @ b_members b')\<rparr> # cs" by blast
  have key: "binding_key (x\<lparr>b_members := ms\<rparr>) = binding_key x" for ms
    by (simp add: binding_key_def)
  from split Some ok ne sort_dedup_sorted show ?thesis
    by (auto simp: r merged_ok_def b' key)
qed

lemma merge_bindings_ok:
  "merged_ok merged \<Longrightarrow>
     merged_ok (merge_bindings bs merged)
     \<and> granted (merge_bindings bs merged) = granted merged \<union> granted bs"
proof (induction bs arbitrary: merged)
  case Nil
  then show ?case by simp
next
  case (Cons b bs)
  show ?case
  proof (cases "b_members b = []")
    case True
    with Cons show ?thesis by (simp add: Let_def)
  next
    case False
    define b' where "b' = b\<lparr>b_members := sort_dedup (b_members b)\<rparr>"
    define r where "r = (case update_first (\<lambda>x. b_role x = b_role b' \<and> b_condition x = b_condition b')
               (\<lambda>x. x\<lparr>b_members := sort_dedup (b_members x @ b_members b')\<rparr>) merged of
             Some merged' \<Rightarrow> merged' | None \<Rightarrow> merged @ [b'])"
    have step: "merged_ok r \<and> granted r = granted merged \<union> granted [b]"
      by (rule merge_step [OF b'_def Cons.prems False r_def])
    have "merge_bindings (b # bs) merged = merge_bindings bs r"
      using False by (simp add: Let_def r_def b'_def split: option.splits)
    with Cons.IH [of r] step show ?thesis by auto
  qed
qed

lemma canonical_sort: "merged_ok bs \<Longrightarrow> canonical (sort_key binding_key bs)"
  by (auto simp: merged_ok_def canonical_def strict_sorted_iff distinct_map)

lemma normalize_canonical: "canonical (p_bindings (normalize p))"
  using merge_bindings_ok [of "[]" "p_bindings p"]
  by (simp add: normalize_def merged_ok_def canonical_sort [unfolded merged_ok_def])

lemma normalize_granted: "granted (p_bindings (normalize p)) = granted (p_bindings p)"
  using merge_bindings_ok [of "[]" "p_bindings p"]
  by (simp add: normalize_def merged_ok_def granted_set [of "sort_key _ _"])

text \<open>Only one canonical list has a given set of grants.\<close>

lemma canonical_member_set:
  assumes "canonical bs" and "b \<in> set bs"
  shows "set (b_members b) = {m. (b_role b, b_condition b, m) \<in> granted bs}"
proof -
  have same: "c = b" if "c \<in> set bs" "b_role c = b_role b" "b_condition c = b_condition b" for c
  proof -
    have "distinct (map binding_key bs)" using assms(1) by (simp add: canonical_def strict_sorted_iff)
    then have "inj_on binding_key (set bs)" by (simp add: distinct_map)
    moreover have "binding_key c = binding_key b" using that by (simp add: binding_key_inject)
    ultimately show ?thesis using that(1) assms(2) by (rule inj_onD)
  qed
  show ?thesis
  proof (intro set_eqI iffI)
    fix m
    assume "m \<in> set (b_members b)"
    with assms(2) show "m \<in> {m. (b_role b, b_condition b, m) \<in> granted bs}"
      unfolding granted_def by blast
  next
    fix m
    assume "m \<in> {m. (b_role b, b_condition b, m) \<in> granted bs}"
    then obtain c where "c \<in> set bs" "b_role c = b_role b" "b_condition c = b_condition b"
      "m \<in> set (b_members c)" by (auto simp: granted_def)
    with same [of c] show "m \<in> set (b_members b)" by auto
  qed
qed

definition grant_key :: "string \<times> expr option \<times> string \<Rightarrow> string \<times> (string \<times> string \<times> string \<times> string) option" where
  "grant_key g = binding_key \<lparr>b_role = fst g, b_members = [], b_condition = fst (snd g)\<rparr>"

lemma grant_key_binding: "grant_key (b_role b, b_condition b, m) = binding_key b"
  by (simp add: grant_key_def binding_key_def)

lemma canonical_keys:
  assumes "canonical bs"
  shows "binding_key ` set bs = grant_key ` granted bs"
proof
  show "binding_key ` set bs \<subseteq> grant_key ` granted bs"
  proof
    fix k
    assume "k \<in> binding_key ` set bs"
    then obtain b where b: "b \<in> set bs" "k = binding_key b" by blast
    then have "b_members b \<noteq> []" using assms by (simp add: canonical_def)
    then obtain m where "m \<in> set (b_members b)" by (metis ex_in_conv set_empty)
    with b have "(b_role b, b_condition b, m) \<in> granted bs" unfolding granted_def by blast
    then have "grant_key (b_role b, b_condition b, m) \<in> grant_key ` granted bs" by (rule imageI)
    with b show "k \<in> grant_key ` granted bs" by (simp add: grant_key_binding)
  qed
  show "grant_key ` granted bs \<subseteq> binding_key ` set bs"
    by (auto simp: granted_def grant_key_binding)
qed

lemma canonical_unique:
  assumes "canonical bs" and "canonical cs" and "granted bs = granted cs"
  shows "bs = cs"
proof -
  have keys: "map binding_key bs = map binding_key cs"
    using assms canonical_keys [OF assms(1)] canonical_keys [OF assms(2)]
    by (intro strict_sorted_equal) (simp_all add: canonical_def)
  then have len: "length bs = length cs" by (rule map_eq_imp_length_eq)
  show ?thesis
  proof (rule nth_equalityI [OF len])
    fix i
    assume i: "i < length bs"
    have k: "binding_key (bs ! i) = binding_key (cs ! i)"
      using keys i len by (metis nth_map)
    then have rc: "b_role (bs ! i) = b_role (cs ! i)" "b_condition (bs ! i) = b_condition (cs ! i)"
      by (simp_all add: binding_key_inject)
    have "set (b_members (bs ! i)) = set (b_members (cs ! i))"
      using canonical_member_set [OF assms(1), of "bs ! i"] canonical_member_set [OF assms(2), of "cs ! i"]
        i len rc assms(3) by simp
    then have "b_members (bs ! i) = b_members (cs ! i)"
      using assms(1,2) i len by (intro strict_sorted_equal) (auto simp: canonical_def)
    with rc show "bs ! i = cs ! i" by simp
  qed
qed

lemma normalize_idem: "normalize (normalize p) = normalize p"
  using canonical_unique [OF normalize_canonical normalize_canonical] normalize_granted
  by (metis (no_types, lifting) normalize_def policy.surjective policy.update_convs(2) policy.select_convs)


subsection \<open>Removal\<close>

lemma remove_member_cases:
  "remove_member r m p = p
   \<or> (\<exists>as b cs. p_bindings p = as @ b # cs \<and> b_role b = role_display r \<and> b_condition b = None
        \<and> p_bindings (remove_member r m p) =
            as @ (if filter (\<lambda>x. x \<noteq> member_display m) (b_members b) = [] then []
                  else [b\<lparr>b_members := filter (\<lambda>x. x \<noteq> member_display m) (b_members b)\<rparr>]) @ cs)"
proof (cases "position (\<lambda>b. b_role b = role_display r \<and> b_condition b = None) (p_bindings p)")
  case None
  then show ?thesis by (simp add: remove_member_def Let_def)
next
  case (Some i)
  from position_Some [OF this] obtain as b cs where
    "p_bindings p = as @ b # cs" "b_role b = role_display r \<and> b_condition b = None" "length as = i" by blast
  with Some show ?thesis
    by (intro disjI2 exI [of _ as] exI [of _ b] exI [of _ cs]) (auto simp: remove_member_def Let_def)
qed

lemma remove_member_frame:
  "granted (p_bindings (remove_member r m p)) \<subseteq> granted (p_bindings p)
   \<and> granted (p_bindings p) \<subseteq>
       insert (role_display r, None, member_display m) (granted (p_bindings (remove_member r m p)))"
proof (cases "remove_member r m p = p")
  case True
  then show ?thesis by auto
next
  case False
  with remove_member_cases [of r m p] obtain as b cs where
    "p_bindings p = as @ b # cs" "b_role b = role_display r" "b_condition b = None"
    "p_bindings (remove_member r m p) =
            as @ (if filter (\<lambda>x. x \<noteq> member_display m) (b_members b) = [] then []
                  else [b\<lparr>b_members := filter (\<lambda>x. x \<noteq> member_display m) (b_members b)\<rparr>]) @ cs"
    by blast
  then show ?thesis by (auto simp: filter_empty_conv)
qed

lemma canonical_key_unique:
  assumes "canonical (as @ b # cs)" and "c \<in> set as \<union> set cs"
  shows "binding_key c \<noteq> binding_key b"
  using assms by (auto simp: canonical_def strict_sorted_iff sorted_wrt_append)

lemma remove_member_canonical:
  assumes "canonical (p_bindings p)"
  shows "canonical (p_bindings (remove_member r m p))"
    and "granted (p_bindings (remove_member r m p)) =
           granted (p_bindings p) - {(role_display r, None, member_display m)}"
proof -
  let ?g = "(role_display r, None, member_display m)"
  consider "remove_member r m p = p" "position (\<lambda>b. b_role b = role_display r \<and> b_condition b = None) (p_bindings p) = None"
    | as b cs where "p_bindings p = as @ b # cs" "b_role b = role_display r" "b_condition b = None"
      "p_bindings (remove_member r m p) =
            as @ (if filter (\<lambda>x. x \<noteq> member_display m) (b_members b) = [] then []
                  else [b\<lparr>b_members := filter (\<lambda>x. x \<noteq> member_display m) (b_members b)\<rparr>]) @ cs"
  proof (cases "position (\<lambda>b. b_role b = role_display r \<and> b_condition b = None) (p_bindings p)")
    case None
    then show ?thesis by (intro that(1)) (simp_all add: remove_member_def Let_def)
  next
    case (Some i)
    from position_Some [OF this] obtain as b cs where
      "p_bindings p = as @ b # cs" "b_role b = role_display r \<and> b_condition b = None" "length as = i" by blast
    with Some show ?thesis
      by (intro that(2) [of as b cs]) (auto simp: remove_member_def Let_def)
  qed
  then have "canonical (p_bindings (remove_member r m p)) \<and>
      granted (p_bindings (remove_member r m p)) = granted (p_bindings p) - {?g}"
  proof cases
    case 1
    then have "?g \<notin> granted (p_bindings p)" by (auto simp: position_None granted_def)
    with 1 assms show ?thesis by simp
  next
    case (2 as b cs)
    let ?ms = "filter (\<lambda>x. x \<noteq> member_display m) (b_members b)"
    have can: "canonical (as @ b # cs)" using assms 2(1) by simp
    have key: "binding_key (b\<lparr>b_members := ms\<rparr>) = binding_key b" for ms by (simp add: binding_key_def)
    have "canonical (as @ (if ?ms = [] then [] else [b\<lparr>b_members := ?ms\<rparr>]) @ cs)"
      using can by (auto simp: canonical_def sorted_wrt_append key intro: sorted_wrt_filter)
    moreover have "?g \<notin> granted as \<union> granted cs"
    proof
      assume "?g \<in> granted as \<union> granted cs"
      then obtain c where "c \<in> set as \<union> set cs" "b_role c = b_role b" "b_condition c = b_condition b"
        using 2(2,3) unfolding granted_def by fastforce
      with canonical_key_unique [OF can] show False by (simp add: binding_key_inject)
    qed
    ultimately show ?thesis using 2 by (auto simp: filter_empty_conv)
  qed
  then show "canonical (p_bindings (remove_member r m p))"
    and "granted (p_bindings (remove_member r m p)) = granted (p_bindings p) - {?g}" by auto
qed

lemma remove_member_other [simp]:
  "p_version (remove_member r m p) = p_version p" "p_etag (remove_member r m p) = p_etag p"
  "p_audit_configs (remove_member r m p) = p_audit_configs p"
  by (auto simp: remove_member_def Let_def split: option.splits)

subsection \<open>The digest contract\<close>

definition stored :: "policy option \<Rightarrow> policy" where
  "stored current = (case current of Some policy \<Rightarrow> policy | None \<Rightarrow> policy_default)"

lemma policy_check_eq:
  "policy_check ops s current =
     (if s = [] \<or> s = policy_etag ops (stored current) then Inr () else Inl PolicyEtagMismatch)"
  by (simp add: policy_check_def stored_def split: option.splits)

interpretation policy_fresh: freshness "\<lambda>cur. policy_etag ops (stored cur)"
    "\<lambda>s cur. policy_check ops s cur = Inr ()"
  by unfold_locales (auto simp: policy_check_eq policy_etag_def split: if_splits)

lemma policy_etag_ignores_etag: "policy_etag ops (p\<lparr>p_etag := e\<rparr>) = policy_etag ops p"
  by (simp add: policy_etag_def)


subsection \<open>Properties\<close>

text \<open>C32: \<open>normalize\<close> computes the canonical form of a policy: keys strictly increasing, members
  of each binding strictly increasing and non-empty. It keeps the grants, leaves version, etag
  and audit configuration alone, and two policies normalise to the same bindings exactly when
  they grant the same members the same roles under the same conditions.\<close>

theorem normalize_decides_grants:
  "canonical (p_bindings (normalize p))
   \<and> granted (p_bindings (normalize p)) = granted (p_bindings p)
   \<and> (p_bindings (normalize p) = p_bindings (normalize q) \<longleftrightarrow> granted (p_bindings p) = granted (p_bindings q))
   \<and> normalize p = p\<lparr>p_bindings := p_bindings (normalize p)\<rparr>"
  using normalize_canonical [of p] normalize_granted [of p] normalize_granted [of q]
    canonical_unique [OF normalize_canonical [of p] normalize_canonical [of q]]
  by (auto simp: normalize_def)

text \<open>C33: \<open>add_member\<close> adds exactly the one unconditional grant and is idempotent; on a
  normalised policy \<open>remove_member\<close> removes exactly that grant, keeps the policy normalised and
  is idempotent.\<close>

theorem member_edits_exact:
  "granted (p_bindings (add_member r m p)) =
     insert (role_display r, None, member_display m) (granted (p_bindings p))
   \<and> add_member r m (add_member r m p) = add_member r m p
   \<and> granted (p_bindings (remove_member r m (normalize p))) =
       granted (p_bindings p) - {(role_display r, None, member_display m)}
   \<and> canonical (p_bindings (remove_member r m (normalize p)))
   \<and> remove_member r m (remove_member r m (normalize p)) = remove_member r m (normalize p)"
proof -
  let ?q = "remove_member r m (normalize p)"
  have can: "canonical (p_bindings ?q)"
    and gr: "granted (p_bindings ?q) = granted (p_bindings p) - {(role_display r, None, member_display m)}"
    using remove_member_canonical [OF normalize_canonical] by (simp_all add: normalize_granted)
  have "p_bindings (remove_member r m ?q) = p_bindings ?q"
    using remove_member_canonical [OF can] can gr by (intro canonical_unique) auto
  then have "remove_member r m ?q = ?q" by (intro policy.equality) simp_all
  with can gr show ?thesis by (simp add: add_member_granted add_member_idem)
qed

text \<open>On a policy that was not normalised \<open>remove_member\<close> is not idempotent: with the role
  in two unconditional bindings, the first call leaves the member granted and a second call
  removes more. Whatever the policy, it removes no other grant.\<close>

theorem remove_member_first_binding_only:
  "granted (p_bindings (remove_member r m p)) \<subseteq> granted (p_bindings p)
   \<and> granted (p_bindings p) \<subseteq>
       insert (role_display r, None, member_display m) (granted (p_bindings (remove_member r m p)))
   \<and> (let b = \<lparr>b_role = role_display r, b_members = [member_display m], b_condition = None\<rparr>;
          q = p\<lparr>p_bindings := [b, b]\<rparr> in
      p_bindings (remove_member r m q) = [b]
      \<and> p_bindings (remove_member r m (remove_member r m q)) = [])"
  using remove_member_frame [of r m p] by (simp add: remove_member_def Let_def)

text \<open>The etag of a policy ignores its etag field and is eight characters; a write passes
  the check exactly when it carries no etag or the etag of the stored policy (of the empty policy
  when nothing is stored), so a writer holding another token is told to retry.\<close>

theorem policy_etag_check:
  "policy_etag ops (p\<lparr>p_etag := e\<rparr>) = policy_etag ops p
   \<and> length (policy_etag ops p) = 8
   \<and> policy_check ops s current =
       (if s = [] \<or> s = policy_etag ops (stored current) then Inr () else Inl PolicyEtagMismatch)
   \<and> policy_check ops (policy_etag ops p) (Some p) = Inr ()"
  using policy_fresh.current [of ops "Some p"]
  by (simp add: policy_check_eq policy_etag_ignores_etag stored_def) (simp add: policy_etag_def hex08_length)

text \<open>Members, roles and permissions have one text form each: parsing accepts a text
  exactly when it is the rendering of a well-formed value, and then returns that value.\<close>

theorem principal_text_forms:
  "(member_parse s = Inr m \<longleftrightarrow> member_wf m \<and> s = member_display m)
   \<and> (role_parse s = Inr r \<longleftrightarrow> role_wf r \<and> s = role_display r)
   \<and> (permission_parse s = Inr q \<longleftrightarrow> permission_wf q \<and> s = permission_str q)
   \<and> (permission_wf (Permission s) \<longleftrightarrow>
        length (split_on CHR ''.'' s) \<ge> 3 \<and> list_all word_ok (split_on CHR ''.'' s))"
  using member_text.parse_iff role_text.parse_iff permission_text.parse_iff is_well_formed_iff
  by simp

text \<open>A policy grants something to a caller exactly when some binding lists \<open>allUsers\<close>, or
  the caller is present and some binding lists \<open>allAuthenticatedUsers\<close> or the caller itself;
  conditions and roles play no part, and normalising changes nothing.\<close>

theorem policy_grants_membership:
  "(policy_grants p caller \<longleftrightarrow>
      (\<exists>r c g. (r, c, g) \<in> granted (p_bindings p)
         \<and> (g = ''allUsers''
            \<or> (\<exists>m. caller = Some m \<and> (g = ''allAuthenticatedUsers'' \<or> g = member_display m)))))
   \<and> policy_grants (normalize p) caller = policy_grants p caller"
proof -
  have admits: "grant_admits g caller \<longleftrightarrow>
      g = ''allUsers'' \<or> (\<exists>m. caller = Some m \<and> (g = ''allAuthenticatedUsers'' \<or> g = member_display m))" for g
    by (cases caller) (auto simp: grant_admits_def matches_grant_def)
  have grants: "policy_grants q caller \<longleftrightarrow> (\<exists>r c g. (r, c, g) \<in> granted (p_bindings q) \<and> grant_admits g caller)" for q
    by (auto simp: policy_grants_def list_ex_iff granted_def)
  show ?thesis unfolding grants normalize_granted admits by simp
qed

text \<open>The version a store recovers for its bindings always passes validation, and
  validation fails exactly on a conditional policy of another version than 3.\<close>

theorem canonical_version_validates:
  "policy_validate (p\<lparr>p_version := canonical_version (p_bindings p)\<rparr>) = Inr ()
   \<and> policy_validate p =
       (if (\<exists>b \<in> set (p_bindings p). b_condition b \<noteq> None) \<and> p_version p \<noteq> 3
        then Inl (PolicyConditionRequiresVersion3 (p_version p)) else Inr ())"
  by (auto simp: policy_validate_def canonical_version_def any_conditional_def list_ex_iff)

end
