(* ===== verification/Iam_Eval.thy ===== *)
theory Iam_Eval
  imports Iam_Policy
begin

text \<open>
  \<open>crates/aip-iam/src/eval.rs\<close>: compiling a condition and evaluating it in a request context. The
  CEL interpreter is the \<open>cel\<close> crate, given by the fields of \<open>cel_ops\<close>; \<open>'p\<close> is its program
  type, \<open>'v\<close> its value type and \<open>'t\<close> the instant type of \<open>std::time\<close>.
\<close>

text \<open>A variable of the CEL context: a map of strings, or a map of timestamps.\<close>

datatype 't cel_variable = StringMap "string \<rightharpoonup> string" | TimeMap "string \<rightharpoonup> 't"

record ('p, 'v, 't) cel_ops =
  cel_compile :: "string \<Rightarrow> string + 'p"
  cel_execute :: "'p \<Rightarrow> (string \<rightharpoonup> 't cel_variable) \<Rightarrow> string + 'v"
  cel_as_bool :: "'v \<Rightarrow> bool option"
  cel_debug :: "'v \<Rightarrow> string"

record 'p condition =
  cd_program :: 'p
  cd_expression :: string

record 't request_context =
  rc_resource :: "string btree"
  rc_request_time :: 't

definition condition_compile :: "('p, 'v, 't) cel_ops \<Rightarrow> string \<Rightarrow> iam_error + 'p condition" where
  "condition_compile ops expression =
     (case cel_compile ops expression of
        Inl err \<Rightarrow> Inl (ConditionMalformed expression err)
      | Inr program \<Rightarrow> Inr \<lparr>cd_program = program, cd_expression = expression\<rparr>)"

definition request_new :: "'t \<Rightarrow> 't request_context" where
  "request_new now = \<lparr>rc_resource = [], rc_request_time = now\<rparr>"

definition request_resource :: "string \<Rightarrow> string \<Rightarrow> 't request_context \<Rightarrow> 't request_context" where
  "request_resource key val rc = rc\<lparr>rc_resource := bt_insert key val (rc_resource rc)\<rparr>"

definition request_at :: "'t \<Rightarrow> 't request_context \<Rightarrow> 't request_context" where
  "request_at time rc = rc\<lparr>rc_request_time := time\<rparr>"

definition to_cel_context :: "'t request_context \<Rightarrow> (string \<rightharpoonup> 't cel_variable)" where
  "to_cel_context rc =
     [''resource'' \<mapsto> StringMap (map_of (rc_resource rc)),
      ''request'' \<mapsto> TimeMap [''time'' \<mapsto> rc_request_time rc]]"

definition condition_evaluate ::
  "('p, 'v, 't) cel_ops \<Rightarrow> 'p condition \<Rightarrow> 't request_context \<Rightarrow> iam_error + bool" where
  "condition_evaluate ops c request =
     (case cel_execute ops (cd_program c) (to_cel_context request) of
        Inr v \<Rightarrow>
          (case cel_as_bool ops v of
             Some held \<Rightarrow> Inr held
           | None \<Rightarrow> Inl (ConditionEvaluation (cd_expression c)
                       (''expression produced a non-boolean value: '' @ cel_debug ops v)))
      | Inl err \<Rightarrow> Inl (ConditionEvaluation (cd_expression c) err))"

text \<open>The last setting of a resource attribute is the one a condition reads.\<close>

lemma to_cel_context_resource:
  "to_cel_context (request_resource k v rc) ''resource'' =
     Some (StringMap ((map_of (rc_resource rc))(k \<mapsto> v)))"
  by (simp add: to_cel_context_def request_resource_def)

text \<open>A condition that cannot be decided is an error, never \<open>false\<close>: compiling and
  evaluating an expression gives a boolean only when the CEL program itself produced that
  boolean, and every error names the expression.\<close>

theorem condition_never_guesses:
  "(res_bind (condition_compile ops e) (\<lambda>c. condition_evaluate ops c rc) = Inr held \<longleftrightarrow>
      (\<exists>p v. cel_compile ops e = Inr p \<and> cel_execute ops p (to_cel_context rc) = Inr v
             \<and> cel_as_bool ops v = Some held))
   \<and> (res_bind (condition_compile ops e) (\<lambda>c. condition_evaluate ops c rc) = Inl err \<longleftrightarrow>
        (\<exists>d. err = ConditionMalformed e d \<and> cel_compile ops e = Inl d)
        \<or> (\<exists>p d. err = ConditionEvaluation e d \<and> cel_compile ops e = Inr p
              \<and> (cel_execute ops p (to_cel_context rc) = Inl d
                 \<or> (\<exists>v. cel_execute ops p (to_cel_context rc) = Inr v \<and> cel_as_bool ops v = None
                        \<and> d = ''expression produced a non-boolean value: '' @ cel_debug ops v))))"
  by (auto simp: condition_compile_def condition_evaluate_def split: sum.splits option.splits)

end
