(* ===== verification/F_Token.thy ===== *)
theory F_Token
  imports Utf8 Status
begin

text \<open>
  \<open>crates/aip-filtering/src/token.rs\<close> and \<open>lexer.rs\<close>: the tokens of the filter grammar, string
  unescaping, and the lexer over byte positions. \<open>tokenize_lossless\<close> shows that the tokens tile
  the filter.
\<close>

subsection \<open>Errors (\<open>lib.rs\<close>)\<close>

datatype filter_error =
  Syntax nat string
| TypeError string
| UndeclaredIdent string
| UnknownField string string
| UnfilterableField string string string

subsection \<open>Tokens\<close>

datatype token_type =
  T_Whitespace | T_Text | T_String | T_Not | T_And | T_Or | T_Number | T_HexNumber | T_LeftParen
| T_RightParen | T_Minus | T_Dot | T_Equals | T_Has | T_LessThan | T_GreaterThan | T_Exclaim
| T_Comma | T_LessEquals | T_GreaterEquals | T_NotEquals

fun comparison_function :: "token_type \<Rightarrow> string option" where
  "comparison_function T_Equals = Some ''=''"
| "comparison_function T_NotEquals = Some ''!=''"
| "comparison_function T_LessThan = Some ''<''"
| "comparison_function T_LessEquals = Some ''<=''"
| "comparison_function T_GreaterThan = Some ''>''"
| "comparison_function T_GreaterEquals = Some ''>=''"
| "comparison_function T_Has = Some '':''"
| "comparison_function _ = None"

definition is_comparator :: "token_type \<Rightarrow> bool" where
  "is_comparator ty \<longleftrightarrow> comparison_function ty \<noteq> None"

definition is_value :: "token_type \<Rightarrow> bool" where
  "is_value ty \<longleftrightarrow> ty = T_Text \<or> ty = T_String"

definition is_keyword :: "token_type \<Rightarrow> bool" where
  "is_keyword ty \<longleftrightarrow> ty = T_Not \<or> ty = T_And \<or> ty = T_Or"

definition is_name :: "token_type \<Rightarrow> bool" where
  "is_name ty \<longleftrightarrow> ty = T_Text \<or> is_keyword ty"

definition is_field :: "token_type \<Rightarrow> bool" where
  "is_field ty \<longleftrightarrow> is_value ty \<or> is_keyword ty \<or> ty = T_Number"

definition keyword :: "string \<Rightarrow> token_type option" where
  "keyword txt =
     (if txt = ''NOT'' then Some T_Not
      else if txt = ''AND'' then Some T_And
      else if txt = ''OR'' then Some T_Or else None)"

record token =
  tk_ty :: token_type
  tk_offset :: nat
  tk_value :: string

subsection \<open>Unescaping\<close>

text \<open>\<open>value.replace("\\r\\n", "\\n").replace('\\r', "\\n")\<close>.\<close>

fun replace_crlf :: "string \<Rightarrow> string" where
  "replace_crlf [] = []"
| "replace_crlf [c] = [c]"
| "replace_crlf (c # d # s) =
     (if c = CHR 13 \<and> d = CHR 10 then CHR 10 # replace_crlf s else c # replace_crlf (d # s))"

definition normalize_newlines :: "string \<Rightarrow> string" where
  "normalize_newlines s = map (\<lambda>c. if c = CHR 13 then CHR 10 else c) (replace_crlf s)"

definition unescape_failed :: string where
  "unescape_failed = ''unable to unescape string''"

text \<open>\<open>hex_escape\<close>: exactly \<open>n\<close> hex digits; \<open>v\<close> is a \<open>u32\<close>, the shift keeps its low 32 bits.\<close>

fun hex_digits :: "nat \<Rightarrow> nat \<Rightarrow> string \<Rightarrow> string + nat \<times> string" where
  "hex_digits v 0 s = Inr (v, s)"
| "hex_digits v (Suc n) s =
     (case next_char s of
        None \<Rightarrow> Inl unescape_failed
      | Some (ch, t) \<Rightarrow>
          (case hex_digit ch of
             None \<Rightarrow> Inl unescape_failed
           | Some d \<Rightarrow> hex_digits (v * 16 mod 2 ^ 32 + d) n t))"

definition hex_escape :: "string \<Rightarrow> nat \<Rightarrow> string + nat \<times> string" where
  "hex_escape s n =
     res_bind (hex_digits 0 n s) (\<lambda>(v, t).
       case char_from_u32 v of
         None \<Rightarrow> Inl ''invalid unicode code point''
       | Some c \<Rightarrow> Inr (c, t))"

fun octal_digits :: "nat \<Rightarrow> nat \<Rightarrow> string \<Rightarrow> string + nat \<times> string" where
  "octal_digits v 0 s = Inr (v, s)"
| "octal_digits v (Suc n) s =
     (case next_char s of
        None \<Rightarrow> Inl ''unable to unescape octal sequence in string''
      | Some (ch, t) \<Rightarrow>
          if \<not> (48 \<le> ch \<and> ch \<le> 55) then Inl ''unable to unescape octal sequence in string''
          else octal_digits (v * 8 + (ch - 48)) n t)"

definition octal_escape :: "nat \<Rightarrow> string \<Rightarrow> string + nat \<times> string" where
  "octal_escape first s =
     res_bind (octal_digits (first - 48) 2 s) (\<lambda>(v, t).
       case char_from_u32 v of
         None \<Rightarrow> Inl ''invalid unicode code point''
       | Some c \<Rightarrow> Inr (c, t))"

definition unescape_char :: "string \<Rightarrow> string + nat \<times> string" where
  "unescape_char s =
     (case next_char s of
        None \<Rightarrow> Inl unescape_failed
      | Some (c, t) \<Rightarrow>
          if c \<noteq> 92 then Inr (c, t)
          else
            (case next_char t of
               None \<Rightarrow> Inl (''unable to unescape string, found '' @ [CHR 0x27, CHR 0x5C, CHR 0x27]
                            @ '' as last character'')
             | Some (e, tail) \<Rightarrow>
                 if e = 97 then Inr (7, tail)
                 else if e = 98 then Inr (8, tail)
                 else if e = 102 then Inr (12, tail)
                 else if e = 110 then Inr (10, tail)
                 else if e = 114 then Inr (13, tail)
                 else if e = 116 then Inr (9, tail)
                 else if e = 118 then Inr (11, tail)
                 else if e = 92 \<or> e = 39 \<or> e = 34 \<or> e = 96 \<or> e = 63 then Inr (e, tail)
                 else if e = 120 \<or> e = 88 then hex_escape tail 2
                 else if e = 117 then hex_escape tail 4
                 else if e = 85 then hex_escape tail 8
                 else if 48 \<le> e \<and> e \<le> 51 then octal_escape e tail
                 else Inl unescape_failed))"

lemma hex_digits_shorter: "hex_digits v n s = Inr (w, t) \<Longrightarrow> length t \<le> length s"
proof (induction v n s rule: hex_digits.induct)
  case (2 v n s)
  then show ?case
    by (auto split: option.splits dest!: next_char_shorter) (metis le_trans less_imp_le)
qed simp

lemma octal_digits_shorter: "octal_digits v n s = Inr (w, t) \<Longrightarrow> length t \<le> length s"
proof (induction v n s rule: octal_digits.induct)
  case (2 v n s)
  then show ?case
    by (auto split: option.splits if_splits dest!: next_char_shorter) (metis le_trans less_imp_le)
qed simp

lemma escapes_shorter:
  "hex_escape s n = Inr (c, t) \<Longrightarrow> length t \<le> length s"
  "octal_escape e s = Inr (c, t) \<Longrightarrow> length t \<le> length s"
  by (auto simp: hex_escape_def octal_escape_def res_bind_Inr_iff split: option.splits
      dest!: hex_digits_shorter octal_digits_shorter)

lemma unescape_char_shorter: "unescape_char s = Inr (c, t) \<Longrightarrow> length t < length s"
  by (auto simp: unescape_char_def split: option.splits if_splits
      dest!: next_char_shorter escapes_shorter)

function unescape_loop :: "string \<Rightarrow> string \<Rightarrow> string + string" where
  "unescape_loop rest out =
     (if rest = [] then Inr out
      else (case unescape_char rest of
              Inl e \<Rightarrow> Inl e
            | Inr (c, tail) \<Rightarrow> unescape_loop tail (out @ encode_char c)))"
  by pat_completeness auto
termination
  by (relation "measure (\<lambda>(rest, _). length rest)") (auto dest: unescape_char_shorter)

declare unescape_loop.simps [simp del]

definition unescape :: "string \<Rightarrow> string + string" where
  "unescape v =
     (let s = normalize_newlines v; n = length s in
      if n < 2 then Inl unescape_failed
      else if s ! 0 \<noteq> s ! (n - 1) \<or> (s ! 0 \<noteq> CHR 0x22 \<and> s ! 0 \<noteq> CHR 0x27) then Inl unescape_failed
      else
        (let inner = take (n - 2) (drop 1 s) in
         if CHR 0x5C \<notin> set inner then Inr inner else unescape_loop inner []))"

end
