(* ===== verification/F_Lexer.thy ===== *)
theory F_Lexer
  imports F_Token
begin

text \<open>
  \<open>crates/aip-filtering/src/lexer.rs\<close>: the lexer state is the input and a byte position, every
  method returns its result and the new state. \<open>next_token_spec\<close> and \<open>tokenize_spec\<close> show that
  the lexer always progresses and that its tokens tile the input.
\<close>

record lexer =
  lx_input :: string
  lx_pos :: nat

definition rest :: "lexer \<Rightarrow> string" where
  "rest l = drop (lx_pos l) (lx_input l)"

definition peek :: "lexer \<Rightarrow> nat option" where
  "peek l = map_option fst (next_char (rest l))"

definition bump :: "lexer \<Rightarrow> nat option \<times> lexer" where
  "bump l =
     (case next_char (rest l) of
        None \<Rightarrow> (None, l)
      | Some (c, t) \<Rightarrow> (Some c, l\<lparr>lx_pos := lx_pos l + (length (rest l) - length t)\<rparr>))"

definition remaining :: "lexer \<Rightarrow> nat" where
  "remaining l = length (lx_input l) - lx_pos l"

lemma bump_input [simp]: "lx_input (snd (bump l)) = lx_input l"
  by (simp add: bump_def split: option.splits)

lemma bump_pos: "lx_pos l \<le> length (lx_input l) \<Longrightarrow> lx_pos (snd (bump l)) \<le> length (lx_input l)"
  by (auto simp: bump_def rest_def split: option.splits)

lemma bump_mono: "lx_pos l \<le> lx_pos (snd (bump l))"
  by (simp add: bump_def split: option.splits)

lemma bump_progress:
  assumes "peek l = Some c"
  shows "remaining (snd (bump l)) < remaining l" and "lx_pos l < lx_pos (snd (bump l))"
proof -
  from assms obtain t where t: "next_char (rest l) = Some (c, t)" by (auto simp: peek_def)
  from next_char_shorter [OF t] have "length t < length (rest l)" .
  with t show "remaining (snd (bump l)) < remaining l" and "lx_pos l < lx_pos (snd (bump l))"
    by (auto simp: bump_def remaining_def rest_def)
qed

function bump_while :: "(nat \<Rightarrow> bool) \<Rightarrow> lexer \<Rightarrow> lexer" where
  "bump_while P l =
     (case peek l of
        Some c \<Rightarrow> if P c then bump_while P (snd (bump l)) else l
      | None \<Rightarrow> l)"
  by pat_completeness auto
termination
  by (relation "measure (\<lambda>(_, l). remaining l)") (auto simp: bump_progress)

declare bump_while.simps [simp del]

definition single :: "token_type \<Rightarrow> lexer \<Rightarrow> token_type \<times> lexer" where
  "single ty l = (ty, snd (bump l))"

definition maybe_equals :: "token_type \<Rightarrow> token_type \<Rightarrow> lexer \<Rightarrow> token_type \<times> lexer" where
  "maybe_equals one two l =
     (let l = snd (bump l) in
      if peek l = Some 61 then (two, snd (bump l)) else (one, l))"

function string_loop :: "nat \<Rightarrow> nat \<Rightarrow> bool \<Rightarrow> lexer \<Rightarrow> filter_error + token_type \<times> lexer" where
  "string_loop start quote escaped l =
     (case peek l of
        None \<Rightarrow> Inl (Syntax start ''unterminated string'')
      | Some c \<Rightarrow>
          (let l' = snd (bump l) in
           if c = 92 \<and> \<not> escaped then string_loop start quote True l'
           else if c = quote \<and> \<not> escaped then Inr (T_String, l')
           else string_loop start quote False l'))"
  by pat_completeness auto
termination
  by (relation "measure (\<lambda>(_, _, _, l). remaining l)") (auto simp: bump_progress)

declare string_loop.simps [simp del]

definition lex_string :: "nat \<Rightarrow> nat \<Rightarrow> lexer \<Rightarrow> filter_error + token_type \<times> lexer" where
  "lex_string start quote l = string_loop start quote False (snd (bump l))"

definition is_hexdigit :: "nat \<Rightarrow> bool" where
  "is_hexdigit c \<longleftrightarrow> hex_digit c \<noteq> None"

definition is_dec_digit :: "nat \<Rightarrow> bool" where
  "is_dec_digit c \<longleftrightarrow> 48 \<le> c \<and> c \<le> 57"

definition lex_number :: "lexer \<Rightarrow> token_type \<times> lexer" where
  "lex_number l =
     (let l = snd (bump l) in
      if peek l = Some 120 then (T_HexNumber, bump_while is_hexdigit (snd (bump l)))
      else (T_Number, bump_while is_dec_digit l))"

definition is_text :: "nat \<Rightarrow> bool" where
  "is_text c \<longleftrightarrow> c \<notin> {40, 41, 45, 46, 61, 58, 60, 62, 33, 44} \<and> \<not> is_whitespace c"

definition span :: "lexer \<Rightarrow> nat \<Rightarrow> string" where
  "span l start = take (lx_pos l - start) (drop start (lx_input l))"

definition lex_text :: "lexer \<Rightarrow> token_type \<times> lexer" where
  "lex_text l =
     (let l' = bump_while is_text l in
      (case keyword (span l' (lx_pos l)) of Some ty \<Rightarrow> ty | None \<Rightarrow> T_Text, l'))"

definition next_token :: "lexer \<Rightarrow> filter_error + token option \<times> lexer" where
  "next_token l =
     (let start = lx_pos l in
      case peek l of
        None \<Rightarrow> Inr (None, l)
      | Some c \<Rightarrow>
          res_bind
            (if c = 40 then Inr (single T_LeftParen l)
             else if c = 41 then Inr (single T_RightParen l)
             else if c = 45 then Inr (single T_Minus l)
             else if c = 46 then Inr (single T_Dot l)
             else if c = 61 then Inr (single T_Equals l)
             else if c = 58 then Inr (single T_Has l)
             else if c = 44 then Inr (single T_Comma l)
             else if c = 60 then Inr (maybe_equals T_LessThan T_LessEquals l)
             else if c = 62 then Inr (maybe_equals T_GreaterThan T_GreaterEquals l)
             else if c = 33 then Inr (maybe_equals T_Exclaim T_NotEquals l)
             else if c = 39 \<or> c = 34 then lex_string start c l
             else if 48 \<le> c \<and> c \<le> 57 then Inr (lex_number l)
             else if is_whitespace c then Inr (T_Whitespace, bump_while is_whitespace l)
             else Inr (lex_text l))
            (\<lambda>(ty, l'). Inr (Some \<lparr>tk_ty = ty, tk_offset = start, tk_value = span l' start\<rparr>, l')))"

subsection \<open>Progress\<close>

text \<open>\<open>l'\<close> is \<open>l\<close> advanced, within the same input.\<close>

definition advanced :: "lexer \<Rightarrow> lexer \<Rightarrow> bool" where
  "advanced l l' \<longleftrightarrow>
     lx_input l' = lx_input l \<and> lx_pos l \<le> lx_pos l'
     \<and> (lx_pos l \<le> length (lx_input l) \<longrightarrow> lx_pos l' \<le> length (lx_input l))"

lemma advanced_refl [simp]: "advanced l l"
  by (simp add: advanced_def)

lemma advanced_trans: "advanced l m \<Longrightarrow> advanced m n \<Longrightarrow> advanced l n"
  by (auto simp: advanced_def)

lemma advanced_bump [simp]: "advanced l (snd (bump l))"
  by (simp add: advanced_def bump_pos bump_mono)

lemma advanced_bump_while: "advanced l (bump_while P l)"
proof (induction P l rule: bump_while.induct)
  case (1 P l)
  show ?case
  proof (cases "\<exists>c. peek l = Some c \<and> P c")
    case True
    then obtain c where "peek l = Some c" "P c" by blast
    with 1 advanced_trans [OF advanced_bump] show ?thesis by (simp add: bump_while.simps [of P l])
  next
    case False
    then show ?thesis by (auto simp: bump_while.simps [of P l] split: option.splits)
  qed
qed

lemma advanced_string_loop: "string_loop start q e l = Inr (ty, l') \<Longrightarrow> advanced l l'"
proof (induction start q e l rule: string_loop.induct)
  case (1 start q e l)
  show ?case
  proof (cases "peek l")
    case None
    with 1 show ?thesis by (simp add: string_loop.simps [of _ _ _ l])
  next
    case (Some c)
    with 1 show ?thesis
      by (auto simp: string_loop.simps [of _ _ _ l] Let_def split: if_splits
          intro: advanced_trans [OF advanced_bump])
  qed
qed

lemma string_loop_error: "string_loop start q e l = Inl err \<Longrightarrow> err = Syntax start ''unterminated string''"
proof (induction start q e l rule: string_loop.induct)
  case (1 start q e l)
  then show ?case
    by (auto simp: string_loop.simps [of _ _ _ l] Let_def split: option.splits if_splits)
qed

text \<open>\<open>l'\<close> is strictly ahead of \<open>l\<close>: at least the first character was taken.\<close>

lemma bump_while_progress:
  assumes "peek l = Some c" and "P c"
  shows "advanced l (bump_while P l)" and "lx_pos l < lx_pos (bump_while P l)"
proof -
  show "advanced l (bump_while P l)" by (rule advanced_bump_while)
  have "bump_while P l = bump_while P (snd (bump l))" using assms by (simp add: bump_while.simps [of P l])
  with advanced_bump_while [of "snd (bump l)" P] bump_progress(2) [OF assms(1)]
  show "lx_pos l < lx_pos (bump_while P l)" by (simp add: advanced_def)
qed

lemma advanced_after_bump:
  "peek l = Some c \<Longrightarrow> advanced (snd (bump l)) l' \<Longrightarrow> advanced l l' \<and> lx_pos l < lx_pos l'"
  using bump_progress(2) advanced_trans [OF advanced_bump] by (fastforce simp: advanced_def)

lemma is_text_other:
  "c \<notin> {40, 41, 45, 46, 61, 58, 60, 62, 33, 44} \<Longrightarrow> \<not> is_whitespace c \<Longrightarrow> is_text c"
  by (simp add: is_text_def)

lemma token_advance:
  assumes p: "peek l = Some c"
  shows "snd (single ty l) = snd (bump l)"
    and "advanced (snd (bump l)) (snd (maybe_equals one two l))"
    and "lex_string start q l = Inr (ty', l') \<Longrightarrow> advanced (snd (bump l)) l'"
    and "advanced (snd (bump l)) (snd (lex_number l))"
    and "snd (lex_text l) = bump_while is_text l"
  by (auto simp: single_def maybe_equals_def lex_string_def lex_number_def lex_text_def Let_def
      intro: advanced_string_loop advanced_bump_while advanced_trans [OF advanced_bump])

lemma next_token_spec:
  assumes "next_token l = Inr (r, l')" and "lx_pos l \<le> length (lx_input l)"
  shows "case r of
           None \<Rightarrow> l' = l \<and> lx_pos l = length (lx_input l)
         | Some t \<Rightarrow> advanced l l' \<and> lx_pos l < lx_pos l' \<and> tk_offset t = lx_pos l
             \<and> tk_value t = span l' (lx_pos l)"
proof (cases "peek l")
  case None
  with assms have "rest l = []" by (simp add: peek_def)
  with None assms show ?thesis by (auto simp: next_token_def rest_def)
next
  case (Some c)
  note adv = advanced_after_bump [OF Some] token_advance [OF Some]
  have ty: "\<exists>ty. r = Some \<lparr>tk_ty = ty, tk_offset = lx_pos l, tk_value = span l' (lx_pos l)\<rparr>"
    using assms(1) Some
    by (auto simp: next_token_def Let_def res_bind_Inr_iff split: prod.splits)
  have "advanced l l' \<and> lx_pos l < lx_pos l'"
  proof -
    consider "l' = snd (bump l)" | one two where "l' = snd (maybe_equals one two l)"
      | q ty where "lex_string (lx_pos l) q l = Inr (ty, l')" | "l' = snd (lex_number l)"
      | "is_whitespace c" "l' = bump_while is_whitespace l"
      | "is_text c" "l' = bump_while is_text l"
      using assms(1) Some
      by (auto simp: next_token_def Let_def res_bind_Inr_iff is_text_other adv(2,6) split: if_splits prod.splits)
        (metis adv(2,6) is_text_other snd_conv insertE empty_iff)+
    then show ?thesis
    proof cases
      case 1
      then show ?thesis using adv(1) [of l'] by simp
    next
      case (2 one two)
      then show ?thesis using adv(1) adv(3) by simp
    next
      case (3 q ty)
      then show ?thesis using adv(1) adv(4) by simp
    next
      case 4
      then show ?thesis using adv(1) adv(5) by simp
    next
      case 5
      then show ?thesis using bump_while_progress [OF Some] by simp
    next
      case 6
      then show ?thesis using bump_while_progress [OF Some] by simp
    qed
  qed
  with ty show ?thesis by auto
qed


lemma peek_in_range: "peek l = Some c \<Longrightarrow> lx_pos l < length (lx_input l)"
  by (cases "lx_pos l < length (lx_input l)") (auto simp: peek_def rest_def)

lemma next_token_in_range:
  "next_token l = Inr (Some t, l') \<Longrightarrow> lx_pos l < length (lx_input l)"
  by (cases "peek l") (auto simp: next_token_def dest: peek_in_range)

lemma next_token_decreases: "next_token l = Inr (Some t, l') \<Longrightarrow> remaining l' < remaining l"
  using next_token_spec [of l "Some t" l'] next_token_in_range [of l t l']
  by (auto simp: advanced_def remaining_def)

subsection \<open>The token stream\<close>

function tokenize_loop :: "lexer \<Rightarrow> filter_error + token list" where
  "tokenize_loop l =
     (case next_token l of
        Inl e \<Rightarrow> Inl e
      | Inr (None, l') \<Rightarrow> Inr []
      | Inr (Some t, l') \<Rightarrow> res_bind (tokenize_loop l') (\<lambda>ts. Inr (t # ts)))"
  by pat_completeness auto
termination
  by (relation "measure remaining") (simp, metis in_measure next_token_decreases)

declare tokenize_loop.simps [simp del]

definition tokenize :: "string \<Rightarrow> filter_error + token list" where
  "tokenize filtr = tokenize_loop \<lparr>lx_input = filtr, lx_pos = 0\<rparr>"

text \<open>Tokens that follow one another from a position without a gap.\<close>

fun tiles :: "nat \<Rightarrow> token list \<Rightarrow> bool" where
  "tiles n [] = True"
| "tiles n (t # ts) = (tk_offset t = n \<and> tk_value t \<noteq> [] \<and> tiles (n + length (tk_value t)) ts)"

lemma span_append:
  assumes "lx_input l' = lx_input l" and "i \<le> lx_pos l'" and "lx_pos l' \<le> length (lx_input l)"
  shows "drop i (lx_input l) = span l' i @ rest l'"
  using assms by (simp add: span_def rest_def) (metis append_take_drop_id drop_drop le_add_diff_inverse2)

lemma tokenize_loop_tiles:
  "tokenize_loop l = Inr ts \<Longrightarrow> lx_pos l \<le> length (lx_input l) \<Longrightarrow>
     tiles (lx_pos l) ts \<and> concat (map tk_value ts) = rest l"
proof (induction l arbitrary: ts rule: tokenize_loop.induct)
  case (1 l)
  obtain r l' where nt: "next_token l = Inr (r, l')"
    using 1(2) by (auto simp: tokenize_loop.simps [of l] split: sum.splits prod.splits)
  note spec = next_token_spec [OF nt 1(3)]
  show ?case
  proof (cases r)
    case None
    with 1(2) nt spec show ?thesis by (auto simp: tokenize_loop.simps [of l] rest_def)
  next
    case (Some t)
    with 1(2) nt obtain ts' where ts: "tokenize_loop l' = Inr ts'" "ts = t # ts'"
      by (auto simp: tokenize_loop.simps [of l] res_bind_Inr_iff)
    from spec Some have adv: "advanced l l'" "lx_pos l < lx_pos l'"
      and t: "tk_offset t = lx_pos l" "tk_value t = span l' (lx_pos l)" by auto
    have le: "lx_pos l' \<le> length (lx_input l)" and inp: "lx_input l' = lx_input l"
      using adv 1(3) by (auto simp: advanced_def)
    have "tiles (lx_pos l') ts' \<and> concat (map tk_value ts') = rest l'"
      using 1(1) [OF nt refl Some ts(1)] le inp by simp
    moreover have "lx_pos l + length (span l' (lx_pos l)) = lx_pos l'"
      using adv le inp by (simp add: span_def)
    moreover have "span l' (lx_pos l) \<noteq> []"
      using adv le inp by (simp add: span_def)
    moreover have "rest l = span l' (lx_pos l) @ rest l'"
      using span_append [OF inp _ le] adv by (simp add: rest_def)
    ultimately show ?thesis by (simp add: ts t)
  qed
qed

lemma next_token_error:
  assumes "next_token l = Inl e"
  shows "lx_pos l < length (lx_input l) \<and> e = Syntax (lx_pos l) ''unterminated string''
         \<and> peek l \<in> {Some 34, Some 39}"
proof (cases "peek l")
  case None
  with assms show ?thesis by (simp add: next_token_def)
next
  case (Some c)
  then have "lx_pos l < length (lx_input l)" by (rule peek_in_range)
  moreover have "lex_string (lx_pos l) c l = Inl e \<and> (c = 34 \<or> c = 39)"
    using assms Some by (auto simp: next_token_def Let_def res_bind_def split: if_splits sum.splits prod.splits)
  ultimately show ?thesis using Some by (auto simp: lex_string_def dest: string_loop_error)
qed

lemma tokenize_loop_error:
  "tokenize_loop l = Inl e \<Longrightarrow> lx_pos l \<le> length (lx_input l) \<Longrightarrow>
     \<exists>p. lx_pos l \<le> p \<and> p < length (lx_input l) \<and> e = Syntax p ''unterminated string''
         \<and> peek \<lparr>lx_input = lx_input l, lx_pos = p\<rparr> \<in> {Some 34, Some 39}"
proof (induction l rule: tokenize_loop.induct)
  case (1 l)
  show ?case
  proof (cases "next_token l")
    case (Inl e')
    with 1(2) have "e' = e" by (simp add: tokenize_loop.simps [of l])
    with next_token_error [OF Inl] show ?thesis
      by (intro exI [of _ "lx_pos l"]) (auto simp: peek_def rest_def)
  next
    case (Inr q)
    then obtain t l' where nt: "next_token l = Inr (Some t, l')" and err: "tokenize_loop l' = Inl e"
      using 1(2) by (auto simp: tokenize_loop.simps [of l] res_bind_def split: prod.splits option.splits sum.splits)
    from next_token_spec [OF nt 1(3)] 1(3)
    have "lx_input l' = lx_input l" "lx_pos l < lx_pos l'" "lx_pos l' \<le> length (lx_input l)"
      by (auto simp: advanced_def)
    with 1(1) [OF nt refl refl err] show ?thesis by auto
  qed
qed

lemma tiles_length: "tiles n ts \<Longrightarrow> length ts \<le> length (concat (map tk_value ts))"
proof (induction ts arbitrary: n)
  case (Cons t ts)
  then have "length ts \<le> length (concat (map tk_value ts))" by auto
  moreover have "length (tk_value t) \<ge> 1" using Cons.prems by (cases "tk_value t") auto
  ultimately show ?case by simp
qed simp

lemma tokenize_length: "tokenize f = Inr ts \<Longrightarrow> length ts \<le> length f"
  using tokenize_loop_tiles [of "\<lparr>lx_input = f, lx_pos = 0\<rparr>" ts] tiles_length [of 0 ts]
  by (simp add: tokenize_def rest_def)

text \<open>C35: Lexing loses nothing: the tokens are non-empty, each carries the byte offset at which it
  starts, and their values concatenate to the filter. The only error is an unterminated string,
  reported at its opening quote.\<close>

theorem tokenize_tiles_the_filter:
  "case tokenize f of
     Inr ts \<Rightarrow> tiles 0 ts \<and> concat (map tk_value ts) = f
   | Inl e \<Rightarrow> (\<exists>p < length f. e = Syntax p ''unterminated string''
                \<and> map_option fst (next_char (drop p f)) \<in> {Some 34, Some 39})"
proof (cases "tokenize f")
  case (Inr ts)
  with tokenize_loop_tiles [of "\<lparr>lx_input = f, lx_pos = 0\<rparr>" ts] show ?thesis
    by (simp add: tokenize_def rest_def)
next
  case (Inl e)
  with tokenize_loop_error [of "\<lparr>lx_input = f, lx_pos = 0\<rparr>" e] show ?thesis
    by (auto simp: tokenize_def peek_def rest_def)
qed

end
