(* ===== verification/F64.thy ===== *)
theory F64
  imports Complex_Main Prelude
begin

text \<open>
  Binary64 numbers as data, and the decimal literals the filter grammar produces
  (\<open>str::parse::<f64>\<close> on an optional minus, digits, a dot and digits), rounded to nearest, ties
  to even.
\<close>

datatype f64 = NaN | Inf bool | Fin bool nat int

text \<open>
  \<open>Fin neg m e\<close> is \<open>(-1)^neg * m * 2^e\<close>, normalised: a full 53-bit mantissa, or the smallest
  exponent.
\<close>

fun f64_wf :: "f64 \<Rightarrow> bool" where
  "f64_wf (Fin neg m e) \<longleftrightarrow>
     m < 2 ^ 53 \<and> - 1074 \<le> e \<and> e \<le> 971 \<and> (m < 2 ^ 52 \<longrightarrow> e = - 1074)"
| "f64_wf _ = True"

fun f64_neg :: "f64 \<Rightarrow> f64" where
  "f64_neg NaN = NaN"
| "f64_neg (Inf neg) = Inf (\<not> neg)"
| "f64_neg (Fin neg m e) = Fin (\<not> neg) m e"

fun log2_floor :: "nat \<Rightarrow> nat" where
  "log2_floor n = (if n < 2 then 0 else Suc (log2_floor (n div 2)))"

declare log2_floor.simps [simp del]

text \<open>\<open>n / d * 2^-e\<close> as a fraction, and the nearest natural number to a fraction.\<close>

definition scale :: "nat \<Rightarrow> nat \<Rightarrow> int \<Rightarrow> nat \<times> nat" where
  "scale n d e = (if e \<ge> 0 then (n, d * 2 ^ nat e) else (n * 2 ^ nat (- e), d))"

definition round_even :: "nat \<Rightarrow> nat \<Rightarrow> nat" where
  "round_even n d =
     (let q = n div d; r = n mod d in
      if 2 * r > d \<or> (2 * r = d \<and> odd q) then q + 1 else q)"

text \<open>The exponent of the last mantissa bit of \<open>n / d\<close>.\<close>

definition ulp_exponent :: "nat \<Rightarrow> nat \<Rightarrow> int" where
  "ulp_exponent n d =
     (let k = int (log2_floor n) - int (log2_floor d);
          l = (case scale n d k of (a, b) \<Rightarrow> if a \<ge> b then k else k - 1)
      in max (l - 52) (- 1074))"

definition f64_of_fraction :: "bool \<Rightarrow> nat \<Rightarrow> nat \<Rightarrow> f64" where
  "f64_of_fraction neg n d =
     (if n = 0 then Fin neg 0 (- 1074)
      else
        (let e = ulp_exponent n d;
             m = (case scale n d e of (a, b) \<Rightarrow> round_even a b);
             (m, e) = (if m = 2 ^ 53 then (2 ^ 52, e + 1) else (m, e))
         in if e > 971 then Inf neg else Fin neg m e))"

definition digit_value :: "char \<Rightarrow> nat" where
  "digit_value c = of_char c - 48"

definition decimal :: "string \<Rightarrow> nat" where
  "decimal s = foldl (\<lambda>n c. 10 * n + digit_value c) 0 s"

text \<open>\<open>literal.parse::<f64>()\<close> for \<open>[-]digits.digits\<close>.\<close>

definition parse_f64 :: "string \<Rightarrow> f64 option" where
  "parse_f64 lit =
     (let (neg, body) = (case strip_prefix ''-'' lit of Some b \<Rightarrow> (True, b) | None \<Rightarrow> (False, lit));
          (ip, fp) = (case split_once CHR ''.'' body of Some p \<Rightarrow> p | None \<Rightarrow> (body, []))
      in if ip @ fp \<noteq> [] \<and> list_all is_digit (ip @ fp)
         then Some (f64_of_fraction neg (decimal (ip @ fp)) (10 ^ length fp))
         else None)"

subsection \<open>Rounding is to nearest, and in range\<close>

lemma log2_floor_bounds: "n > 0 \<Longrightarrow> 2 ^ log2_floor n \<le> n \<and> n < 2 ^ Suc (log2_floor n)"
proof (induction n rule: log2_floor.induct)
  case (1 n)
  show ?case
  proof (cases "n < 2")
    case True
    with 1 show ?thesis by (subst (1 2) log2_floor.simps) simp
  next
    case False
    then have "2 ^ log2_floor (n div 2) \<le> n div 2 \<and> n div 2 < 2 ^ Suc (log2_floor (n div 2))"
      using 1 by simp
    moreover have "log2_floor n = Suc (log2_floor (n div 2))"
      using False by (subst log2_floor.simps) simp
    ultimately show ?thesis by simp linarith
  qed
qed

lemma round_even_nearest:
  assumes "d > 0"
  shows "2 * round_even n d * d \<le> 2 * n + d" and "2 * n \<le> 2 * round_even n d * d + d"
proof -
  define q r where "q = n div d" and "r = n mod d"
  have n: "n = q * d + r" and r: "r < d" using assms by (simp_all add: q_def r_def)
  have "round_even n d = q \<and> 2 * r \<le> d \<or> round_even n d = q + 1 \<and> d \<le> 2 * r"
    by (auto simp: round_even_def Let_def q_def r_def)
  then show "2 * round_even n d * d \<le> 2 * n + d" and "2 * n \<le> 2 * round_even n d * d + d"
    using r by (auto simp: n algebra_simps)
qed

lemma round_even_le: "d > 0 \<Longrightarrow> n \<le> k * d \<Longrightarrow> round_even n d \<le> k"
proof -
  assume d: "d > 0" and n: "n \<le> k * d"
  show ?thesis
  proof (cases "n div d = k")
    case True
    then have "n = k * d" using n d by (metis div_mult_mod_eq le_antisym le_add1)
    then show ?thesis using d by (simp add: round_even_def)
  next
    case False
    then have "n div d < k" using n d by (metis div_le_mono div_mult_self_is_m le_neq_implies_less)
    then show ?thesis by (auto simp: round_even_def Let_def)
  qed
qed

lemma round_even_ge: "d > 0 \<Longrightarrow> k * d \<le> n \<Longrightarrow> k \<le> round_even n d"
  by (auto simp: round_even_def Let_def less_eq_div_iff_mult_less_eq intro: le_SucI)


lemma scale_real:
  assumes "d > 0" and "scale n d e = (a, b)"
  shows "b > 0" and "real a / real b = real n / real d / 2 powi e"
  using assms by (auto simp: scale_def power_int_def divide_simps split: if_splits)

lemma log2_floor_real:
  "n > 0 \<Longrightarrow> 2 powi int (log2_floor n) \<le> real n \<and> real n < 2 powi (int (log2_floor n) + 1)"
proof -
  assume "n > 0"
  then have b: "2 ^ log2_floor n \<le> n" "n < 2 ^ Suc (log2_floor n)" using log2_floor_bounds by auto
  have "(2::real) ^ log2_floor n \<le> real n" using b(1) by (metis of_nat_le_iff of_nat_numeral of_nat_power)
  moreover have "real n < 2 ^ Suc (log2_floor n)" using b(2) by (metis of_nat_less_iff of_nat_numeral of_nat_power)
  moreover have "(2::real) powi (int (log2_floor n) + 1) = 2 ^ Suc (log2_floor n)"
    by (simp add: power_int_add)
  ultimately show ?thesis by simp
qed

text \<open>The leading bit of a fraction.\<close>

definition top_bit :: "nat \<Rightarrow> nat \<Rightarrow> int" where
  "top_bit n d =
     (let k = int (log2_floor n) - int (log2_floor d)
      in case scale n d k of (a, b) \<Rightarrow> if a \<ge> b then k else k - 1)"

lemma ulp_exponent_top: "ulp_exponent n d = max (top_bit n d - 52) (- 1074)"
  by (simp add: ulp_exponent_def top_bit_def Let_def)

lemma top_bit_bounds:
  assumes "n > 0" and "d > 0"
  shows "2 powi top_bit n d \<le> real n / real d" and "real n / real d < 2 powi (top_bit n d + 1)"
proof -
  define k where "k = int (log2_floor n) - int (log2_floor d)"
  obtain a b where ab: "scale n d k = (a, b)" by fastforce
  have b0: "b > 0" and q: "real a / real b = real n / real d / 2 powi k"
    using scale_real [OF assms(2) ab] by auto
  have N: "2 powi int (log2_floor n) \<le> real n" "real n < 2 powi (int (log2_floor n) + 1)"
    and D: "2 powi int (log2_floor d) \<le> real d" "real d < 2 powi (int (log2_floor d) + 1)"
    using log2_floor_real assms by auto
  have pos: "(2::real) powi z > 0" for z by simp
  have add1: "(2::real) powi (z + 1) = 2 * 2 powi z" for z by (simp add: power_int_add)
  have split: "(2::real) powi int (log2_floor n) = 2 powi k * 2 powi int (log2_floor d)"
    using power_int_add [of "2::real" k "int (log2_floor d)"] by (simp add: k_def)
  have up: "real n / real d < 2 powi (k + 1)"
  proof -
    have "real n < 2 powi (k + 1) * 2 powi int (log2_floor d)"
      using N(2) split by (simp add: add1)
    also have "\<dots> \<le> 2 powi (k + 1) * real d" using D(1) by simp
    finally show ?thesis using assms(2) by (simp add: divide_simps mult.commute)
  qed
  have low: "2 powi (k - 1) < real n / real d"
  proof -
    have half: "2 * (2::real) powi (k - 1) = 2 powi k" using add1 [of "k - 1"] by simp
    have "2 powi (k - 1) * real d < 2 powi (k - 1) * (2 * 2 powi int (log2_floor d))"
      using D(2) pos by (simp add: add1)
    also have "\<dots> = 2 powi k * 2 powi int (log2_floor d)"
      using half by (metis mult.assoc mult.commute)
    also have "\<dots> \<le> real n" using N(1) unfolding split .
    finally show ?thesis using assms(2) by (simp add: divide_simps)
  qed
  show "2 powi top_bit n d \<le> real n / real d" and "real n / real d < 2 powi (top_bit n d + 1)"
  proof -
    have "a \<ge> b \<longleftrightarrow> real a / real b \<ge> 1" using b0 by (simp add: divide_simps)
    also have "\<dots> \<longleftrightarrow> real n / real d \<ge> 2 powi k" unfolding q using pos [of k]
      by (simp only: pos_le_divide_eq mult_1)
    finally have cmp: "a \<ge> b \<longleftrightarrow> real n / real d \<ge> 2 powi k" .
    show "2 powi top_bit n d \<le> real n / real d"
      using cmp low by (simp add: top_bit_def Let_def k_def [symmetric] ab)
    show "real n / real d < 2 powi (top_bit n d + 1)"
      using cmp up by (auto simp: top_bit_def Let_def k_def [symmetric] ab)
  qed
qed

lemma mantissa_bounds:
  assumes "n > 0" and "d > 0" and ab: "scale n d (ulp_exponent n d) = (a, b)"
  shows "round_even a b \<le> 2 ^ 53"
    and "ulp_exponent n d > - 1074 \<Longrightarrow> 2 ^ 52 \<le> round_even a b"
proof -
  let ?e = "ulp_exponent n d" and ?x = "real n / real d"
  have b0: "b > 0" and q: "real a / real b = ?x / 2 powi ?e"
    using scale_real [OF assms(2) ab] by auto
  have pos: "(2::real) powi z > 0" for z by simp
  have "?x < 2 powi (top_bit n d + 1)" using top_bit_bounds(2) [OF assms(1,2)] .
  also have "(2::real) powi (top_bit n d + 1) \<le> 2 powi (53 + ?e)"
    by (rule power_int_increasing) (auto simp: ulp_exponent_top)
  also have "\<dots> = 2 ^ 53 * 2 powi ?e" by (simp add: power_int_add)
  finally have "real a / real b < 2 ^ 53" unfolding q using pos [of ?e] by (simp only: pos_divide_less_eq)
  then have "real a \<le> real (2 ^ 53 * b)" using b0 by (simp add: divide_simps)
  then have "a \<le> 2 ^ 53 * b" by (simp only: of_nat_le_iff)
  then show "round_even a b \<le> 2 ^ 53" using b0 by (rule round_even_le [rotated])
  show "2 ^ 52 \<le> round_even a b" if "?e > - 1074"
  proof -
    have e: "?e = top_bit n d - 52" using that by (simp add: ulp_exponent_top max_def split: if_splits)
    have top: "top_bit n d = 52 + ?e" using e by simp
    have "2 ^ 52 * 2 powi ?e = (2::real) powi top_bit n d" unfolding top by (simp add: power_int_add)
    also have "\<dots> \<le> ?x" using top_bit_bounds(1) [OF assms(1,2)] .
    finally have "2 ^ 52 \<le> real a / real b" unfolding q using pos [of ?e] by (simp only: pos_le_divide_eq)
    then have "real (2 ^ 52 * b) \<le> real a" using b0 by (simp add: divide_simps)
    then have "2 ^ 52 * b \<le> a" by (simp only: of_nat_le_iff)
    then show ?thesis using b0 by (rule round_even_ge [rotated])
  qed
qed

lemma f64_of_fraction_wf:
  assumes "d > 0"
  shows "f64_wf (f64_of_fraction neg n d)"
proof (cases "n = 0")
  case True
  then show ?thesis by (simp add: f64_of_fraction_def)
next
  case False
  obtain a b where ab: "scale n d (ulp_exponent n d) = (a, b)" by fastforce
  have lo: "ulp_exponent n d \<ge> - 1074" by (simp add: ulp_exponent_top)
  define E m where "E = ulp_exponent n d" and "m = round_even a b"
  have m: "m \<le> 2 ^ 53" "E > - 1074 \<Longrightarrow> 2 ^ 52 \<le> m" "E \<ge> - 1074"
    using mantissa_bounds [OF _ assms ab] False lo by (simp_all add: E_def m_def)
  have eq: "f64_of_fraction neg n d =
      (if m = 2 ^ 53 then (if E + 1 > 971 then Inf neg else Fin neg (2 ^ 52) (E + 1))
       else if E > 971 then Inf neg else Fin neg m E)"
  proof -
    have "(case scale n d (ulp_exponent n d) of (a, b) \<Rightarrow> round_even a b) = m"
      by (simp add: ab m_def)
    then show ?thesis unfolding f64_of_fraction_def Let_def E_def [symmetric] using False by simp
  qed
  show ?thesis
    using m by (cases "E > - 1074"; cases "m = 2 ^ 53") (auto simp: eq)
qed

end
