(* ===== verification/F_Parser.thy ===== *)
theory F_Parser
  imports F_Lexer F64
begin

text \<open>
  \<open>crates/aip-filtering/src/parser.rs\<close> and the AST of \<open>lib.rs\<close>. The parser state is the input, its
  tokens and a position. The grammar has two recursion points, \<open>expression\<close> and \<open>arg\<close>: they
  take fuel, every other production is a definition over them, as the methods call one another.
  A result is \<open>None\<close> when the fuel ran out; \<open>F_Parser_Total\<close> shows that the fuel \<open>parse_filter\<close>
  gives is always enough.
\<close>

subsection \<open>The AST (\<open>lib.rs\<close>)\<close>

datatype const =
  CInt int
| CUint nat
| CDouble f64
| CBool bool
| CString string
| CBytes string

datatype fexpr =
  Const const
| Ident string
| Select fexpr string
| Call string "fexpr list"

definition fn_AND :: string where "fn_AND = ''AND''"
definition fn_OR :: string where "fn_OR = ''OR''"
definition fn_NOT :: string where "fn_NOT = ''NOT''"
definition fn_FUZZY :: string where "fn_FUZZY = ''FUZZY''"

lemmas function_names = fn_AND_def fn_OR_def fn_NOT_def fn_FUZZY_def

subsection \<open>The cursor\<close>

record parser =
  ps_input :: string
  ps_tokens :: "token list"
  ps_pos :: nat

type_synonym 'a presult = "filter_error + 'a \<times> parser"

definition token_at :: "parser \<Rightarrow> nat \<Rightarrow> token option" where
  "token_at p i = (if i < length (ps_tokens p) then Some (ps_tokens p ! i) else None)"

definition peek_tok :: "parser \<Rightarrow> token option" where
  "peek_tok p = token_at p (ps_pos p)"

definition peek_type :: "parser \<Rightarrow> token_type option" where
  "peek_type p = map_option tk_ty (peek_tok p)"

definition bump_tok :: "parser \<Rightarrow> token option \<times> parser" where
  "bump_tok p =
     (case peek_tok p of
        None \<Rightarrow> (None, p)
      | Some t \<Rightarrow> (Some t, p\<lparr>ps_pos := ps_pos p + 1\<rparr>))"

definition eof_offset :: "parser \<Rightarrow> nat" where
  "eof_offset p = length (ps_input p)"

fun eat_from :: "parser \<Rightarrow> nat \<Rightarrow> token_type list \<Rightarrow> nat option" where
  "eat_from p i [] = Some i"
| "eat_from p i (ty # tys) =
     (case token_at p i of
        Some t \<Rightarrow> if tk_ty t = ty then eat_from p (i + 1) tys else None
      | None \<Rightarrow> None)"

definition eat :: "token_type list \<Rightarrow> parser \<Rightarrow> bool \<times> parser" where
  "eat types p =
     (case eat_from p (ps_pos p) types of
        Some i \<Rightarrow> (True, p\<lparr>ps_pos := i\<rparr>)
      | None \<Rightarrow> (False, p))"

fun sniff_from :: "parser \<Rightarrow> nat \<Rightarrow> (token_type \<Rightarrow> bool) list \<Rightarrow> bool" where
  "sniff_from p i [] = True"
| "sniff_from p i (P # Ps) =
     ((case token_at p i of Some t \<Rightarrow> P (tk_ty t) | None \<Rightarrow> False) \<and> sniff_from p (i + 1) Ps)"

definition sniff_preds :: "(token_type \<Rightarrow> bool) list \<Rightarrow> parser \<Rightarrow> bool" where
  "sniff_preds Ps p = sniff_from p (ps_pos p) Ps"

definition sniff :: "token_type list \<Rightarrow> parser \<Rightarrow> bool" where
  "sniff types p = sniff_preds (map (\<lambda>ty x. x = ty) types) p"

definition expect :: "(token_type \<Rightarrow> bool) \<Rightarrow> string \<Rightarrow> parser \<Rightarrow> token presult" where
  "expect P what p =
     (case peek_tok p of
        Some t \<Rightarrow>
          if P (tk_ty t) then Inr (t, snd (bump_tok p))
          else Inl (Syntax (tk_offset t) (''unexpected token `'' @ tk_value t @ ''`''))
      | None \<Rightarrow> Inl (Syntax (eof_offset p) (''expected '' @ what @ '', found end of input'')))"

definition unexpected :: "string \<Rightarrow> parser \<Rightarrow> filter_error" where
  "unexpected message p =
     (case peek_tok p of
        Some t \<Rightarrow> Syntax (tk_offset t) (''unexpected token `'' @ tk_value t @ ''`'')
      | None \<Rightarrow> Syntax (eof_offset p) message)"

definition unquote :: "token \<Rightarrow> filter_error + string" where
  "unquote t =
     (if tk_ty t = T_String
      then map_err (Syntax (tk_offset t)) (unescape (tk_value t))
      else Inr (tk_value t))"

definition left_parser :: "parser \<Rightarrow> nat" where
  "left_parser p = length (ps_tokens p) - ps_pos p"

lemma peek_tok_left: "peek_tok p = Some t \<Longrightarrow> left_parser p > 0"
  by (auto simp: peek_tok_def token_at_def left_parser_def split: if_splits)

lemma bump_tok_left: "peek_tok p \<noteq> None \<Longrightarrow> left_parser (snd (bump_tok p)) < left_parser p"
  by (auto simp: bump_tok_def peek_tok_def token_at_def left_parser_def split: if_splits)

lemma bump_tok_left_le: "left_parser (snd (bump_tok p)) \<le> left_parser p"
  by (auto simp: bump_tok_def left_parser_def split: option.splits)

lemma expect_left: "expect P w p = Inr (t, p') \<Longrightarrow> left_parser p' < left_parser p"
  using bump_tok_left [of p] by (auto simp: expect_def split: option.splits if_splits)

lemma eat_from_mono: "eat_from p i tys = Some j \<Longrightarrow> j = i + length tys \<and> (tys \<noteq> [] \<longrightarrow> j \<le> length (ps_tokens p))"
proof (induction p i tys rule: eat_from.induct)
  case (2 p i ty tys)
  then show ?case
    by (cases tys) (auto simp: token_at_def split: option.splits if_splits)
qed simp

lemma eat_left:
  assumes "eat tys p = (b, p')"
  shows "left_parser p' \<le> left_parser p" and "b \<Longrightarrow> tys \<noteq> [] \<Longrightarrow> left_parser p' < left_parser p"
proof -
  have "left_parser p' \<le> left_parser p \<and> (b \<and> tys \<noteq> [] \<longrightarrow> left_parser p' < left_parser p)"
  proof (cases "eat_from p (ps_pos p) tys")
    case None
    with assms show ?thesis by (auto simp: eat_def)
  next
    case (Some i)
    from eat_from_mono [OF Some]
    have i: "i = ps_pos p + length tys" "tys \<noteq> [] \<longrightarrow> i \<le> length (ps_tokens p)" by auto
    from Some assms have p': "p' = p\<lparr>ps_pos := i\<rparr>" by (auto simp: eat_def)
    show ?thesis using i by (cases tys) (auto simp: p' left_parser_def)
  qed
  then show "left_parser p' \<le> left_parser p" and "b \<Longrightarrow> tys \<noteq> [] \<Longrightarrow> left_parser p' < left_parser p"
    by auto
qed

subsection \<open>Leaves: members and numbers\<close>

function member_fields :: "fexpr \<Rightarrow> parser \<Rightarrow> fexpr presult" where
  "member_fields e p =
     (if peek_type p = Some T_Dot then
        (case expect is_field ''a field'' (snd (bump_tok p)) of
           Inl err \<Rightarrow> Inl err
         | Inr (field, p') \<Rightarrow>
             (case unquote field of
                Inl err \<Rightarrow> Inl err
              | Inr name \<Rightarrow> member_fields (Select e name) p'))
      else Inr (e, p))"
  by pat_completeness auto
termination
proof (relation "measure (\<lambda>(_, p). left_parser p)")
  fix e p q field p' name
  assume "expect is_field ''a field'' (snd (bump_tok p)) = Inr q" and "(field, p') = q"
  then have "left_parser p' < left_parser (snd (bump_tok p))" using expect_left by blast
  with bump_tok_left_le [of p] show "((Select e name, p'), e, p) \<in> measure (\<lambda>(_, p). left_parser p)"
    by simp
qed simp

declare member_fields.simps [simp del]

definition member_expr :: "parser \<Rightarrow> fexpr presult" where
  "member_expr p =
     (case expect is_value ''a value'' p of
        Inl err \<Rightarrow> Inl err
      | Inr (base, p1) \<Rightarrow>
          if peek_type p1 \<noteq> Some T_Dot then
            (if tk_ty base = T_String
             then res_bind (unquote base) (\<lambda>s. Inr (Const (CString s), p1))
             else Inr (Ident (tk_value base), p1))
          else res_bind (unquote base) (\<lambda>s. member_fields (Ident s) p1))"

text \<open>\<open>i64::from_str_radix\<close> on a run of digits: \<open>None\<close> for no digits or a value out of range.\<close>

definition radix_value :: "nat \<Rightarrow> string \<Rightarrow> nat option" where
  "radix_value radix s =
     fold (\<lambda>c acc. case acc of None \<Rightarrow> None
                   | Some n \<Rightarrow> (case hex_digit (byte c) of
                                 Some d \<Rightarrow> if d < radix then Some (radix * n + d) else None
                               | None \<Rightarrow> None)) s (Some 0)"

definition parse_i64 :: "nat \<Rightarrow> string \<Rightarrow> int option" where
  "parse_i64 radix s =
     (if s = [] then None
      else (case radix_value radix s of
              Some n \<Rightarrow> if n < 2 ^ 63 then Some (int n) else None
            | None \<Rightarrow> None))"

text \<open>\<open>if self.peek_type() == Some(ty) { self.bump() }\<close>, with the text of the token taken.\<close>

definition opt_tok :: "token_type \<Rightarrow> parser \<Rightarrow> string option \<times> parser" where
  "opt_tok ty p =
     (case peek_tok p of
        Some t \<Rightarrow> if tk_ty t = ty then (Some (tk_value t), snd (bump_tok p)) else (None, p)
      | None \<Rightarrow> (None, p))"

definition text_of :: "string option \<Rightarrow> string" where
  "text_of x = (case x of Some s \<Rightarrow> s | None \<Rightarrow> [])"

definition float_expr :: "parser \<Rightarrow> fexpr presult" where
  "float_expr p =
     (let offset = (case peek_tok p of Some t \<Rightarrow> tk_offset t | None \<Rightarrow> eof_offset p)
      in case opt_tok T_Minus p of (dash, p1) \<Rightarrow>
         (case opt_tok T_Number p1 of (ip, p2) \<Rightarrow>
          (case opt_tok T_Dot p2 of
             (None, _) \<Rightarrow> Inl (Syntax offset ''expected `.` in float'')
           | (Some _, p3) \<Rightarrow>
               (case opt_tok T_Number p3 of (fp, p4) \<Rightarrow>
                  if ip = None \<and> fp = None then Inl (Syntax offset ''expected digits in float'')
                  else
                    (let lit = (if dash = None then [] else ''-'') @ text_of ip @ ''.'' @ text_of fp
                     in case parse_f64 lit of
                          None \<Rightarrow> Inl (Syntax offset (''invalid float `'' @ lit @ ''`''))
                        | Some v \<Rightarrow> Inr (Const (CDouble v), p4))))))"

lemma opt_tok_left:
  "opt_tok ty p = (r, p') \<Longrightarrow> left_parser p' \<le> left_parser p \<and> (r \<noteq> None \<longrightarrow> left_parser p' < left_parser p)"
  using bump_tok_left [of p] by (auto simp: opt_tok_def split: option.splits if_splits)

definition int_expr :: "parser \<Rightarrow> fexpr presult" where
  "int_expr p =
     (let negative = (peek_type p = Some T_Minus);
          p = (if negative then snd (bump_tok p) else p)
      in case peek_tok p of
           None \<Rightarrow> Inl (unexpected ''expected an integer'' p)
         | Some t \<Rightarrow>
             if tk_ty t \<noteq> T_Number \<and> tk_ty t \<noteq> T_HexNumber
             then Inl (unexpected ''expected an integer'' p)
             else
               (let p = snd (bump_tok p);
                    magnitude =
                      (if tk_ty t = T_HexNumber then
                         parse_i64 16
                           (case strip_prefix ''0x'' (tk_value t) of
                              Some h \<Rightarrow> h
                            | None \<Rightarrow> (case strip_prefix ''0X'' (tk_value t) of
                                        Some h \<Rightarrow> h | None \<Rightarrow> tk_value t))
                       else parse_i64 10 (tk_value t))
                in case magnitude of
                     None \<Rightarrow> Inl (Syntax (tk_offset t) (''invalid integer `'' @ tk_value t @ ''`''))
                   | Some m \<Rightarrow> Inr (Const (CInt (if negative then - m else m)), p)))"

definition number_expr :: "parser \<Rightarrow> fexpr presult" where
  "number_expr p = (case float_expr p of Inr r \<Rightarrow> Inr r | Inl _ \<Rightarrow> int_expr p)"

subsection \<open>Productions over the two recursion points\<close>

type_synonym production = "parser \<Rightarrow> fexpr presult option"

definition pbind :: "'a presult option \<Rightarrow> ('a \<Rightarrow> parser \<Rightarrow> 'b presult option) \<Rightarrow> 'b presult option" where
  "pbind m f =
     (case m of
        None \<Rightarrow> None
      | Some (Inl e) \<Rightarrow> Some (Inl e)
      | Some (Inr (x, p)) \<Rightarrow> f x p)"

definition fold_left :: "fexpr list \<Rightarrow> string \<Rightarrow> fexpr" where
  "fold_left es fn = foldl (\<lambda>acc e. Call fn [acc, e]) (hd es) (tl es)"

function function_name :: "string \<Rightarrow> parser \<Rightarrow> string presult" where
  "function_name name p =
     (case expect is_name ''a function name'' p of
        Inl err \<Rightarrow> Inl err
      | Inr (t, p1) \<Rightarrow>
          (case eat [T_Dot] p1 of
             (True, p2) \<Rightarrow> function_name (name @ tk_value t @ ''.'') p2
           | (False, p2) \<Rightarrow> Inr (name @ tk_value t, p2)))"
  by pat_completeness auto
termination
proof (relation "measure (\<lambda>(_, p). left_parser p)")
  fix name p q t p1 b p2
  assume "expect is_name ''a function name'' p = Inr q" and "(t, p1) = q"
    and "(b, p2) = eat [T_Dot] p1" and "b = True"
  then have "left_parser p1 < left_parser p" and "left_parser p2 \<le> left_parser p1"
    using expect_left eat_left(1) [of "[T_Dot]" p1 b p2] by (blast, simp)
  then show "((name @ tk_value t @ ''.'', p2), name, p) \<in> measure (\<lambda>(_, p). left_parser p)"
    by simp
qed simp

declare function_name.simps [simp del]

text \<open>\<open>while !sniff(RIGHTPAREN) { args.push(arg); ... }\<close>; the first argument counts its rounds.\<close>

fun function_args :: "nat \<Rightarrow> production \<Rightarrow> fexpr list \<Rightarrow> parser \<Rightarrow> fexpr list presult option" where
  "function_args 0 arg args p = None"
| "function_args (Suc n) arg args p =
     (if sniff [T_RightParen] p then Some (Inr (args, p))
      else
        pbind (arg p) (\<lambda>a p1.
          case eat [T_Comma] (snd (eat [T_Whitespace] p1)) of
            (False, p2) \<Rightarrow> Some (Inr (args @ [a], p2))
          | (True, p2) \<Rightarrow> function_args n arg (args @ [a]) (snd (eat [T_Whitespace] p2))))"

definition rounds :: "parser \<Rightarrow> nat" where
  "rounds p = Suc (length (ps_tokens p))"

definition function_expr :: "production \<Rightarrow> production" where
  "function_expr arg p =
     (case function_name [] p of
        Inl err \<Rightarrow> Some (Inl err)
      | Inr (name, p1) \<Rightarrow>
          (case eat [T_LeftParen] p1 of
             (False, p2) \<Rightarrow> Some (Inl (unexpected ''expected `(`'' p2))
           | (True, p2) \<Rightarrow>
               pbind (function_args (rounds p) arg [] (snd (eat [T_Whitespace] p2))) (\<lambda>args p3.
                 case eat [T_RightParen] (snd (eat [T_Whitespace] p3)) of
                   (False, p4) \<Rightarrow> Some (Inl (unexpected ''expected `)`'' p4))
                 | (True, p4) \<Rightarrow> Some (Inr (Call name args, p4)))))"

definition comparable :: "production \<Rightarrow> production" where
  "comparable arg p =
     (case function_expr arg p of
        None \<Rightarrow> None
      | Some (Inr r) \<Rightarrow> Some (Inr r)
      | Some (Inl _) \<Rightarrow>
          (case number_expr p of
             Inr r \<Rightarrow> Some (Inr r)
           | Inl _ \<Rightarrow> Some (member_expr p)))"

definition composite :: "production \<Rightarrow> production" where
  "composite ex p =
     (case expect (\<lambda>ty. ty = T_LeftParen) ''`(`'' p of
        Inl err \<Rightarrow> Some (Inl err)
      | Inr (_, p1) \<Rightarrow>
          pbind (ex (snd (eat [T_Whitespace] p1))) (\<lambda>e p2.
            case expect (\<lambda>ty. ty = T_RightParen) ''`)`'' (snd (eat [T_Whitespace] p2)) of
              Inl err \<Rightarrow> Some (Inl err)
            | Inr (_, p3) \<Rightarrow> Some (Inr (e, p3))))"

definition restriction :: "production \<Rightarrow> production" where
  "restriction arg p =
     pbind (comparable arg p) (\<lambda>c p1.
       if \<not> sniff_preds [is_comparator] p1
          \<and> \<not> sniff_preds [\<lambda>ty. ty = T_Whitespace, is_comparator] p1
       then Some (Inr (c, p1))
       else
         (case expect is_comparator ''a comparator'' (snd (eat [T_Whitespace] p1)) of
            Inl err \<Rightarrow> Some (Inl err)
          | Inr (comparator, p2) \<Rightarrow>
              pbind (arg (snd (eat [T_Whitespace] p2))) (\<lambda>a p3.
                let a' = (if tk_ty comparator = T_Has
                          then (case a of Ident name \<Rightarrow> Const (CString name) | _ \<Rightarrow> a) else a)
                in Some (Inr (Call (the (comparison_function (tk_ty comparator))) [c, a'], p3)))))"

definition simple_expr :: "production \<Rightarrow> production \<Rightarrow> production" where
  "simple_expr ex arg p = (if sniff [T_LeftParen] p then composite ex p else restriction arg p)"

definition term_expr :: "production \<Rightarrow> production \<Rightarrow> production" where
  "term_expr ex arg p =
     (let (negated, p1) = eat [T_Not, T_Whitespace] p;
          (dash, p2) = (if negated then (False, p1) else eat [T_Minus] p1)
      in pbind (simple_expr ex arg p2) (\<lambda>s p3.
           if dash then
             (case s of
                Const (CInt v) \<Rightarrow> Some (Inr (Const (CInt (- v)), p3))
              | Const (CDouble v) \<Rightarrow> Some (Inr (Const (CDouble (f64_neg v)), p3))
              | _ \<Rightarrow> Some (Inr (Call fn_NOT [s], p3)))
           else if negated then Some (Inr (Call fn_NOT [s], p3))
           else Some (Inr (s, p3))))"

fun factor_loop :: "nat \<Rightarrow> production \<Rightarrow> production \<Rightarrow> fexpr list \<Rightarrow> parser \<Rightarrow> fexpr list presult option" where
  "factor_loop 0 ex arg terms p = None"
| "factor_loop (Suc n) ex arg terms p =
     pbind (term_expr ex arg p) (\<lambda>t p1.
       case eat [T_Whitespace, T_Or, T_Whitespace] p1 of
         (False, p2) \<Rightarrow> Some (Inr (terms @ [t], p2))
       | (True, p2) \<Rightarrow> factor_loop n ex arg (terms @ [t]) p2)"

definition factor :: "production \<Rightarrow> production \<Rightarrow> production" where
  "factor ex arg p =
     pbind (factor_loop (rounds p) ex arg [] p) (\<lambda>ts p1. Some (Inr (fold_left ts fn_OR, p1)))"

fun sequence_loop :: "nat \<Rightarrow> production \<Rightarrow> production \<Rightarrow> fexpr list \<Rightarrow> parser \<Rightarrow> fexpr list presult option" where
  "sequence_loop 0 ex arg factors p = None"
| "sequence_loop (Suc n) ex arg factors p =
     pbind (factor ex arg p) (\<lambda>f p1.
       if sniff [T_Whitespace, T_And] p1 then Some (Inr (factors @ [f], p1))
       else (case eat [T_Whitespace] p1 of
               (False, p2) \<Rightarrow> Some (Inr (factors @ [f], p2))
             | (True, p2) \<Rightarrow> sequence_loop n ex arg (factors @ [f]) p2))"

definition sequence_expr :: "production \<Rightarrow> production \<Rightarrow> production" where
  "sequence_expr ex arg p =
     pbind (sequence_loop (rounds p) ex arg [] p) (\<lambda>fs p1. Some (Inr (fold_left fs fn_FUZZY, p1)))"

fun expression_loop :: "nat \<Rightarrow> production \<Rightarrow> production \<Rightarrow> fexpr list \<Rightarrow> parser \<Rightarrow> fexpr list presult option" where
  "expression_loop 0 ex arg sequences p = None"
| "expression_loop (Suc n) ex arg sequences p =
     pbind (sequence_expr ex arg (snd (eat [T_Whitespace] p))) (\<lambda>s p1.
       case eat [T_Whitespace, T_And, T_Whitespace] p1 of
         (False, p2) \<Rightarrow> Some (Inr (sequences @ [s], p2))
       | (True, p2) \<Rightarrow> expression_loop n ex arg (sequences @ [s]) p2)"

text \<open>Tying the knot: one unit of fuel per parenthesis level.\<close>

fun expression :: "nat \<Rightarrow> production"
and arg_expr :: "nat \<Rightarrow> production" where
  "expression 0 p = None"
| "expression (Suc n) p =
     pbind (expression_loop (rounds p) (expression n) (arg_expr n) [] p)
       (\<lambda>ss p1. Some (Inr (fold_left ss fn_AND, p1)))"
| "arg_expr 0 p = None"
| "arg_expr (Suc n) p =
     (if sniff [T_LeftParen] p then composite (expression n) p else comparable (arg_expr n) p)"

definition parse_fuel :: "nat \<Rightarrow> string \<Rightarrow> (filter_error + fexpr) option" where
  "parse_fuel fuel filtr =
     (case tokenize filtr of
        Inl e \<Rightarrow> Some (Inl e)
      | Inr tokens \<Rightarrow>
          if list_all (\<lambda>t. tk_ty t = T_Whitespace) tokens
          then Some (Inl (Syntax 0 ''empty filter''))
          else
            (let tokens = rev (dropWhile (\<lambda>t. tk_ty t = T_Whitespace) (rev tokens));
                 p = \<lparr>ps_input = filtr, ps_tokens = tokens, ps_pos = 0\<rparr>
             in case expression fuel p of
                  None \<Rightarrow> None
                | Some (Inl e) \<Rightarrow> Some (Inl e)
                | Some (Inr (e, p1)) \<Rightarrow>
                    (case peek_tok p1 of
                       Some t \<Rightarrow> Some (Inl (Syntax (tk_offset t)
                                   (''unexpected trailing token `'' @ tk_value t @ ''`'')))
                     | None \<Rightarrow> Some (Inr e))))"

text \<open>The fuel: one level more than the filter has bytes, so than it has tokens.\<close>

definition parse_filter :: "string \<Rightarrow> filter_error + fexpr" where
  "parse_filter filtr = the (parse_fuel (length filtr + 1) filtr)"

end
