(* ===== verification/F_Parser_Total.thy ===== *)
theory F_Parser_Total
  imports F_Parser
begin

text \<open>
  The parser always returns, consumes at least one token for every expression it returns, and
  keeps any property of expressions that its own constructions keep. The locale states what the
  productions need; it is interpreted with the range of the numeric literals.
\<close>

locale ast_invariant =
  fixes Q :: "fexpr \<Rightarrow> bool"
  assumes Q_ident: "Q (Ident name)"
    and Q_string: "Q (Const (CString s))"
    and Q_int: "- (2 ^ 63) < v \<Longrightarrow> v < 2 ^ 63 \<Longrightarrow> Q (Const (CInt v))"
    and Q_double: "f64_wf d \<Longrightarrow> Q (Const (CDouble d))"
    and Q_select: "Q e \<Longrightarrow> Q (Select e field)"
    and Q_call: "list_all Q args \<Longrightarrow> Q (Call fn args)"
    and Q_neg_int: "Q (Const (CInt v)) \<Longrightarrow> Q (Const (CInt (- v)))"
    and Q_neg_double: "Q (Const (CDouble d)) \<Longrightarrow> Q (Const (CDouble (f64_neg d)))"
begin

definition good_result :: "parser \<Rightarrow> fexpr presult \<Rightarrow> bool" where
  "good_result p r = (case r of Inl _ \<Rightarrow> True | Inr (e, p') \<Rightarrow> left_parser p' < left_parser p \<and> Q e)"

definition good_results :: "parser \<Rightarrow> fexpr list presult \<Rightarrow> bool" where
  "good_results p r =
     (case r of Inl _ \<Rightarrow> True | Inr (es, p') \<Rightarrow> left_parser p' \<le> left_parser p \<and> list_all Q es)"

definition upto :: "nat \<Rightarrow> production \<Rightarrow> bool" where
  "upto k F \<longleftrightarrow> (\<forall>p. left_parser p < k \<longrightarrow> (\<exists>r. F p = Some r \<and> good_result p r))"

lemma good_result_simps [simp]:
  "good_result p (Inl e)"
  "good_result p (Inr (x, p')) \<longleftrightarrow> left_parser p' < left_parser p \<and> Q x"
  "good_results p (Inl e)"
  "good_results p (Inr (xs, p')) \<longleftrightarrow> left_parser p' \<le> left_parser p \<and> list_all Q xs"
  by (simp_all add: good_result_def good_results_def)

lemma good_result_mono: "good_result p r \<Longrightarrow> left_parser p \<le> left_parser q \<Longrightarrow> good_result q r"
  by (auto simp: good_result_def split: sum.splits)

lemma upto_cases:
  assumes "upto k F" and "left_parser p < k"
  obtains (err) e where "F p = Some (Inl e)"
    | (ok) e p' where "F p = Some (Inr (e, p'))" "left_parser p' < left_parser p" "Q e"
  using assms unfolding upto_def good_result_def by (fastforce split: sum.splits)

lemma eat_le [simp]: "left_parser (snd (eat tys p)) \<le> left_parser p"
  using eat_left(1) [of tys p] by (cases "eat tys p") auto

lemma member_fields_good: "Q e \<Longrightarrow> member_fields e p = Inr (e', p') \<Longrightarrow> left_parser p' \<le> left_parser p \<and> Q e'"
proof (induction e p rule: member_fields.induct)
  case (1 e p)
  show ?case
  proof (cases "peek_type p = Some T_Dot")
    case False
    with 1 show ?thesis by (simp add: member_fields.simps [of e p])
  next
    case True
    with 1(3) obtain t p1 name where ex: "expect is_field ''a field'' (snd (bump_tok p)) = Inr (t, p1)"
      "unquote t = Inr name" "member_fields (Select e name) p1 = Inr (e', p')"
      by (auto simp: member_fields.simps [of e p] split: sum.splits)
    have "left_parser p1 < left_parser (snd (bump_tok p))" by (rule expect_left [OF ex(1)])
    with 1(1) [OF True ex(1) refl ex(2) Q_select [OF 1(2)] ex(3)] bump_tok_left_le [of p]
    show ?thesis by auto
  qed
qed

lemma member_good: "good_result p (member_expr p)"
proof (cases "expect is_value ''a value'' p")
  case (Inl e)
  then show ?thesis by (simp add: member_expr_def)
next
  case (Inr q)
  obtain t p1 where q: "q = (t, p1)" by (cases q)
  from expect_left [of is_value "''a value''" p t p1] Inr q have lt: "left_parser p1 < left_parser p" by simp
  show ?thesis
  proof (cases "member_expr p")
    case ok: (Inr r)
    obtain e p' where r: "r = (e, p')" by (cases r)
    from ok Inr q lt show ?thesis
      by (auto simp: member_expr_def res_bind_Inr_iff Q_ident Q_string r split: if_splits
          dest!: member_fields_good [OF Q_ident])
  qed simp
qed

lemma radix_fold_None [simp]:
  "fold (\<lambda>c acc. case acc of None \<Rightarrow> None
                   | Some n \<Rightarrow> (case hex_digit (byte c) of
                                 Some d \<Rightarrow> if d < radix then Some (radix * n + d) else None
                               | None \<Rightarrow> None)) s None = None"
  by (induction s) auto

lemma parse_i64_range: "parse_i64 radix s = Some v \<Longrightarrow> 0 \<le> v \<and> v < 2 ^ 63"
  by (auto simp: parse_i64_def split: if_splits option.splits)

lemma int_good: "good_result p (int_expr p)"
proof (cases "int_expr p")
  case (Inr r)
  define q where "q = (if peek_type p = Some T_Minus then snd (bump_tok p) else p)"
  have q: "left_parser q \<le> left_parser p" using bump_tok_left_le [of p] by (simp add: q_def)
  from Inr obtain t where t: "peek_tok q = Some t"
    by (auto simp: int_expr_def Let_def q_def split: option.splits)
  have lt: "left_parser (snd (bump_tok q)) < left_parser q" using bump_tok_left [of q] t by simp
  have r: "\<exists>m radix s. parse_i64 radix s = Some m
      \<and> r = (Const (CInt (if peek_type p = Some T_Minus then - m else m)), snd (bump_tok q))"
    using Inr t by (fastforce simp: int_expr_def Let_def q_def [symmetric] split: option.splits if_splits)
  then show ?thesis using q lt parse_i64_range Inr
    by (fastforce intro!: Q_int)
qed simp

lemma parse_f64_wf: "parse_f64 s = Some v \<Longrightarrow> f64_wf v"
  by (auto simp: parse_f64_def Let_def f64_of_fraction_wf split: prod.splits if_splits)

lemma float_good: "good_result p (float_expr p)"
proof -
  obtain m p1 where 1: "opt_tok T_Minus p = (m, p1)" by fastforce
  obtain i p2 where 2: "opt_tok T_Number p1 = (i, p2)" by fastforce
  obtain d p3 where 3: "opt_tok T_Dot p2 = (d, p3)" by fastforce
  obtain f p4 where 4: "opt_tok T_Number p3 = (f, p4)" by fastforce
  show ?thesis
    using opt_tok_left [OF 1] opt_tok_left [OF 2] opt_tok_left [OF 3] opt_tok_left [OF 4]
    by (auto simp: float_expr_def Let_def 1 2 3 4 parse_f64_wf Q_double split: option.splits)
qed

lemma number_good: "good_result p (number_expr p)"
  using float_good [of p] int_good [of p] by (auto simp: number_expr_def split: sum.splits)

lemma function_name_left: "function_name n p = Inr (m, p') \<Longrightarrow> left_parser p' < left_parser p"
proof (induction n p rule: function_name.induct)
  case (1 n p)
  from 1(2) obtain t p1 where ex: "expect is_name ''a function name'' p = Inr (t, p1)"
    by (auto simp: function_name.simps [of n p] split: sum.splits)
  have lt: "left_parser p1 < left_parser p" by (rule expect_left [OF ex])
  obtain b p2 where e: "eat [T_Dot] p1 = (b, p2)" by fastforce
  have le: "left_parser p2 \<le> left_parser p1" by (rule eat_left(1) [OF e])
  show ?case
  proof (cases b)
    case True
    with 1 ex e lt le show ?thesis by (force simp: function_name.simps [of n p])
  next
    case False
    with 1(2) ex e lt le show ?thesis by (auto simp: function_name.simps [of n p])
  qed
qed

lemma eat_le2: "left_parser p \<le> n \<Longrightarrow> left_parser (snd (eat tys p)) \<le> n"
  by (rule order.trans [OF eat_le])

lemma eat_less: "left_parser p < n \<Longrightarrow> left_parser (snd (eat tys p)) < n"
  by (rule order.strict_trans1 [OF eat_le])

lemma function_args_good:
  assumes arg: "upto k arg"
  shows "left_parser p < n \<Longrightarrow> left_parser p < k \<Longrightarrow> list_all Q args \<Longrightarrow>
    \<exists>r. function_args n arg args p = Some r \<and> good_results p r"
proof (induction n arbitrary: args p)
  case 0
  then show ?case by simp
next
  case (Suc n)
  show ?case
  proof (cases "sniff [T_RightParen] p")
    case True
    with Suc.prems show ?thesis by simp
  next
    case False
    show ?thesis
    proof (rule upto_cases [OF arg Suc.prems(2)])
      fix e
      assume "arg p = Some (Inl e)"
      with False show ?thesis by (simp add: pbind_def)
    next
      fix e p1
      assume a: "arg p = Some (Inr (e, p1))" and lt: "left_parser p1 < left_parser p" and e: "Q e"
      obtain b p2 where c: "eat [T_Comma] (snd (eat [T_Whitespace] p1)) = (b, p2)" by fastforce
      have p2: "left_parser p2 < left_parser p"
        using eat_left(1) [OF c] eat_less [OF lt] by (rule order.strict_trans1)
      have p3: "left_parser (snd (eat [T_Whitespace] p2)) < left_parser p" by (rule eat_less [OF p2])
      show ?thesis
      proof (cases b)
        case True
        have "\<exists>r. function_args n arg (args @ [e]) (snd (eat [T_Whitespace] p2)) = Some r
                \<and> good_results (snd (eat [T_Whitespace] p2)) r"
          using Suc.prems p3 e by (intro Suc.IH) auto
        with True False a c p3 show ?thesis
          by (auto simp: pbind_def good_results_def split: sum.splits)
      next
        case notb: False
        with False a c p2 e Suc.prems show ?thesis by (simp add: pbind_def)
      qed
    qed
  qed
qed

lemma left_rounds: "left_parser p < rounds p"
  by (simp add: left_parser_def rounds_def)

lemma function_good: "upto k arg \<Longrightarrow> upto (Suc k) (function_expr arg)"
  unfolding upto_def [of "Suc k"]
proof (intro allI impI)
  fix p
  assume arg: "upto k arg" and lt: "left_parser p < Suc k"
  show "\<exists>r. function_expr arg p = Some r \<and> good_result p r"
  proof (cases "function_name [] p")
    case (Inl e)
    then show ?thesis by (simp add: function_expr_def)
  next
    case (Inr q)
    obtain name p1 where q: "q = (name, p1)" by (cases q)
    have p1: "left_parser p1 < left_parser p" using function_name_left Inr q by blast
    obtain b p2 where e: "eat [T_LeftParen] p1 = (b, p2)" by fastforce
    have p2: "left_parser p2 < left_parser p" using eat_left(1) [OF e] p1 by simp
    show ?thesis
    proof (cases b)
      case False
      with Inr q e show ?thesis by (simp add: function_expr_def)
    next
      case True
      define p3 where "p3 = snd (eat [T_Whitespace] p2)"
      have p3: "left_parser p3 < left_parser p" unfolding p3_def by (rule eat_less [OF p2])
      obtain r where r: "function_args (rounds p) arg [] p3 = Some r" "good_results p3 r"
        using function_args_good [OF arg, of p3 "rounds p" "[]"] p3 lt left_rounds [of p] by auto
      show ?thesis
      proof (cases r)
        case (Inl err)
        with True Inr q e r show ?thesis by (simp add: function_expr_def pbind_def p3_def)
      next
        case r2: (Inr s)
        obtain args p4 where s: "s = (args, p4)" by (cases s)
        obtain c p5 where f: "eat [T_RightParen] (snd (eat [T_Whitespace] p4)) = (c, p5)" by fastforce
        have "left_parser p5 \<le> left_parser p4"
          using eat_left(1) [OF f] eat_le [of "[T_Whitespace]" p4] by linarith
        then have "left_parser p5 < left_parser p" using r r2 s p3 by simp
        with True Inr q e r r2 s f show ?thesis
          by (cases c) (simp_all add: function_expr_def pbind_def p3_def Q_call)
      qed
    qed
  qed
qed

lemma comparable_good: "upto k arg \<Longrightarrow> upto (Suc k) (comparable arg)"
  unfolding upto_def [of "Suc k" "comparable arg"]
proof (intro allI impI)
  fix p
  assume "upto k arg" and "left_parser p < Suc k"
  then obtain r where "function_expr arg p = Some r" "good_result p r"
    using function_good [of k arg] by (auto simp: upto_def)
  then show "\<exists>r. comparable arg p = Some r \<and> good_result p r"
    using number_good [of p] member_good [of p] by (auto simp: comparable_def split: sum.splits)
qed

lemma composite_good: "upto k ex \<Longrightarrow> upto (Suc k) (composite ex)"
  unfolding upto_def [of "Suc k"]
proof (intro allI impI)
  fix p
  assume ex: "upto k ex" and lt: "left_parser p < Suc k"
  show "\<exists>r. composite ex p = Some r \<and> good_result p r"
  proof (cases "expect (\<lambda>ty. ty = T_LeftParen) ''`(`'' p")
    case (Inl e)
    then show ?thesis by (simp add: composite_def)
  next
    case (Inr q)
    obtain t p1 where q: "q = (t, p1)" by (cases q)
    have p1: "left_parser p1 < left_parser p" using expect_left Inr q by blast
    have p2: "left_parser (snd (eat [T_Whitespace] p1)) < left_parser p" by (rule eat_less [OF p1])
    then have p2k: "left_parser (snd (eat [T_Whitespace] p1)) < k" using lt by simp
    show ?thesis
    proof (rule upto_cases [OF ex p2k])
      fix e
      assume "ex (snd (eat [T_Whitespace] p1)) = Some (Inl e)"
      with Inr q show ?thesis by (simp add: composite_def pbind_def)
    next
      fix e p3
      assume a: "ex (snd (eat [T_Whitespace] p1)) = Some (Inr (e, p3))" and e: "Q e"
        and lt3: "left_parser p3 < left_parser (snd (eat [T_Whitespace] p1))"
      show ?thesis
      proof (cases "expect (\<lambda>ty. ty = T_RightParen) ''`)`'' (snd (eat [T_Whitespace] p3))")
        case (Inl err)
        with Inr q a show ?thesis by (simp add: composite_def pbind_def)
      next
        case r: (Inr s)
        obtain t2 p4 where s: "s = (t2, p4)" by (cases s)
        have "left_parser p4 < left_parser (snd (eat [T_Whitespace] p3))" using expect_left r s by blast
        then have "left_parser p4 < left_parser p"
          using eat_le [of "[T_Whitespace]" p3] lt3 p2 by linarith
        with Inr q a r s e show ?thesis by (simp add: composite_def pbind_def)
      qed
    qed
  qed
qed

lemma restriction_good: "upto k arg \<Longrightarrow> upto (Suc k) (restriction arg)"
  unfolding upto_def [of "Suc k"]
proof (intro allI impI)
  fix p
  assume arg: "upto k arg" and lt: "left_parser p < Suc k"
  show "\<exists>r. restriction arg p = Some r \<and> good_result p r"
  proof (rule upto_cases [OF comparable_good [OF arg] lt])
    fix e
    assume "comparable arg p = Some (Inl e)"
    then show ?thesis by (simp add: restriction_def pbind_def)
  next
    fix c p1
    assume c: "comparable arg p = Some (Inr (c, p1))" "Q c" and lt1: "left_parser p1 < left_parser p"
    show ?thesis
    proof (cases "\<not> sniff_preds [is_comparator] p1 \<and> \<not> sniff_preds [\<lambda>ty. ty = T_Whitespace, is_comparator] p1")
      case True
      with c lt1 show ?thesis by (simp add: restriction_def pbind_def)
    next
      case sniffed: False
      show ?thesis
      proof (cases "expect is_comparator ''a comparator'' (snd (eat [T_Whitespace] p1))")
        case (Inl e)
        with sniffed c show ?thesis by (auto simp: restriction_def pbind_def)
      next
        case (Inr q)
        obtain t p2 where q: "q = (t, p2)" by (cases q)
        have "left_parser p2 < left_parser (snd (eat [T_Whitespace] p1))" using expect_left Inr q by blast
        then have p2: "left_parser p2 < left_parser p"
          using eat_le [of "[T_Whitespace]" p1] lt1 by linarith
        have p3: "left_parser (snd (eat [T_Whitespace] p2)) < left_parser p" by (rule eat_less [OF p2])
        then have p3k: "left_parser (snd (eat [T_Whitespace] p2)) < k" using lt by simp
        show ?thesis
        proof (rule upto_cases [OF arg p3k])
          fix e
          assume "arg (snd (eat [T_Whitespace] p2)) = Some (Inl e)"
          with sniffed c Inr q show ?thesis by (auto simp: restriction_def pbind_def)
        next
          fix a p4
          assume a: "arg (snd (eat [T_Whitespace] p2)) = Some (Inr (a, p4))" "Q a"
            and lt4: "left_parser p4 < left_parser (snd (eat [T_Whitespace] p2))"
          have "Q (case a of Ident name \<Rightarrow> Const (CString name) | _ \<Rightarrow> a)"
            using a(2) by (auto simp: Q_string split: fexpr.splits)
          with sniffed c Inr q a lt4 p3 show ?thesis
            by (auto simp: restriction_def pbind_def Let_def intro!: Q_call)
        qed
      qed
    qed
  qed
qed

lemma simple_good: "upto k ex \<Longrightarrow> upto k arg \<Longrightarrow> upto (Suc k) (simple_expr ex arg)"
  using composite_good [of k ex] restriction_good [of k arg]
  by (simp add: upto_def simple_expr_def)

lemma term_good: "upto k ex \<Longrightarrow> upto k arg \<Longrightarrow> upto (Suc k) (term_expr ex arg)"
  unfolding upto_def [of "Suc k" "term_expr ex arg"]
proof (intro allI impI)
  fix p
  assume ex: "upto k ex" and arg: "upto k arg" and lt: "left_parser p < Suc k"
  obtain n p1 where n: "eat [T_Not, T_Whitespace] p = (n, p1)" by fastforce
  obtain m p2 where m: "(if n then (False, p1) else eat [T_Minus] p1) = (m, p2)" by fastforce
  have "left_parser p2 \<le> left_parser p1" using m eat_left(1) [of "[T_Minus]" p1 m p2] by (auto split: if_splits)
  then have le: "left_parser p2 \<le> left_parser p" using eat_left(1) [OF n] by simp
  then have lt2: "left_parser p2 < Suc k" using lt by simp
  show "\<exists>r. term_expr ex arg p = Some r \<and> good_result p r"
  proof (rule upto_cases [OF simple_good [OF ex arg] lt2])
    fix e
    assume "simple_expr ex arg p2 = Some (Inl e)"
    with n m show ?thesis by (simp add: term_expr_def pbind_def)
  next
    fix s p3
    assume s: "simple_expr ex arg p2 = Some (Inr (s, p3))" "left_parser p3 < left_parser p2" "Q s"
    then have "left_parser p3 < left_parser p" using le by simp
    with n m s show ?thesis
      by (auto simp: term_expr_def pbind_def split: fexpr.splits const.splits
          intro: Q_call Q_neg_int Q_neg_double)
  qed
qed

text \<open>The three repetition loops: at least one operand, and the cursor moved.\<close>

definition good_list :: "parser \<Rightarrow> fexpr list presult \<Rightarrow> bool" where
  "good_list p r =
     (case r of Inl _ \<Rightarrow> True
      | Inr (es, p') \<Rightarrow> left_parser p' < left_parser p \<and> es \<noteq> [] \<and> list_all Q es)"

lemma good_list_simps [simp]:
  "good_list p (Inl e)"
  "good_list p (Inr (es, p')) \<longleftrightarrow> left_parser p' < left_parser p \<and> es \<noteq> [] \<and> list_all Q es"
  by (simp_all add: good_list_def)

lemma good_list_mono: "good_list p r \<Longrightarrow> left_parser p \<le> left_parser q \<Longrightarrow> good_list q r"
  by (auto simp: good_list_def split: sum.splits)

lemma fold_left_Q: "es \<noteq> [] \<Longrightarrow> list_all Q es \<Longrightarrow> Q (fold_left es fn)"
proof -
  have "Q a \<Longrightarrow> list_all Q es \<Longrightarrow> Q (foldl (\<lambda>acc e. Call fn [acc, e]) a es)" for a es
    by (induction es arbitrary: a) (auto simp: Q_call)
  then show "es \<noteq> [] \<Longrightarrow> list_all Q es \<Longrightarrow> Q (fold_left es fn)"
    by (cases es) (auto simp: fold_left_def)
qed

lemma fold_good:
  assumes "\<exists>r. m = Some r \<and> good_list p r"
  shows "\<exists>r. pbind m (\<lambda>es p1. Some (Inr (fold_left es fn, p1))) = Some r \<and> good_result p r"
proof -
  from assms obtain r where r: "m = Some r" "good_list p r" by blast
  then show ?thesis by (cases r) (auto simp: pbind_def fold_left_Q)
qed

lemma factor_loop_good:
  assumes ex: "upto k ex" and arg: "upto k arg"
  shows "left_parser p < n \<Longrightarrow> left_parser p < Suc k \<Longrightarrow> list_all Q terms \<Longrightarrow>
    \<exists>r. factor_loop n ex arg terms p = Some r \<and> good_list p r"
proof (induction n arbitrary: terms p)
  case (Suc n)
  show ?case
  proof (rule upto_cases [OF term_good [OF ex arg] Suc.prems(2)])
    fix e
    assume "term_expr ex arg p = Some (Inl e)"
    then show ?thesis by (simp add: pbind_def)
  next
    fix e p1
    assume a: "term_expr ex arg p = Some (Inr (e, p1))" and lt: "left_parser p1 < left_parser p" and e: "Q e"
    obtain b p2 where c: "eat [T_Whitespace, T_Or, T_Whitespace] p1 = (b, p2)" by fastforce
    have p2: "left_parser p2 < left_parser p" using eat_left(1) [OF c] lt by simp
    show ?thesis
    proof (cases b)
      case True
      obtain r where "factor_loop n ex arg (terms @ [e]) p2 = Some r" "good_list p2 r"
        using Suc.IH [of p2 "terms @ [e]"] Suc.prems p2 e by auto
      with True a c p2 good_list_mono show ?thesis by (simp add: pbind_def)
    next
      case False
      with a c p2 e Suc.prems show ?thesis by (simp add: pbind_def)
    qed
  qed
qed simp

lemma factor_good: "upto k ex \<Longrightarrow> upto k arg \<Longrightarrow> upto (Suc k) (factor ex arg)"
  unfolding upto_def [of "Suc k"] factor_def
  by (intro allI impI fold_good factor_loop_good) (simp_all add: left_rounds)

lemma sequence_loop_good:
  assumes ex: "upto k ex" and arg: "upto k arg"
  shows "left_parser p < n \<Longrightarrow> left_parser p < Suc k \<Longrightarrow> list_all Q factors \<Longrightarrow>
    \<exists>r. sequence_loop n ex arg factors p = Some r \<and> good_list p r"
proof (induction n arbitrary: factors p)
  case (Suc n)
  show ?case
  proof (rule upto_cases [OF factor_good [OF ex arg] Suc.prems(2)])
    fix e
    assume "factor ex arg p = Some (Inl e)"
    then show ?thesis by (simp add: pbind_def)
  next
    fix e p1
    assume a: "factor ex arg p = Some (Inr (e, p1))" and lt: "left_parser p1 < left_parser p" and e: "Q e"
    obtain b p2 where c: "eat [T_Whitespace] p1 = (b, p2)" by fastforce
    have p2: "left_parser p2 < left_parser p" using eat_left(1) [OF c] lt by simp
    show ?thesis
    proof (cases "b \<and> \<not> sniff [T_Whitespace, T_And] p1")
      case True
      obtain r where "sequence_loop n ex arg (factors @ [e]) p2 = Some r" "good_list p2 r"
        using Suc.IH [of p2 "factors @ [e]"] Suc.prems p2 e by auto
      with True a c p2 good_list_mono show ?thesis by (simp add: pbind_def)
    next
      case False
      with a c p2 lt e Suc.prems show ?thesis by (cases b) (simp_all add: pbind_def)
    qed
  qed
qed simp

lemma sequence_good: "upto k ex \<Longrightarrow> upto k arg \<Longrightarrow> upto (Suc k) (sequence_expr ex arg)"
  unfolding upto_def [of "Suc k"] sequence_expr_def
  by (intro allI impI fold_good sequence_loop_good) (simp_all add: left_rounds)

lemma expression_loop_good:
  assumes ex: "upto k ex" and arg: "upto k arg"
  shows "left_parser p < n \<Longrightarrow> left_parser p < Suc k \<Longrightarrow> list_all Q sequences \<Longrightarrow>
    \<exists>r. expression_loop n ex arg sequences p = Some r \<and> good_list p r"
proof (induction n arbitrary: sequences p)
  case (Suc n)
  have lt0: "left_parser (snd (eat [T_Whitespace] p)) < Suc k" by (rule eat_less [OF Suc.prems(2)])
  show ?case
  proof (rule upto_cases [OF sequence_good [OF ex arg] lt0])
    fix e
    assume "sequence_expr ex arg (snd (eat [T_Whitespace] p)) = Some (Inl e)"
    then show ?thesis by (simp add: pbind_def)
  next
    fix e p1
    assume a: "sequence_expr ex arg (snd (eat [T_Whitespace] p)) = Some (Inr (e, p1))"
      and lt: "left_parser p1 < left_parser (snd (eat [T_Whitespace] p))" and e: "Q e"
    obtain b p2 where c: "eat [T_Whitespace, T_And, T_Whitespace] p1 = (b, p2)" by fastforce
    have p2: "left_parser p2 < left_parser p"
      using eat_left(1) [OF c] lt eat_le [of "[T_Whitespace]" p] by linarith
    show ?thesis
    proof (cases b)
      case True
      obtain r where "expression_loop n ex arg (sequences @ [e]) p2 = Some r" "good_list p2 r"
        using Suc.IH [of p2 "sequences @ [e]"] Suc.prems p2 e by auto
      with True a c p2 good_list_mono show ?thesis by (simp add: pbind_def)
    next
      case False
      with a c p2 e Suc.prems show ?thesis by (simp add: pbind_def)
    qed
  qed
qed simp

lemma grammar_good: "upto n (expression n) \<and> upto n (arg_expr n)"
proof (induction n)
  case 0
  then show ?case by (simp add: upto_def)
next
  case (Suc n)
  then have ex: "upto n (expression n)" and arg: "upto n (arg_expr n)" by auto
  have "upto (Suc n) (expression (Suc n))"
    unfolding upto_def expression.simps
    by (intro allI impI fold_good expression_loop_good [OF ex arg]) (simp_all add: left_rounds)
  moreover have "upto (Suc n) (arg_expr (Suc n))"
    using composite_good [OF ex] comparable_good [OF arg] by (simp add: upto_def)
  ultimately show ?case by (rule conjI)
qed

text \<open>The fuel of \<open>parse_filter\<close> suffices, and what it returns satisfies the invariant.\<close>

lemma parse_filter_total:
  "\<exists>r. parse_fuel (length f + 1) f = Some r \<and> (\<forall>e. r = Inr e \<longrightarrow> Q e)"
proof (cases "tokenize f")
  case (Inl e)
  then show ?thesis by (simp add: parse_fuel_def)
next
  case (Inr ts)
  define us where "us = rev (dropWhile (\<lambda>t. tk_ty t = T_Whitespace) (rev ts))"
  define p where "p = \<lparr>ps_input = f, ps_tokens = us, ps_pos = 0\<rparr>"
  have "length us \<le> length ts" by (simp add: us_def) (metis length_dropWhile_le length_rev)
  moreover have "length ts \<le> length f" using tokenize_length [OF Inr] .
  ultimately have "left_parser p < length f + 1" by (simp add: p_def left_parser_def)
  with grammar_good [of "length f + 1"] obtain r where
    "expression (length f + 1) p = Some r" "good_result p r" by (auto simp: upto_def)
  with Inr show ?thesis
    by (auto simp: parse_fuel_def Let_def us_def [symmetric] p_def [symmetric] good_result_def
        split: sum.splits option.splits)
qed

end

text \<open>Every literal the parser returns is in range.\<close>

fun literals_ok :: "fexpr \<Rightarrow> bool" where
  "literals_ok (Const (CInt v)) \<longleftrightarrow> - (2 ^ 63) < v \<and> v < 2 ^ 63"
| "literals_ok (Const (CDouble d)) \<longleftrightarrow> f64_wf d"
| "literals_ok (Const (CString s)) \<longleftrightarrow> True"
| "literals_ok (Const _) \<longleftrightarrow> False"
| "literals_ok (Ident name) \<longleftrightarrow> True"
| "literals_ok (Select e field) \<longleftrightarrow> literals_ok e"
| "literals_ok (Call fn args) \<longleftrightarrow> list_all literals_ok args"

lemma f64_neg_wf: "f64_wf d \<Longrightarrow> f64_wf (f64_neg d)"
  by (cases d) auto

interpretation lit: ast_invariant literals_ok
  by unfold_locales (auto simp: f64_neg_wf)

text \<open>C14: Parsing always terminates with a result: the fuel of one unit per byte and one more is
  never exhausted. In the AST it returns every integer literal lies strictly above -2^63 and
  below 2^63, so the negation of a literal never overflows, every double is a well-formed binary64
  and no other constant than integers, doubles and strings occurs.\<close>

theorem parse_filter_returns:
  "\<exists>r. parse_fuel (length f + 1) f = Some r \<and> parse_filter f = r
     \<and> (case r of Inl _ \<Rightarrow> True | Inr e \<Rightarrow> literals_ok e)"
  using lit.parse_filter_total [of f] by (auto simp: parse_filter_def split: sum.splits)

subsection \<open>Spaces before a closing parenthesis\<close>

text \<open>After a sequence the cursor is not at whitespace, unless \<open>AND\<close> follows the whitespace.\<close>

definition at_gap :: "parser \<Rightarrow> bool" where
  "at_gap p \<longleftrightarrow> peek_type p = Some T_Whitespace \<and> \<not> sniff [T_Whitespace, T_And] p"

lemma eat_one: "eat [ty] p = (if peek_type p = Some ty then (True, p\<lparr>ps_pos := ps_pos p + 1\<rparr>) else (False, p))"
  by (auto simp: eat_def peek_type_def peek_tok_def split: option.splits)

lemma eat_False: "eat tys p = (False, p') \<Longrightarrow> p' = p"
  by (auto simp: eat_def split: option.splits)

lemma sequence_loop_gap: "sequence_loop n ex arg fs p = Some (Inr (es, p')) \<Longrightarrow> \<not> at_gap p'"
proof (induction n arbitrary: fs p)
  case (Suc n)
  from Suc.prems obtain f p1 where f: "factor ex arg p = Some (Inr (f, p1))"
    by (auto simp: pbind_def split: option.splits sum.splits)
  show ?case
  proof (cases "sniff [T_Whitespace, T_And] p1")
    case True
    with Suc.prems f show ?thesis by (simp add: pbind_def at_gap_def)
  next
    case False
    with Suc f show ?thesis
      by (auto simp: pbind_def eat_one at_gap_def split: if_splits)
  qed
qed simp

lemma expression_loop_gap: "expression_loop n ex arg ss p = Some (Inr (es, p')) \<Longrightarrow> \<not> at_gap p'"
proof (induction n arbitrary: ss p)
  case (Suc n)
  from Suc.prems obtain s p1 where s: "sequence_expr ex arg (snd (eat [T_Whitespace] p)) = Some (Inr (s, p1))"
    by (auto simp: pbind_def split: option.splits sum.splits)
  then have gap: "\<not> at_gap p1"
    using sequence_loop_gap by (auto simp: sequence_expr_def pbind_def split: option.splits sum.splits)
  obtain b p2 where e: "eat [T_Whitespace, T_And, T_Whitespace] p1 = (b, p2)" by fastforce
  show ?case
  proof (cases b)
    case True
    with Suc s e show ?thesis by (auto simp: pbind_def)
  next
    case False
    with Suc.prems s e gap eat_False [of _ p1 p2] show ?thesis by (auto simp: pbind_def)
  qed
qed simp

lemma expression_gap: "expression n p = Some (Inr (e, p')) \<Longrightarrow> \<not> at_gap p'"
  by (cases n) (auto simp: pbind_def split: option.splits sum.splits dest: expression_loop_gap)

lemma composite_closed:
  assumes "composite (expression n) p = Some (Inr (e, p'))"
  shows "\<exists>p1 p2. expression n p1 = Some (Inr (e, p2)) \<and> peek_type p2 = Some T_RightParen
                \<and> p' = snd (bump_tok p2)"
proof -
  from assms obtain t p1 p2 where
    ex: "expression n (snd (eat [T_Whitespace] p1)) = Some (Inr (e, p2))"
    and close: "expect (\<lambda>ty. ty = T_RightParen) ''`)`'' (snd (eat [T_Whitespace] p2)) = Inr (t, p')"
    by (auto simp: composite_def pbind_def split: option.splits sum.splits)
  have gap: "\<not> at_gap p2" by (rule expression_gap [OF ex])
  have here: "peek_type (snd (eat [T_Whitespace] p2)) = Some T_RightParen"
    and p': "p' = snd (bump_tok (snd (eat [T_Whitespace] p2)))"
    using close by (auto simp: expect_def peek_type_def split: option.splits if_splits)
  have "peek_type p2 \<noteq> Some T_Whitespace"
  proof
    assume ws: "peek_type p2 = Some T_Whitespace"
    with gap have "sniff [T_Whitespace, T_And] p2" by (simp add: at_gap_def)
    with ws here show False
      by (auto simp: sniff_def sniff_preds_def eat_one peek_type_def peek_tok_def token_at_def
          split: option.splits if_splits)
  qed
  then have "snd (eat [T_Whitespace] p2) = p2" by (simp add: eat_one)
  with ex here p' show ?thesis by metis
qed

text \<open>A parenthesised expression is accepted only when its last token directly precedes the
  closing parenthesis: the attempt of \<open>composite\<close> to skip whitespace before \<open>)\<close> never succeeds,
  because the sequence before it has already taken that whitespace and then asked for another
  factor. So a filter such as \<open>(a )\<close> is a syntax error, though \<open>( a)\<close> is not.\<close>

theorem no_space_before_close:
  "case composite (expression n) p of
     Some (Inr (e, p')) \<Rightarrow>
       (\<exists>p1 p2. expression n p1 = Some (Inr (e, p2)) \<and> peek_type p2 = Some T_RightParen
                \<and> p' = snd (bump_tok p2))
   | _ \<Rightarrow> True"
  using composite_closed [of n p] by (auto split: option.splits sum.splits)

end
