(* ===== verification/Reflect.thy ===== *)
theory Reflect
  imports F64
begin

text \<open>
  What the crates read of \<open>prost-reflect\<close>, a third-party library: descriptors and dynamic
  messages are parameters. A message type is its full name, a field is named within its message;
  \<open>descriptor_pool\<close> answers questions about types, \<open>message_ops\<close> about a dynamic message of type
  \<open>'m\<close>.
\<close>

datatype kind =
  K_Double | K_Float | K_Int32 | K_Int64 | K_Uint32 | K_Uint64 | K_Sint32 | K_Sint64 | K_Fixed32
| K_Fixed64 | K_Sfixed32 | K_Sfixed64 | K_Bool | K_String | K_Bytes | K_Message string | K_Enum string

record field_descriptor =
  fd_is_list :: bool
  fd_is_map :: bool
  fd_kind :: kind

record descriptor_pool =
  dp_field :: "string \<Rightarrow> string \<Rightarrow> field_descriptor option"
  dp_entry_key :: "string \<Rightarrow> kind"
  dp_entry_value :: "string \<Rightarrow> kind"
  dp_enum_values :: "string \<Rightarrow> string list"
  dp_enum_name :: "string \<Rightarrow> int \<Rightarrow> string option"

text \<open>\<open>prost_reflect::Value\<close>; an \<open>f32\<close> is the \<open>f64\<close> it converts to exactly.\<close>

datatype 'm rvalue =
  V_Bool bool
| V_I32 int
| V_I64 int
| V_U32 nat
| V_U64 nat
| V_F32 f64
| V_F64 f64
| V_String string
| V_Bytes string
| V_EnumNumber int
| V_Message 'm
| V_List "'m rvalue list"
| V_Map "('m rvalue \<times> 'm rvalue) list"

record 'm message_ops =
  mo_full_name :: "'m \<Rightarrow> string"
  mo_has_field :: "'m \<Rightarrow> string \<Rightarrow> bool"
  mo_get_field :: "'m \<Rightarrow> string \<Rightarrow> 'm rvalue"
  mo_clear_field :: "string \<Rightarrow> 'm \<Rightarrow> 'm"
  mo_encode :: "'m \<Rightarrow> string"

text \<open>\<open>message.descriptor().get_field_by_name(name)\<close>, and \<open>message.get_field_by_name(name)\<close>.\<close>

definition message_field ::
  "descriptor_pool \<Rightarrow> 'm message_ops \<Rightarrow> 'm \<Rightarrow> string \<Rightarrow> field_descriptor option" where
  "message_field pool ops m name = dp_field pool (mo_full_name ops m) name"

definition field_by_name ::
  "descriptor_pool \<Rightarrow> 'm message_ops \<Rightarrow> 'm \<Rightarrow> string \<Rightarrow> 'm rvalue option" where
  "field_by_name pool ops m name =
     (case message_field pool ops m name of None \<Rightarrow> None | Some _ \<Rightarrow> Some (mo_get_field ops m name))"

end
