(* ===== verification/F_Checker.thy ===== *)
theory F_Checker
  imports F_Parser_Total Reflect
begin

text \<open>
  \<open>crates/aip-filtering/src/lib.rs\<close> (types, declarations and their builder, \<open>check\<close>),
  \<open>checker.rs\<close> and \<open>macros.rs\<close>. Message and enum descriptors are third-party data, read through
  \<open>descriptor_pool\<close>. \<open>has_type\<close> is the declarative typing relation; \<open>type_of\<close> decides it.
\<close>

subsection \<open>Types and declarations\<close>

datatype ftype =
  TInt | TUint | TDouble | TString | TBool | TBytes | TDuration | TTimestamp
| TEnum string | TMessage string | TMap ftype ftype | TList ftype | TDyn | TNull

text \<open>The derived \<open>{:?}\<close> of a type, and of a list of types.\<close>

fun type_debug :: "unicode_tables \<Rightarrow> ftype \<Rightarrow> string" where
  "type_debug u TInt = ''Int''"
| "type_debug u TUint = ''Uint''"
| "type_debug u TDouble = ''Double''"
| "type_debug u TString = ''String''"
| "type_debug u TBool = ''Bool''"
| "type_debug u TBytes = ''Bytes''"
| "type_debug u TDuration = ''Duration''"
| "type_debug u TTimestamp = ''Timestamp''"
| "type_debug u (TEnum n) = ''Enum('' @ str_debug u n @ '')''"
| "type_debug u (TMessage n) = ''Message('' @ str_debug u n @ '')''"
| "type_debug u (TMap k v) = ''Map('' @ type_debug u k @ '', '' @ type_debug u v @ '')''"
| "type_debug u (TList e) = ''List('' @ type_debug u e @ '')''"
| "type_debug u TDyn = ''Dyn''"
| "type_debug u TNull = ''Null''"

definition types_debug :: "unicode_tables \<Rightarrow> ftype list \<Rightarrow> string" where
  "types_debug u ts = ''['' @ join '', '' (map (type_debug u) ts) @ '']''"

record overload =
  ov_result :: ftype
  ov_params :: "ftype list"

definition overload_new :: "ftype \<Rightarrow> ftype list \<Rightarrow> overload" where
  "overload_new result params = \<lparr>ov_result = result, ov_params = params\<rparr>"

record declarations =
  d_idents :: "string \<rightharpoonup> ftype"
  d_functions :: "string \<rightharpoonup> overload list"
  d_field_paths :: "string list"

definition ident_type :: "declarations \<Rightarrow> string \<Rightarrow> ftype option" where
  "ident_type d name = d_idents d name"

definition lookup_function :: "declarations \<Rightarrow> string \<Rightarrow> overload list option" where
  "lookup_function d name = d_functions d name"

text \<open>\<open>None\<close> is the panic on a field path without a type.\<close>

definition field_paths :: "declarations \<Rightarrow> (string \<times> ftype) list option" where
  "field_paths d =
     (if list_all (\<lambda>n. d_idents d n \<noteq> None) (d_field_paths d)
      then Some (map (\<lambda>n. (n, the (d_idents d n))) (d_field_paths d)) else None)"

subsection \<open>The checker\<close>

fun constant_type :: "const \<Rightarrow> ftype" where
  "constant_type (CInt _) = TInt"
| "constant_type (CUint _) = TUint"
| "constant_type (CDouble _) = TDouble"
| "constant_type (CBool _) = TBool"
| "constant_type (CString _) = TString"
| "constant_type (CBytes _) = TBytes"

fun qualified_name :: "fexpr \<Rightarrow> string option" where
  "qualified_name (Ident name) = Some name"
| "qualified_name (Select operand field) =
     (case qualified_name operand of None \<Rightarrow> None | Some q \<Rightarrow> Some (q @ ''.'' @ field))"
| "qualified_name _ = None"

definition lookup :: "string \<Rightarrow> declarations \<Rightarrow> filter_error + ftype" where
  "lookup name d = (case ident_type d name of Some ty \<Rightarrow> Inr ty | None \<Rightarrow> Inl (UndeclaredIdent name))"

definition has_on_timestamp_error :: string where
  "has_on_timestamp_error =
     ''the has operator on timestamp fields only supports the wildcard '' @ [CHR 0x22]
     @ ''*'' @ [CHR 0x22] @ '' for presence checks''"

text \<open>The presence-only rule: \<open>field : "v"\<close> on a timestamp with a literal other than \<open>*\<close>.\<close>

definition bad_presence :: "string \<Rightarrow> ftype list \<Rightarrow> fexpr list \<Rightarrow> bool" where
  "bad_presence fn arg_types args \<longleftrightarrow>
     fn = '':'' \<and> arg_types = [TTimestamp, TString]
     \<and> (case args of [_, Const (CString v)] \<Rightarrow> v \<noteq> ''*'' | _ \<Rightarrow> False)"

definition resolve_call ::
  "unicode_tables \<Rightarrow> declarations \<Rightarrow> string \<Rightarrow> fexpr list \<Rightarrow> ftype list \<Rightarrow> filter_error + ftype" where
  "resolve_call u d fn args arg_types =
     (case lookup_function d fn of
        None \<Rightarrow> Inl (TypeError (''undeclared function '' @ [CHR 0x27] @ fn @ [CHR 0x27]))
      | Some overloads \<Rightarrow>
          (case find (\<lambda>ov. ov_params ov = arg_types) overloads of
             Some ov \<Rightarrow>
               if bad_presence fn arg_types args then Inl (TypeError has_on_timestamp_error)
               else Inr (ov_result ov)
           | None \<Rightarrow> Inl (TypeError (''no matching overload found for calling '' @ [CHR 0x27] @ fn
                       @ [CHR 0x27] @ '' with '' @ types_debug u arg_types))))"

fun type_of :: "unicode_tables \<Rightarrow> declarations \<Rightarrow> fexpr \<Rightarrow> filter_error + ftype" where
  "type_of u d (Const c) = Inr (constant_type c)"
| "type_of u d (Ident name) = lookup name d"
| "type_of u d (Select operand field) =
     (case (case qualified_name (Select operand field) of
              Some name \<Rightarrow> ident_type d name | None \<Rightarrow> None) of
        Some ty \<Rightarrow> Inr ty
      | None \<Rightarrow>
          (case type_of u d operand of
             Inl e \<Rightarrow> Inl e
           | Inr (TMap _ v) \<Rightarrow> Inr v
           | Inr other \<Rightarrow> Inl (TypeError (''cannot select `'' @ field @ ''` on non-map type ''
                                   @ type_debug u other))))"
| "type_of u d (Call fn args) =
     res_bind (try_map (type_of u d) args) (resolve_call u d fn args)"

definition checker_check :: "unicode_tables \<Rightarrow> fexpr \<Rightarrow> declarations \<Rightarrow> filter_error + unit" where
  "checker_check u expr d =
     res_bind (type_of u d expr) (\<lambda>ty.
       if ty \<noteq> TBool then Inl (TypeError ''non-bool result type'') else Inr ())"

text \<open>\<open>Filter\<close> is the checked expression.\<close>

record filter_ = flt_expr :: fexpr

definition check_filter :: "unicode_tables \<Rightarrow> string \<Rightarrow> declarations \<Rightarrow> filter_error + filter_" where
  "check_filter u filtr d =
     res_bind (parse_filter filtr) (\<lambda>expr.
       res_bind (checker_check u expr d) (\<lambda>_. Inr \<lparr>flt_expr = expr\<rparr>))"

subsection \<open>The typing relation\<close>

inductive has_type :: "declarations \<Rightarrow> fexpr \<Rightarrow> ftype \<Rightarrow> bool" for d where
  ht_const: "has_type d (Const c) (constant_type c)"
| ht_ident: "ident_type d name = Some ty \<Longrightarrow> has_type d (Ident name) ty"
| ht_member: "qualified_name (Select e f) = Some name \<Longrightarrow> ident_type d name = Some ty \<Longrightarrow>
    has_type d (Select e f) ty"
| ht_key: "(\<And>name. qualified_name (Select e f) = Some name \<Longrightarrow> ident_type d name = None) \<Longrightarrow>
    has_type d e (TMap k v) \<Longrightarrow> has_type d (Select e f) v"
| ht_call: "list_all2 (has_type d) args tys \<Longrightarrow> lookup_function d fn = Some ovs \<Longrightarrow>
    find (\<lambda>ov. ov_params ov = tys) ovs = Some ov \<Longrightarrow> \<not> bad_presence fn tys args \<Longrightarrow>
    has_type d (Call fn args) (ov_result ov)"

inductive_cases has_type_ConstE: "has_type d (Const c) ty"
inductive_cases has_type_IdentE: "has_type d (Ident name) ty"
inductive_cases has_type_SelectE: "has_type d (Select e f) ty"
inductive_cases has_type_CallE: "has_type d (Call fn args) ty"

lemmas has_type_elims = has_type_ConstE has_type_IdentE has_type_SelectE has_type_CallE

lemma type_of_sound: "type_of u d e = Inr ty \<Longrightarrow> has_type d e ty"
proof (induction u d e arbitrary: ty rule: type_of.induct)
  case (1 u d c)
  then show ?case by (auto intro: ht_const)
next
  case (2 u d name)
  then show ?case by (auto simp: lookup_def intro: ht_ident split: option.splits)
next
  case (3 u d operand field)
  show ?case
  proof (cases "case qualified_name (Select operand field) of Some name \<Rightarrow> ident_type d name | None \<Rightarrow> None")
    case (Some t)
    with 3(2) show ?thesis by (auto intro: ht_member split: option.splits)
  next
    case None
    with 3(2) obtain k where "type_of u d operand = Inr (TMap k ty)"
      by (auto split: sum.splits ftype.splits)
    with 3(1) [OF None] None show ?thesis
      by (intro ht_key) (auto split: option.splits)
  qed
next
  case (4 u d fn args)
  from 4(2) obtain tys where tys: "try_map (type_of u d) args = Inr tys"
    and res: "resolve_call u d fn args tys = Inr ty" by (auto simp: res_bind_Inr_iff)
  have all: "list_all2 (has_type d) args tys"
    using tys 4(1) unfolding try_map_Inr_iff list_all2_conv_all_nth by (metis nth_mem)
  from res obtain ovs ov where "lookup_function d fn = Some ovs"
    "find (\<lambda>ov. ov_params ov = tys) ovs = Some ov" "\<not> bad_presence fn tys args" "ty = ov_result ov"
    by (auto simp: resolve_call_def split: option.splits if_splits)
  with all show ?case by (auto intro: ht_call)
qed

lemma type_of_complete: "has_type d e ty \<Longrightarrow> type_of u d e = Inr ty"
proof (induction rule: has_type.induct)
  case (ht_key e f k v)
  then show ?case by (auto split: option.splits)
next
  case (ht_call args tys fn ovs ov)
  have "try_map (type_of u d) args = Inr tys"
    unfolding try_map_Inr_iff using ht_call(1) by (rule list_all2_mono) simp
  with ht_call show ?case by (simp add: resolve_call_def)
qed (auto simp: lookup_def)

subsection \<open>Names a checked filter can mention\<close>

text \<open>The declared name that covers each identifier of an expression, outermost member first.\<close>

fun covered :: "declarations \<Rightarrow> fexpr \<Rightarrow> bool" where
  "covered d (Const c) = True"
| "covered d (Ident name) = (ident_type d name \<noteq> None)"
| "covered d (Select e f) =
     ((case qualified_name (Select e f) of Some n \<Rightarrow> ident_type d n \<noteq> None | None \<Rightarrow> False)
      \<or> covered d e)"
| "covered d (Call fn args) = (lookup_function d fn \<noteq> None \<and> list_all (covered d) args)"

lemma has_type_covered: "has_type d e ty \<Longrightarrow> covered d e"
proof (induction rule: has_type.induct)
  case (ht_call args tys fn ovs ov)
  then show ?case by (auto simp: list_all_length list_all2_conv_all_nth)
qed auto

subsection \<open>Macros\<close>

text \<open>
  A macro sees the expression at the cursor and may replace it: the \<open>Cursor\<close> of the source is
  the value it returns, \<open>Some new\<close> after \<open>replace(new)\<close>.
\<close>

type_synonym fmacro = "fexpr \<Rightarrow> fexpr option"

fun run_macros :: "fmacro list \<Rightarrow> fexpr \<Rightarrow> fexpr option" where
  "run_macros [] e = None"
| "run_macros (m # ms) e = (case m e of Some e' \<Rightarrow> Some e' | None \<Rightarrow> run_macros ms e)"

fun apply_expr :: "fmacro list \<Rightarrow> fexpr \<Rightarrow> fexpr" where
  "apply_expr ms e =
     (case run_macros ms e of
        Some e' \<Rightarrow> e'
      | None \<Rightarrow>
          (case e of
             Select operand f \<Rightarrow> Select (apply_expr ms operand) f
           | Call fn args \<Rightarrow> Call fn (map (apply_expr ms) args)
           | _ \<Rightarrow> e))"

declare apply_expr.simps [simp del]

definition apply_macros ::
  "unicode_tables \<Rightarrow> filter_ \<Rightarrow> declarations \<Rightarrow> fmacro list \<Rightarrow> filter_error + filter_" where
  "apply_macros u filtr d ms =
     (let filtr = filtr\<lparr>flt_expr := apply_expr ms (flt_expr filtr)\<rparr> in
      res_bind (checker_check u (flt_expr filtr) d) (\<lambda>_. Inr filtr))"

lemma run_macros_none: "\<forall>m \<in> set ms. \<forall>x. m x = None \<Longrightarrow> run_macros ms e = None"
  by (induction ms) auto

lemma apply_expr_no_match: "\<forall>m \<in> set ms. \<forall>x. m x = None \<Longrightarrow> apply_expr ms e = e"
proof (induction e)
  case (Call fn args)
  then show ?case by (simp add: apply_expr.simps [of ms "Call fn args"] run_macros_none map_idI)
next
  case (Select e f)
  then show ?case by (simp add: apply_expr.simps [of ms "Select e f"] run_macros_none)
qed (simp_all add: apply_expr.simps [of ms "Const _"] apply_expr.simps [of ms "Ident _"] run_macros_none)

subsection \<open>Declarations from standard functions\<close>

record builder =
  bd_idents :: "string \<rightharpoonup> ftype"
  bd_functions :: "string \<rightharpoonup> overload list"
  bd_field_paths :: "string list"
  bd_descriptor :: "string option"
  bd_deferred :: "filter_error option"

definition declarations_builder :: builder where
  "declarations_builder =
     \<lparr>bd_idents = Map.empty, bd_functions = Map.empty, bd_field_paths = [], bd_descriptor = None,
      bd_deferred = None\<rparr>"

definition for_message :: "string \<Rightarrow> builder" where
  "for_message descriptor = declarations_builder\<lparr>bd_descriptor := Some descriptor\<rparr>"

definition declare_function :: "string \<Rightarrow> overload list \<Rightarrow> builder \<Rightarrow> builder" where
  "declare_function name overloads b =
     b\<lparr>bd_functions := (bd_functions b)(name \<mapsto>
         (case bd_functions b name of None \<Rightarrow> [] | Some os \<Rightarrow> os) @ overloads)\<rparr>"

definition value_ident :: "string \<Rightarrow> ftype \<Rightarrow> builder \<Rightarrow> builder" where
  "value_ident name ty b = b\<lparr>bd_idents := (bd_idents b)(name \<mapsto> ty)\<rparr>"

definition record_field_path :: "string \<Rightarrow> builder \<Rightarrow> builder" where
  "record_field_path name b =
     (if name \<in> set (bd_field_paths b) then b
      else b\<lparr>bd_field_paths := bd_field_paths b @ [name]\<rparr>)"

definition declare_ident :: "string \<Rightarrow> ftype \<Rightarrow> builder \<Rightarrow> builder" where
  "declare_ident name ty b = record_field_path name (value_ident name ty b)"

definition enum_ident :: "descriptor_pool \<Rightarrow> string \<Rightarrow> string \<Rightarrow> builder \<Rightarrow> builder" where
  "enum_ident pool name enum b =
     (let enum_type = TEnum enum;
          comparison = [overload_new TBool [enum_type, enum_type]];
          b = declare_function ''!='' comparison
                (declare_function ''='' comparison (declare_ident name enum_type b))
      in fold (\<lambda>v. value_ident v enum_type) (dp_enum_values pool enum) b)"

definition equality_overloads :: "overload list" where
  "equality_overloads =
     [overload_new TBool [TBool, TBool], overload_new TBool [TInt, TInt],
      overload_new TBool [TDouble, TDouble], overload_new TBool [TDouble, TInt],
      overload_new TBool [TString, TString], overload_new TBool [TTimestamp, TTimestamp],
      overload_new TBool [TTimestamp, TString], overload_new TBool [TDuration, TDuration]]"

definition ordering_overloads :: "overload list" where
  "ordering_overloads =
     [overload_new TBool [TInt, TInt], overload_new TBool [TDouble, TDouble],
      overload_new TBool [TDouble, TInt], overload_new TBool [TString, TString],
      overload_new TBool [TTimestamp, TTimestamp], overload_new TBool [TTimestamp, TString],
      overload_new TBool [TDuration, TDuration]]"

definition has_overloads :: "overload list" where
  "has_overloads =
     [overload_new TBool [TString, TString], overload_new TBool [TMap TString TString, TString],
      overload_new TBool [TList TString, TString], overload_new TBool [TTimestamp, TString]]"

definition standard_functions :: "builder \<Rightarrow> builder" where
  "standard_functions b =
     fold (\<lambda>(n, os). declare_function n os)
       [(''='', equality_overloads), (''!='', equality_overloads),
        (''<'', ordering_overloads), (''<='', ordering_overloads),
        (''>'', ordering_overloads), (''>='', ordering_overloads),
        ('':'', has_overloads),
        (''AND'', [overload_new TBool [TBool, TBool]]),
        (''OR'', [overload_new TBool [TBool, TBool]]),
        (''NOT'', [overload_new TBool [TBool]]),
        (''timestamp'', [overload_new TTimestamp [TString]]),
        (''duration'', [overload_new TDuration [TString]])] b"

subsection \<open>Deriving declarations from a descriptor\<close>

datatype resolved = RScalar ftype | REnum string

definition kind_to_type :: "kind \<Rightarrow> string + ftype" where
  "kind_to_type k =
     (case k of
        K_Double \<Rightarrow> Inr TDouble | K_Float \<Rightarrow> Inr TDouble
      | K_Int32 \<Rightarrow> Inr TInt | K_Int64 \<Rightarrow> Inr TInt | K_Sint32 \<Rightarrow> Inr TInt | K_Sint64 \<Rightarrow> Inr TInt
      | K_Sfixed32 \<Rightarrow> Inr TInt | K_Sfixed64 \<Rightarrow> Inr TInt
      | K_Uint32 \<Rightarrow> Inr TUint | K_Uint64 \<Rightarrow> Inr TUint | K_Fixed32 \<Rightarrow> Inr TUint | K_Fixed64 \<Rightarrow> Inr TUint
      | K_Bool \<Rightarrow> Inr TBool
      | K_String \<Rightarrow> Inr TString
      | K_Message m \<Rightarrow>
          if m = ''google.protobuf.Timestamp'' then Inr TTimestamp else Inl (''message '' @ m)
      | K_Bytes \<Rightarrow> Inl ''bytes''
      | K_Enum e \<Rightarrow> Inl (''enum '' @ e @ '' (filterable only as a singular field)''))"

definition resolve_leaf ::
  "descriptor_pool \<Rightarrow> string \<Rightarrow> string \<Rightarrow> field_descriptor \<Rightarrow> filter_error + resolved" where
  "resolve_leaf pool descriptor path field =
     (let unfilterable = (\<lambda>detail. UnfilterableField path descriptor detail) in
      if fd_is_map field then
        (case fd_kind field of
           K_Message entry \<Rightarrow>
             res_bind (map_err unfilterable (kind_to_type (dp_entry_key pool entry))) (\<lambda>key.
               res_bind (map_err unfilterable (kind_to_type (dp_entry_value pool entry))) (\<lambda>v.
                 Inr (RScalar (TMap key v))))
         | _ \<Rightarrow> Inl (unfilterable ''map entry is not a message''))
      else if fd_is_list field then
        res_bind (map_err unfilterable (kind_to_type (fd_kind field))) (\<lambda>element.
          Inr (RScalar (TList element)))
      else
        (case fd_kind field of
           K_Enum e \<Rightarrow> Inr (REnum e)
         | _ \<Rightarrow> res_bind (map_err unfilterable (kind_to_type (fd_kind field))) (\<lambda>ty. Inr (RScalar ty))))"

definition descend :: "field_descriptor \<Rightarrow> string option" where
  "descend field =
     (if fd_is_list field \<or> fd_is_map field then None
      else (case fd_kind field of K_Message m \<Rightarrow> Some m | _ \<Rightarrow> None))"

fun resolve_segments ::
  "descriptor_pool \<Rightarrow> string \<Rightarrow> string \<Rightarrow> string \<Rightarrow> string list \<Rightarrow> filter_error + resolved" where
  "resolve_segments pool descriptor path current [] = Inl (UnknownField path descriptor)"
| "resolve_segments pool descriptor path current (segment # segments) =
     (case dp_field pool current segment of
        None \<Rightarrow> Inl (UnknownField path descriptor)
      | Some field \<Rightarrow>
          if segments = [] then resolve_leaf pool descriptor path field
          else (case descend field of
                  Some m \<Rightarrow> resolve_segments pool descriptor path m segments
                | None \<Rightarrow> Inl (UnknownField path descriptor)))"

definition resolve_path :: "descriptor_pool \<Rightarrow> string \<Rightarrow> string \<Rightarrow> filter_error + resolved" where
  "resolve_path pool descriptor path =
     resolve_segments pool descriptor path descriptor (split_on CHR ''.'' path)"

fun fields_loop :: "descriptor_pool \<Rightarrow> string list \<Rightarrow> builder \<Rightarrow> builder" where
  "fields_loop pool [] b = b"
| "fields_loop pool (path # paths) b =
     (if bd_deferred b \<noteq> None then b
      else
        (case bd_descriptor b of
           None \<Rightarrow> b\<lparr>bd_deferred := Some (TypeError
                 ''fields() requires a message descriptor; start from Declarations::for_message'')\<rparr>
         | Some descriptor \<Rightarrow>
             (case resolve_path pool descriptor path of
                Inr (RScalar ty) \<Rightarrow> fields_loop pool paths (declare_ident path ty b)
              | Inr (REnum e) \<Rightarrow> fields_loop pool paths (enum_ident pool path e b)
              | Inl err \<Rightarrow> fields_loop pool paths (b\<lparr>bd_deferred := Some err\<rparr>))))"

definition try_build :: "builder \<Rightarrow> filter_error + declarations" where
  "try_build b =
     (case bd_deferred b of
        Some e \<Rightarrow> Inl e
      | None \<Rightarrow> Inr \<lparr>d_idents = bd_idents b, d_functions = bd_functions b,
                      d_field_paths = bd_field_paths b\<rparr>)"

subsection \<open>The builder's invariant\<close>

text \<open>Every recorded field path has a type, and none is recorded twice.\<close>

definition builder_wf :: "builder \<Rightarrow> bool" where
  "builder_wf b \<longleftrightarrow> distinct (bd_field_paths b) \<and> set (bd_field_paths b) \<subseteq> dom (bd_idents b)"

lemma builder_wf_new [simp]: "builder_wf declarations_builder" "builder_wf (for_message m)"
  by (simp_all add: builder_wf_def declarations_builder_def for_message_def)

lemma builder_wf_function [simp]: "builder_wf (declare_function n os b) = builder_wf b"
  by (simp add: builder_wf_def declare_function_def)

lemma builder_wf_value: "builder_wf b \<Longrightarrow> builder_wf (value_ident n ty b)"
  by (auto simp: builder_wf_def value_ident_def)

lemma builder_wf_ident: "builder_wf b \<Longrightarrow> builder_wf (declare_ident n ty b)"
  by (auto simp: builder_wf_def declare_ident_def value_ident_def record_field_path_def)

lemma builder_wf_enum: "builder_wf b \<Longrightarrow> builder_wf (enum_ident pool n e b)"
proof -
  have "builder_wf b \<Longrightarrow> builder_wf (fold (\<lambda>v. value_ident v ty) vs b)" for vs b ty
    by (induction vs arbitrary: b) (auto simp: builder_wf_value)
  then show "builder_wf b \<Longrightarrow> builder_wf (enum_ident pool n e b)"
    by (simp add: enum_ident_def Let_def builder_wf_ident)
qed

lemma builder_wf_fields: "builder_wf b \<Longrightarrow> builder_wf (fields_loop pool paths b)"
proof (induction pool paths b rule: fields_loop.induct)
  case (2 pool path paths b)
  then show ?case
    by (auto simp: builder_wf_ident builder_wf_enum split: option.splits sum.splits resolved.splits)
      (simp_all add: builder_wf_def)
qed simp

lemma builder_wf_standard: "builder_wf b \<Longrightarrow> builder_wf (standard_functions b)"
  by (simp add: standard_functions_def)

text \<open>So \<open>field_paths\<close> never panics on built declarations.\<close>

lemma try_build_paths:
  "builder_wf b \<Longrightarrow> try_build b = Inr d \<Longrightarrow> \<exists>ps. field_paths d = Some ps \<and> map fst ps = bd_field_paths b"
  by (force simp: try_build_def field_paths_def builder_wf_def list_all_iff comp_def split: option.splits)

subsection \<open>Errors\<close>

fun filter_error_display :: "filter_error \<Rightarrow> string" where
  "filter_error_display (Syntax position message) =
     ''filter syntax error at position '' @ show_nat position @ '': '' @ message"
| "filter_error_display (TypeError detail) = ''type error: '' @ detail"
| "filter_error_display (UndeclaredIdent ident) = ''undeclared identifier: '' @ ident"
| "filter_error_display (UnknownField path message) =
     ''field path '' @ [CHR 0x27] @ path @ [CHR 0x27] @ '' does not resolve on message '' @ message"
| "filter_error_display (UnfilterableField path message detail) =
     ''field path '' @ [CHR 0x27] @ path @ [CHR 0x27] @ '' on message '' @ message
     @ '' has unfilterable type ('' @ detail @ '')''"

fun filter_error_reason :: "filter_error \<Rightarrow> string \<times> (string \<times> string) list" where
  "filter_error_reason (Syntax position message) =
     (''FILTER_SYNTAX'', [(''position'', show_nat position), (''detail'', message)])"
| "filter_error_reason (TypeError detail) = (''FILTER_TYPE'', [(''detail'', detail)])"
| "filter_error_reason (UndeclaredIdent ident) =
     (''FILTER_UNDECLARED_IDENTIFIER'', [(''identifier'', ident)])"
| "filter_error_reason (UnknownField path message) =
     (''FILTER_UNKNOWN_FIELD'', [(''path'', path), (''message'', message)])"
| "filter_error_reason (UnfilterableField path message detail) =
     (''FILTER_UNFILTERABLE_FIELD'', [(''path'', path), (''message'', message), (''detail'', detail)])"

definition filter_status :: "filter_error \<Rightarrow> status" where
  "filter_status err =
     (case filter_error_reason err of (reason, metadata) \<Rightarrow>
        detailed_status Code_InvalidArgument (filter_error_display err) reason metadata [])"

interpretation filter_err: detailed_mapping filter_status
  by unfold_locales (auto simp: filter_status_def split: prod.splits)

subsection \<open>Properties\<close>

text \<open>C15: The checker decides the typing relation: it assigns a type exactly when the relation
  does, and then the same one; a filter passes exactly when it has type \<open>Bool\<close>.\<close>

theorem checker_decides_typing:
  "(type_of u d e = Inr ty \<longleftrightarrow> has_type d e ty)
   \<and> (checker_check u e d = Inr () \<longleftrightarrow> has_type d e TBool)"
proof -
  have iff: "type_of u d e = Inr t \<longleftrightarrow> has_type d e t" for t
    using type_of_sound type_of_complete by blast
  then show ?thesis
    unfolding iff [symmetric] checker_check_def by (auto simp: res_bind_Inr_iff split: if_splits)
qed

text \<open>A filter that passes the check, also after macros rewrote it, mentions only declared
  names: every function is declared, and every identifier is covered by a declared name, its own
  or that of an enclosing member chain. Macros that match nothing leave the filter alone.\<close>

theorem checked_filter_is_covered:
  "(case check_filter u s d of
      Inr flt \<Rightarrow> covered d (flt_expr flt) \<and> has_type d (flt_expr flt) TBool
                \<and> parse_filter s = Inr (flt_expr flt)
                \<and> apply_macros u flt d [] = Inr flt
    | Inl _ \<Rightarrow> True)
   \<and> (case apply_macros u flt d ms of
        Inr flt' \<Rightarrow> covered d (flt_expr flt') \<and> has_type d (flt_expr flt') TBool
      | Inl _ \<Rightarrow> True)"
proof -
  have ok: "checker_check u e d = Inr () \<Longrightarrow> covered d e \<and> has_type d e TBool" for e
    using type_of_sound has_type_covered
    by (fastforce simp: checker_check_def res_bind_Inr_iff split: if_splits)
  show ?thesis
    by (auto simp: check_filter_def apply_macros_def Let_def res_bind_Inr_iff apply_expr_no_match
        dest: ok split: sum.splits)
qed

text \<open>Whatever paths are derived from whatever descriptor, the declarations that result list
  each field path once and give each a type, so iterating over them never panics.\<close>

theorem derived_declarations_complete:
  "case try_build (standard_functions (fields_loop pool paths (for_message m))) of
     Inr d \<Rightarrow> (\<exists>ps. field_paths d = Some ps \<and> distinct (map fst ps)
                 \<and> map snd ps = map (\<lambda>n. the (ident_type d n)) (map fst ps))
   | Inl _ \<Rightarrow> True"
proof -
  let ?b = "standard_functions (fields_loop pool paths (for_message m))"
  have wf: "builder_wf ?b" by (simp add: builder_wf_standard builder_wf_fields)
  show ?thesis
  proof (cases "try_build ?b")
    case (Inr d)
    from try_build_paths [OF wf Inr] obtain ps where
      ps: "field_paths d = Some ps" "map fst ps = bd_field_paths ?b" by blast
    have "map snd ps = map (\<lambda>n. the (ident_type d n)) (map fst ps)"
      using ps(1) by (auto simp: field_paths_def ident_type_def split: if_splits)
    moreover have "distinct (map fst ps)" using ps(2) wf by (simp add: builder_wf_def)
    ultimately show ?thesis using ps(1) unfolding Inr sum.case by blast
  qed simp
qed

end
