(* ===== verification/Pagination.thy ===== *)
theory Pagination
  imports Reflect Status
begin

text \<open>
  \<open>crates/aip-pagination/src/lib.rs\<close>: page tokens, cursors read from a message, page sizes, and the
  split of an over-fetched page. \<open>postcard\<close> and \<open>base64\<close> are the fields of \<open>token_codec\<close>.
\<close>

subsection \<open>Errors\<close>

datatype page_error =
  Malformed
| UnsupportedVersion nat nat
| ChecksumMismatch
| Decode string
| NegativePageSize int

fun page_error_display :: "page_error \<Rightarrow> string" where
  "page_error_display Malformed = ''malformed page token''"
| "page_error_display (UnsupportedVersion found expected) =
     ''unsupported page token version (got '' @ show_nat found @ '', expected '' @ show_nat expected @ '')''"
| "page_error_display ChecksumMismatch =
     ''page token checksum mismatch (request changed between pages)''"
| "page_error_display (Decode detail) = ''decode page token: '' @ detail"
| "page_error_display (NegativePageSize requested) =
     ''page_size must not be negative (got '' @ show_int requested @ '')''"

fun page_error_reason :: "page_error \<Rightarrow> string \<times> (string \<times> string) list \<times> (string \<times> string) list" where
  "page_error_reason Malformed = (''PAGE_TOKEN_MALFORMED'', [], [])"
| "page_error_reason (UnsupportedVersion found expected) =
     (''PAGE_TOKEN_UNSUPPORTED_VERSION'',
      [(''found'', show_nat found), (''expected'', show_nat expected)], [])"
| "page_error_reason ChecksumMismatch = (''PAGE_TOKEN_CHECKSUM_MISMATCH'', [], [])"
| "page_error_reason (Decode detail) = (''PAGE_TOKEN_DECODE'', [(''detail'', detail)], [])"
| "page_error_reason (NegativePageSize requested) =
     (''PAGE_SIZE_NEGATIVE'', [(''page_size'', show_int requested)],
      [(''page_size'', page_error_display (NegativePageSize requested))])"

definition page_status :: "page_error \<Rightarrow> status" where
  "page_status err =
     (case page_error_reason err of (reason, metadata, violations) \<Rightarrow>
        detailed_status Code_InvalidArgument (page_error_display err) reason metadata violations)"

interpretation page_err: detailed_mapping page_status
  by unfold_locales (auto simp: page_status_def split: prod.splits)

subsection \<open>Cursors\<close>

datatype cursor_value =
  CV_Bool bool | CV_Int int | CV_Double f64 | CV_Text string | CV_Bytes string

record cursor_entry =
  ce_column :: string
  ce_value :: cursor_value

datatype cursor_kind = CK_Bool | CK_Int | CK_Double | CK_Text

record cursor_column =
  cc_column :: string
  cc_field_path :: string
  cc_kind :: cursor_kind

text \<open>\<open>u64 as i64\<close>.\<close>

definition u64_as_i64 :: "nat \<Rightarrow> int" where
  "u64_as_i64 n = (if n < 2 ^ 63 then int n else int n - 2 ^ 64)"

fun as_i64 :: "'m rvalue \<Rightarrow> int option" where
  "as_i64 (V_I32 i) = Some i"
| "as_i64 (V_I64 i) = Some i"
| "as_i64 (V_U32 n) = Some (int n)"
| "as_i64 (V_U64 n) = Some (u64_as_i64 n)"
| "as_i64 _ = None"

fun as_f64 :: "'m rvalue \<Rightarrow> f64 option" where
  "as_f64 (V_F32 f) = Some f"
| "as_f64 (V_F64 f) = Some f"
| "as_f64 _ = None"

definition text_value ::
  "descriptor_pool \<Rightarrow> 'm message_ops \<Rightarrow> (int \<Rightarrow> int \<Rightarrow> string) \<Rightarrow> field_descriptor \<Rightarrow> 'm rvalue \<Rightarrow> string" where
  "text_value pool ops format_timestamp descriptor v =
     (case v of
        V_String s \<Rightarrow> s
      | V_EnumNumber number \<Rightarrow>
          (case fd_kind descriptor of
             K_Enum e \<Rightarrow>
               (case dp_enum_name pool e number of Some name \<Rightarrow> name | None \<Rightarrow> show_int number)
           | _ \<Rightarrow> show_int number)
      | V_Message m \<Rightarrow>
          if mo_full_name ops m = ''google.protobuf.Timestamp'' then
            (let seconds = (case field_by_name pool ops m ''seconds'' of
                              Some (V_I64 i) \<Rightarrow> i | _ \<Rightarrow> 0);
                 nanos = (case field_by_name pool ops m ''nanos'' of
                            Some (V_I32 i) \<Rightarrow> i | _ \<Rightarrow> 0)
             in format_timestamp seconds nanos)
          else []
      | _ \<Rightarrow> [])"

definition is_singular_message :: "field_descriptor \<Rightarrow> bool" where
  "is_singular_message f \<longleftrightarrow>
     (case fd_kind f of K_Message _ \<Rightarrow> \<not> fd_is_list f \<and> \<not> fd_is_map f | _ \<Rightarrow> False)"

fun cursor_segments ::
  "descriptor_pool \<Rightarrow> 'm message_ops \<Rightarrow> 'm \<Rightarrow> string list \<Rightarrow> (field_descriptor \<times> 'm rvalue) option" where
  "cursor_segments pool ops m [] = None"
| "cursor_segments pool ops m (segment # rest) =
     (case message_field pool ops m segment of
        None \<Rightarrow> None
      | Some field \<Rightarrow>
          if rest = [] then
            (if is_singular_message field \<and> \<not> mo_has_field ops m segment then None
             else Some (field, mo_get_field ops m segment))
          else if \<not> is_singular_message field \<or> \<not> mo_has_field ops m segment then None
          else
            (case mo_get_field ops m segment of
               V_Message sub \<Rightarrow> cursor_segments pool ops sub rest
             | _ \<Rightarrow> None))"

definition cursor_path ::
  "descriptor_pool \<Rightarrow> 'm message_ops \<Rightarrow> 'm \<Rightarrow> string \<Rightarrow> (field_descriptor \<times> 'm rvalue) option" where
  "cursor_path pool ops m field_path = cursor_segments pool ops m (split_on CHR ''.'' field_path)"

definition f64_zero :: f64 where
  "f64_zero = Fin False 0 (- 1074)"

definition reflect_value ::
  "descriptor_pool \<Rightarrow> 'm message_ops \<Rightarrow> (int \<Rightarrow> int \<Rightarrow> string) \<Rightarrow> 'm \<Rightarrow> string \<Rightarrow> cursor_kind \<Rightarrow> cursor_value" where
  "reflect_value pool ops format_timestamp m field_path k =
     (let resolved = cursor_path pool ops m field_path in
      case k of
        CK_Bool \<Rightarrow> CV_Bool (case resolved of Some (_, V_Bool b) \<Rightarrow> b | _ \<Rightarrow> False)
      | CK_Int \<Rightarrow> CV_Int (case resolved of
                            Some (_, v) \<Rightarrow> (case as_i64 v of Some i \<Rightarrow> i | None \<Rightarrow> 0)
                          | None \<Rightarrow> 0)
      | CK_Double \<Rightarrow> CV_Double (case resolved of
                            Some (_, v) \<Rightarrow> (case as_f64 v of Some f \<Rightarrow> f | None \<Rightarrow> f64_zero)
                          | None \<Rightarrow> f64_zero)
      | CK_Text \<Rightarrow> CV_Text (case resolved of
                            Some (d, v) \<Rightarrow> text_value pool ops format_timestamp d v
                          | None \<Rightarrow> []))"

definition cursor_entries ::
  "descriptor_pool \<Rightarrow> 'm message_ops \<Rightarrow> (int \<Rightarrow> int \<Rightarrow> string) \<Rightarrow> 'm \<Rightarrow> cursor_column list
    \<Rightarrow> (string \<times> string) list \<Rightarrow> cursor_entry list" where
  "cursor_entries pool ops format_timestamp m columns keys =
     map (\<lambda>column.
       \<lparr>ce_column = cc_column column,
        ce_value = (case find (\<lambda>(name, _). name = cc_column column) keys of
                      Some (_, key) \<Rightarrow> CV_Text key
                    | None \<Rightarrow> reflect_value pool ops format_timestamp m (cc_field_path column)
                               (cc_kind column))\<rparr>) columns"

subsection \<open>Page tokens\<close>

record page_token =
  pt_cursor :: "cursor_entry list"
  pt_request_checksum :: "32 word"

definition PAGE_TOKEN_VERSION :: nat where
  "PAGE_TOKEN_VERSION = 2"

record token_codec =
  tc_to_vec :: "page_token \<Rightarrow> string"
  tc_from_bytes :: "string \<Rightarrow> string + page_token"
  tc_b64_encode :: "string \<Rightarrow> string"
  tc_b64_decode :: "string \<Rightarrow> string + string"

definition encode_page_token :: "token_codec \<Rightarrow> page_token \<Rightarrow> string" where
  "encode_page_token tc val =
     tc_b64_encode tc (char_of PAGE_TOKEN_VERSION # tc_to_vec tc val)"

definition decode_page_token :: "token_codec \<Rightarrow> string \<Rightarrow> page_error + page_token" where
  "decode_page_token tc tok =
     res_bind (map_err Decode (tc_b64_decode tc tok)) (\<lambda>bytes.
       case bytes of
         [] \<Rightarrow> Inl Malformed
       | version # payload \<Rightarrow>
           if of_char version \<noteq> PAGE_TOKEN_VERSION
           then Inl (UnsupportedVersion (of_char version) PAGE_TOKEN_VERSION)
           else map_err Decode (tc_from_bytes tc payload))"

text \<open>What the code asks of a request (\<open>PageRequest\<close>).\<close>

record page_request =
  pr_page_token :: string
  pr_page_size :: int
  pr_skip :: int

definition page_token_parse ::
  "token_codec \<Rightarrow> page_request \<Rightarrow> 32 word \<Rightarrow> page_error + cursor_entry list option" where
  "page_token_parse tc request checksum =
     (if pr_page_token request = [] then Inr None
      else res_bind (decode_page_token tc (pr_page_token request)) (\<lambda>t.
        if pt_request_checksum t \<noteq> checksum then Inl ChecksumMismatch
        else Inr (Some (pt_cursor t))))"

definition page_token_encode :: "token_codec \<Rightarrow> cursor_entry list \<Rightarrow> 32 word \<Rightarrow> string" where
  "page_token_encode tc cursor checksum =
     encode_page_token tc \<lparr>pt_cursor = cursor, pt_request_checksum = checksum\<rparr>"

subsection \<open>Pages\<close>

record size_limits =
  sl_default :: int
  sl_max :: int

record page =
  pg_cursor :: "cursor_entry list option"
  pg_size :: int
  pg_request_checksum :: "32 word"

definition resolve_size :: "int \<Rightarrow> size_limits \<Rightarrow> page_error + int" where
  "resolve_size requested limits =
     (if requested < 0 then Inl (NegativePageSize requested)
      else
        (let base = (if requested = 0 then sl_default limits else requested)
         in Inr (max (min base (sl_max limits)) 0)))"

definition request_checksum ::
  "descriptor_pool \<Rightarrow> 'm message_ops \<Rightarrow> (string \<Rightarrow> 32 word) \<Rightarrow> 'm \<Rightarrow> 32 word" where
  "request_checksum pool ops crc32 request =
     crc32 (mo_encode ops
       (fold (\<lambda>name m. if message_field pool ops request name \<noteq> None
                       then mo_clear_field ops name m else m)
          [''page_token'', ''page_size'', ''skip''] request))"

text \<open>A listing request is both a \<open>PageRequest\<close> (\<open>page_of\<close>) and a reflective message.\<close>

definition page_parse ::
  "token_codec \<Rightarrow> ('m \<Rightarrow> page_request) \<Rightarrow> descriptor_pool \<Rightarrow> 'm message_ops \<Rightarrow> (string \<Rightarrow> 32 word)
    \<Rightarrow> 'm \<Rightarrow> size_limits \<Rightarrow> page_error + page" where
  "page_parse tc page_of pool ops crc32 request limits =
     (let checksum = request_checksum pool ops crc32 request in
      res_bind (page_token_parse tc (page_of request) checksum) (\<lambda>cursor.
        res_bind (resolve_size (pr_page_size (page_of request)) limits) (\<lambda>size.
          Inr \<lparr>pg_cursor = cursor, pg_size = size, pg_request_checksum = checksum\<rparr>)))"

text \<open>\<open>self.size as u64\<close>.\<close>

definition page_size :: "page \<Rightarrow> nat" where
  "page_size p = nat (pg_size p mod 2 ^ 64)"

definition fetch_limit :: "page \<Rightarrow> nat" where
  "fetch_limit p = page_size p + 1"

definition split_overfetch ::
  "token_codec \<Rightarrow> page \<Rightarrow> 'row list \<Rightarrow> ('row \<Rightarrow> cursor_entry list) \<Rightarrow> 'row list \<times> string" where
  "split_overfetch tc p rows to_cursor =
     (let has_more = length rows > page_size p;
          rows = take (page_size p) rows;
          tok = (if has_more \<and> rows \<noteq> []
                 then page_token_encode tc (to_cursor (last rows)) (pg_request_checksum p) else [])
      in (rows, tok))"

subsection \<open>Sizes and tokens\<close>

lemma resolve_size_bounds:
  "resolve_size requested limits = Inr n \<Longrightarrow>
     0 \<le> n \<and> n \<le> max (sl_max limits) 0 \<and> (requested > 0 \<longrightarrow> n \<le> requested)
     \<and> (requested > 0 \<and> requested \<le> sl_max limits \<longrightarrow> n = requested)"
  by (auto simp: resolve_size_def Let_def split: if_splits)

lemma resolve_size_Inr_iff:
  "resolve_size requested limits = Inr n \<longleftrightarrow>
     0 \<le> requested
     \<and> n = max 0 (min (sl_max limits) (if requested = 0 then sl_default limits else requested))"
  by (auto simp: resolve_size_def Let_def max.commute min.commute)

lemma page_size_eq: "0 \<le> pg_size p \<Longrightarrow> pg_size p < 2 ^ 31 \<Longrightarrow> page_size p = nat (pg_size p)"
  by (simp add: page_size_def)

text \<open>What the code relies on of the two codecs, for one token.\<close>

definition codec_ok :: "token_codec \<Rightarrow> page_token \<Rightarrow> bool" where
  "codec_ok tc t \<longleftrightarrow>
     tc_from_bytes tc (tc_to_vec tc t) = Inr t
     \<and> tc_b64_decode tc (encode_page_token tc t) = Inr (char_of PAGE_TOKEN_VERSION # tc_to_vec tc t)
     \<and> encode_page_token tc t \<noteq> []"

lemma decode_encode: "codec_ok tc t \<Longrightarrow> decode_page_token tc (encode_page_token tc t) = Inr t"
  by (simp add: codec_ok_def decode_page_token_def PAGE_TOKEN_VERSION_def)

text \<open>C40: A parsed page has a safe size. With a 32-bit maximum, the size of a page that parses is the
  request (the default for zero), capped at the maximum and never negative; the cast to \<open>u64\<close>
  keeps it and the probe row of \<open>fetch_limit\<close> does not wrap. A negative request never parses.\<close>

theorem page_sizes_bounded:
  assumes "sl_max limits < 2 ^ 31"
  shows "case page_parse tc page_of pool ops hash request limits of
           Inl _ \<Rightarrow> True
         | Inr p \<Rightarrow>
             0 \<le> pr_page_size (page_of request) \<and> 0 \<le> pg_size p \<and> pg_size p \<le> max (sl_max limits) 0
             \<and> pg_size p = max 0 (min (sl_max limits)
                 (if pr_page_size (page_of request) = 0 then sl_default limits else pr_page_size (page_of request)))
             \<and> int (page_size p) = pg_size p \<and> int (fetch_limit p) = pg_size p + 1
             \<and> fetch_limit p \<le> 2 ^ 31"
proof (cases "page_parse tc page_of pool ops hash request limits")
  case (Inr p)
  then have eq: "resolve_size (pr_page_size (page_of request)) limits = Inr (pg_size p)"
    by (auto simp: page_parse_def Let_def res_bind_def split: sum.splits)
  have bounds: "0 \<le> pg_size p" "pg_size p \<le> max (sl_max limits) 0"
    using resolve_size_bounds [OF eq] by simp_all
  then have small: "pg_size p < 2 ^ 31" using assms by simp
  have size: "page_size p = nat (pg_size p)" by (rule page_size_eq [OF bounds(1) small])
  have "nat (pg_size p) < 2 ^ 31" using small bounds(1) by (simp add: nat_less_iff)
  then have "fetch_limit p \<le> 2 ^ 31" and "int (fetch_limit p) = pg_size p + 1"
    using bounds(1) by (simp_all add: fetch_limit_def size)
  with bounds size Inr eq [unfolded resolve_size_Inr_iff] show ?thesis by simp
qed simp

text \<open>Requests that are their page size, with nothing to reflect.\<close>

definition bare_pool :: descriptor_pool where
  "bare_pool = \<lparr>dp_field = \<lambda>_ _. None, dp_entry_key = \<lambda>_. K_String, dp_entry_value = \<lambda>_. K_String,
                dp_enum_values = \<lambda>_. [], dp_enum_name = \<lambda>_ _. None\<rparr>"

definition bare_ops :: "int message_ops" where
  "bare_ops = \<lparr>mo_full_name = \<lambda>_. ''M'', mo_has_field = \<lambda>_ _. False, mo_get_field = \<lambda>_ _. V_Bool False,
               mo_clear_field = \<lambda>_ m. m, mo_encode = \<lambda>_. []\<rparr>"

theorem page_sizes_bounded_witness:
  "case page_parse \<lparr>tc_to_vec = (\<lambda>_. []), tc_from_bytes = (\<lambda>_. Inl []), tc_b64_encode = (\<lambda>s. s),
        tc_b64_decode = (\<lambda>s. Inr s)\<rparr>
      (\<lambda>m. \<lparr>pr_page_token = [], pr_page_size = m, pr_skip = 0\<rparr>) bare_pool bare_ops (\<lambda>_. 7) 500
      \<lparr>sl_default = 50, sl_max = 100\<rparr> of
     Inl _ \<Rightarrow> False
   | Inr p \<Rightarrow> pg_size p = 100 \<and> int (fetch_limit p) = 101"
  using page_sizes_bounded [where limits = "\<lparr>sl_default = 50, sl_max = 100\<rparr>" and hash = "\<lambda>_. 7" and
      request = "500" and page_of = "\<lambda>m. \<lparr>pr_page_token = [], pr_page_size = m, pr_skip = 0\<rparr>" and tc =
      "\<lparr>tc_to_vec = (\<lambda>_. []), tc_from_bytes = (\<lambda>_. Inl []), tc_b64_encode = (\<lambda>s. s),
        tc_b64_decode = (\<lambda>s. Inr s)\<rparr>" and pool = bare_pool and ops = bare_ops]
  by (simp add: page_parse_def page_token_parse_def resolve_size_def res_bind_def)

text \<open>C27: A token the server issued is accepted for the request it was issued for and gives the
  cursor back; for any other request checksum it is refused as changed between pages. An empty
  token starts the listing, a token of another version is refused by name.\<close>

theorem page_tokens_bound_to_request:
  assumes "codec_ok tc \<lparr>pt_cursor = cursor, pt_request_checksum = k\<rparr>"
    and "pr_page_token request = page_token_encode tc cursor k"
  shows "page_token_parse tc request k' = (if k' = k then Inr (Some cursor) else Inl ChecksumMismatch)
         \<and> page_token_parse tc (request\<lparr>pr_page_token := []\<rparr>) k' = Inr None
         \<and> (\<forall>v payload tok. tc_b64_decode tc tok = Inr (v # payload) \<and> tok \<noteq> [] \<and> of_char v \<noteq> (2::nat) \<longrightarrow>
              page_token_parse tc (request\<lparr>pr_page_token := tok\<rparr>) k' = Inl (UnsupportedVersion (of_char v) 2))"
proof -
  have "page_token_encode tc cursor k \<noteq> []" using assms(1) by (simp add: codec_ok_def page_token_encode_def)
  moreover have "decode_page_token tc (page_token_encode tc cursor k) =
      Inr \<lparr>pt_cursor = cursor, pt_request_checksum = k\<rparr>"
    unfolding page_token_encode_def by (rule decode_encode [OF assms(1)])
  ultimately show ?thesis
    using assms(2) by (auto simp: page_token_parse_def decode_page_token_def PAGE_TOKEN_VERSION_def)
qed

text \<open>A codec for one token.\<close>

definition one_token_codec :: "page_token \<Rightarrow> token_codec" where
  "one_token_codec t =
     \<lparr>tc_to_vec = (\<lambda>_. ''x''), tc_from_bytes = (\<lambda>_. Inr t), tc_b64_encode = (\<lambda>s. s),
      tc_b64_decode = (\<lambda>s. Inr s)\<rparr>"

lemma one_token_codec_ok: "codec_ok (one_token_codec t) t"
  by (simp add: codec_ok_def one_token_codec_def encode_page_token_def)

theorem page_tokens_bound_to_request_witness:
  "page_token_parse (one_token_codec \<lparr>pt_cursor = [], pt_request_checksum = 7\<rparr>)
     \<lparr>pr_page_token = [char_of (2::nat), CHR ''x''], pr_page_size = 0, pr_skip = 0\<rparr> 8 = Inl ChecksumMismatch"
  using page_tokens_bound_to_request [OF one_token_codec_ok,
      of "\<lparr>pr_page_token = [char_of (2::nat), CHR ''x''], pr_page_size = 0, pr_skip = 0\<rparr>" "[]" 7 8]
  by (simp add: page_token_encode_def encode_page_token_def one_token_codec_def PAGE_TOKEN_VERSION_def)

subsection \<open>Listing page by page\<close>

text \<open>
  A store keeps its rows in cursor order and answers a fetch with the rows strictly after the
  cursor. \<open>list_pages\<close> is the client's loop against the handler: fetch \<open>fetch_limit\<close> rows, split, send
  the token back, which the handler parses against the request's checksum, until the token is empty.
  The result is None when a token is refused or the number of fetches allowed runs out.
\<close>

fun list_pages :: "token_codec \<Rightarrow> page \<Rightarrow> ('row \<Rightarrow> cursor_entry list)
    \<Rightarrow> (cursor_entry list option \<Rightarrow> 'row list) \<Rightarrow> nat \<Rightarrow> 'row list option" where
  "list_pages tc p to_cursor after 0 = None"
| "list_pages tc p to_cursor after (Suc n) =
     (case split_overfetch tc p (take (fetch_limit p) (after (pg_cursor p))) to_cursor of
        (rows, tok) \<Rightarrow>
          if tok = [] then Some rows
          else (case page_token_parse tc \<lparr>pr_page_token = tok, pr_page_size = pg_size p, pr_skip = 0\<rparr>
                       (pg_request_checksum p) of
                  Inl _ \<Rightarrow> None
                | Inr cursor \<Rightarrow>
                    map_option (\<lambda>more_rows. rows @ more_rows)
                      (list_pages tc (p\<lparr>pg_cursor := cursor\<rparr>) to_cursor after n)))"

lemma list_pages_complete:
  assumes size: "page_size p > 0"
    and codec: "\<And>r. codec_ok tc \<lparr>pt_cursor = to_cursor r, pt_request_checksum = pg_request_checksum p\<rparr>"
    and seek: "\<And>xs r ys. all = xs @ r # ys \<Longrightarrow> after (Some (to_cursor r)) = ys"
    and suffix: "all = done @ after (pg_cursor p)"
    and n: "length (after (pg_cursor p)) < n"
  shows "list_pages tc p to_cursor after n = Some (after (pg_cursor p))"
  using size codec suffix n
proof (induction n arbitrary: p "done")
  case (Suc n)
  define rows where "rows = after (pg_cursor p)"
  define k where "k = page_size p"
  have k: "k > 0" using Suc.prems(1) by (simp add: k_def)
  show ?case
  proof (cases "length rows > k")
    case False
    then show ?thesis
      by (simp add: split_overfetch_def Let_def fetch_limit_def rows_def [symmetric] k_def [symmetric])
  next
    case True
    define r where "r = rows ! (k - 1)"
    have split: "rows = take (k - 1) rows @ r # drop k rows"
      using True k id_take_nth_drop [of "k - 1" rows] by (simp add: r_def)
    have ne: "take k rows \<noteq> []" using True k by auto
    have last: "last (take k rows) = r"
      using True k last_conv_nth [OF ne] by (simp add: r_def min_def)
    let ?t = "\<lparr>pt_cursor = to_cursor r, pt_request_checksum = pg_request_checksum p\<rparr>"
    let ?p = "p\<lparr>pg_cursor := Some (to_cursor r)\<rparr>"
    have tok: "page_token_encode tc (to_cursor r) (pg_request_checksum p) \<noteq> []"
      and dec: "decode_page_token tc (page_token_encode tc (to_cursor r) (pg_request_checksum p)) = Inr ?t"
      using Suc.prems(2) [of r] decode_encode [OF Suc.prems(2) [of r]]
      by (auto simp: page_token_encode_def codec_ok_def)
    have all: "all = (done @ take (k - 1) rows) @ r # drop k rows"
      using Suc.prems(3) split by (simp add: rows_def)
    have next_: "after (Some (to_cursor r)) = drop k rows" by (rule seek [OF all])
    have "list_pages tc ?p to_cursor after n = Some (after (pg_cursor ?p))"
    proof (rule Suc.IH)
      show "page_size ?p > 0" using Suc.prems(1) by (simp add: page_size_def)
      show "codec_ok tc \<lparr>pt_cursor = to_cursor r', pt_request_checksum = pg_request_checksum ?p\<rparr>" for r'
        using Suc.prems(2) by simp
      show "all = (done @ take k rows) @ after (pg_cursor ?p)"
        using Suc.prems(3) by (simp add: next_ rows_def)
      show "length (after (pg_cursor ?p)) < n"
        using Suc.prems(4) k True by (simp add: next_ rows_def)
    qed
    then have "list_pages tc ?p to_cursor after n = Some (drop k rows)" by (simp add: next_)
    moreover have "take k (take (Suc k) rows) = take k rows" by (simp add: min_def)
    ultimately show ?thesis
      using True tok dec last ne
      by (simp add: split_overfetch_def Let_def fetch_limit_def page_token_parse_def
          rows_def [symmetric] k_def [symmetric])
  qed
qed simp

text \<open>The rows strictly after the cursor, in a store that lists \<open>all\<close> in cursor order.\<close>

fun rows_after :: "('row \<Rightarrow> cursor_entry list) \<Rightarrow> 'row list \<Rightarrow> cursor_entry list option \<Rightarrow> 'row list" where
  "rows_after to_cursor all None = all"
| "rows_after to_cursor all (Some c) = drop 1 (dropWhile (\<lambda>r. to_cursor r \<noteq> c) all)"

lemma rows_after_seek:
  assumes "distinct (map to_cursor all)" and "all = xs @ r # ys"
  shows "rows_after to_cursor all (Some (to_cursor r)) = ys"
proof -
  have "to_cursor r \<notin> to_cursor ` set xs" using assms(1) unfolding assms(2) by auto
  then have "\<And>x. x \<in> set xs \<Longrightarrow> to_cursor x \<noteq> to_cursor r" by (metis imageI)
  then have "dropWhile (\<lambda>x. to_cursor x \<noteq> to_cursor r) all = r # ys"
    using assms(2) by (simp add: dropWhile_append2)
  then show ?thesis by simp
qed

text \<open>C1: A listing is complete and ends. Following the page tokens of \<open>split_overfetch\<close> from the first
  page on until the empty token, over a store whose rows have distinct cursors, takes at most one
  fetch more than there are rows, has no token refused, and gives every row exactly once and in
  order, whatever the page size (at least one).\<close>

theorem listing_is_complete:
  assumes "page_size p > 0" and "pg_cursor p = None"
    and "distinct (map to_cursor all)"
    and "\<And>r. codec_ok tc \<lparr>pt_cursor = to_cursor r, pt_request_checksum = pg_request_checksum p\<rparr>"
  shows "list_pages tc p to_cursor (rows_after to_cursor all) (Suc (length all)) = Some all"
proof -
  have seek: "rows_after to_cursor all (Some (to_cursor r)) = ys" if "all = xs @ r # ys" for xs r ys
    using assms(3) that by (rule rows_after_seek)
  have "list_pages tc p to_cursor (rows_after to_cursor all) (Suc (length all))
        = Some (rows_after to_cursor all (pg_cursor p))"
    using list_pages_complete [where tc = tc and p = p and to_cursor = to_cursor
        and after = "rows_after to_cursor all" and all = all and n = "Suc (length all)",
        OF assms(1) assms(4) seek]
    by (simp add: assms(2))
  then show ?thesis using assms(2) by simp
qed

text \<open>A codec for tokens whose cursor is one boolean column.\<close>

definition bool_cursor :: "bool \<Rightarrow> cursor_entry list" where
  "bool_cursor b = [\<lparr>ce_column = ''x'', ce_value = CV_Bool b\<rparr>]"

definition bool_codec :: token_codec where
  "bool_codec =
     \<lparr>tc_to_vec = (\<lambda>t. if pt_cursor t = bool_cursor True then ''t'' else ''f''),
      tc_from_bytes = (\<lambda>s. Inr \<lparr>pt_cursor = bool_cursor (s = ''t''), pt_request_checksum = 7\<rparr>),
      tc_b64_encode = (\<lambda>s. s), tc_b64_decode = (\<lambda>s. Inr s)\<rparr>"

theorem listing_is_complete_witness:
  "list_pages bool_codec \<lparr>pg_cursor = None, pg_size = 1, pg_request_checksum = 7\<rparr> bool_cursor
     (rows_after bool_cursor [True, False]) 3 = Some [True, False]"
proof -
  have "codec_ok bool_codec \<lparr>pt_cursor = bool_cursor r, pt_request_checksum = 7\<rparr>" for r
    by (cases r) (simp_all add: codec_ok_def bool_codec_def bool_cursor_def encode_page_token_def)
  then show ?thesis
    using listing_is_complete [of "\<lparr>pg_cursor = None, pg_size = 1, pg_request_checksum = 7\<rparr>"
        bool_cursor "[True, False]" bool_codec]
    by (simp add: page_size_def bool_cursor_def eval_nat_numeral)
qed

end
