(* ===== verification/Error_Domain.thy ===== *)
theory Error_Domain
  imports Status
begin

text \<open>
  \<open>crates/aip-errordomain/src/lib.rs\<close>: the boundary layer that replaces the sentinel domain in
  outgoing error details, in the response headers of a unary error and in the trailers of a
  streaming one. \<open>base64\<close> and the \<open>prost\<close> codecs of \<open>google.rpc.Status\<close> and \<open>ErrorInfo\<close> are the
  fields of \<open>boundary_codec\<close>.
\<close>

subsection \<open>The wire messages\<close>

record any =
  any_type_url :: string
  any_value :: string

record rpc_status =
  rs_code :: int
  rs_message :: string
  rs_details :: "any list"

record boundary_codec =
  bc_b64_decode :: "string \<Rightarrow> string option"
  bc_b64_encode :: "string \<Rightarrow> string"
  bc_status_decode :: "string \<Rightarrow> rpc_status option"
  bc_status_encode :: "rpc_status \<Rightarrow> string"
  bc_info_decode :: "string \<Rightarrow> error_info option"
  bc_info_encode :: "error_info \<Rightarrow> string"
  bc_header_value :: "string \<Rightarrow> bool"

text \<open>\<open>http::HeaderMap\<close>: the values of a name in order; \<open>get\<close> reads the first, \<open>insert\<close> replaces all.\<close>

type_synonym headers = "string \<Rightarrow> string list"

definition headers_get :: "headers \<Rightarrow> string \<Rightarrow> string option" where
  "headers_get h name = (case h name of [] \<Rightarrow> None | v # _ \<Rightarrow> Some v)"

definition headers_insert :: "headers \<Rightarrow> string \<Rightarrow> string \<Rightarrow> headers" where
  "headers_insert h name v = h(name := [v])"

subsection \<open>The rewrite\<close>

definition SENTINEL_DOMAIN :: string where
  "SENTINEL_DOMAIN = ''aip-rs''"

definition GRPC_STATUS_DETAILS_BIN :: string where
  "GRPC_STATUS_DETAILS_BIN = ''grpc-status-details-bin''"

definition ERROR_INFO_TYPE :: string where
  "ERROR_INFO_TYPE = ''google.rpc.ErrorInfo''"

definition is_error_info :: "string \<Rightarrow> bool" where
  "is_error_info type_url \<longleftrightarrow> last (split_on CHR ''/'' type_url) = ERROR_INFO_TYPE"

fun rewrite_anys :: "boundary_codec \<Rightarrow> string \<Rightarrow> any list \<Rightarrow> bool \<Rightarrow> any list \<times> bool" where
  "rewrite_anys bc domain [] rewrote = ([], rewrote)"
| "rewrite_anys bc domain (a # anys) rewrote =
     (if \<not> is_error_info (any_type_url a) then
        (case rewrite_anys bc domain anys rewrote of (anys', w) \<Rightarrow> (a # anys', w))
      else
        (case bc_info_decode bc (any_value a) of
           None \<Rightarrow> (case rewrite_anys bc domain anys rewrote of (anys', w) \<Rightarrow> (a # anys', w))
         | Some info \<Rightarrow>
             if ei_domain info = SENTINEL_DOMAIN then
               (case rewrite_anys bc domain anys True of
                  (anys', w) \<Rightarrow>
                    (a\<lparr>any_value := bc_info_encode bc (info\<lparr>ei_domain := domain\<rparr>)\<rparr> # anys', w))
             else
               (case rewrite_anys bc domain anys rewrote of (anys', w) \<Rightarrow> (a # anys', w))))"

definition rewrite_status_bytes :: "boundary_codec \<Rightarrow> string \<Rightarrow> string \<Rightarrow> string option" where
  "rewrite_status_bytes bc b64 domain =
     (case bc_b64_decode bc b64 of
        None \<Rightarrow> None
      | Some raw \<Rightarrow>
          (case bc_status_decode bc raw of
             None \<Rightarrow> None
           | Some s \<Rightarrow>
               (case rewrite_anys bc domain (rs_details s) False of
                  (details, rewrote) \<Rightarrow>
                    if \<not> rewrote then None
                    else Some (bc_b64_encode bc (bc_status_encode bc (s\<lparr>rs_details := details\<rparr>))))))"

definition rewrite_details :: "boundary_codec \<Rightarrow> headers \<Rightarrow> string \<Rightarrow> headers" where
  "rewrite_details bc h domain =
     (case headers_get h GRPC_STATUS_DETAILS_BIN of
        None \<Rightarrow> h
      | Some current \<Rightarrow>
          (case rewrite_status_bytes bc current domain of
             None \<Rightarrow> h
           | Some rewritten \<Rightarrow>
               if bc_header_value bc rewritten
               then headers_insert h GRPC_STATUS_DETAILS_BIN rewritten else h))"

subsection \<open>The service\<close>

text \<open>What one \<open>poll\<close> of a future, and one \<open>poll_frame\<close> of a body, answers.\<close>

datatype 'a poll = Pending | Ready 'a

datatype frame = Data string | Trailers headers

datatype 'e frame_result = FrameOk frame | FrameErr 'e

record layer =
  ly_domain :: string

definition layer_new :: "string \<Rightarrow> layer" where
  "layer_new domain = \<lparr>ly_domain = domain\<rparr>"

record 'i domain_service =
  ds_inner :: 'i
  ds_domain :: string

definition layer_service :: "layer \<Rightarrow> 'i \<Rightarrow> 'i domain_service" where
  "layer_service l inner = \<lparr>ds_inner = inner, ds_domain = ly_domain l\<rparr>"

record 'b response =
  rsp_status :: nat
  rsp_headers :: headers
  rsp_body :: 'b

record 'b rewrite_body =
  rb_inner :: 'b
  rb_domain :: string

record 'f response_future =
  rf_inner :: 'f
  rf_domain :: string

definition service_call :: "('i \<Rightarrow> 'q \<Rightarrow> 'i \<times> 'f) \<Rightarrow> 'i domain_service \<Rightarrow> 'q
    \<Rightarrow> 'i domain_service \<times> 'f response_future" where
  "service_call inner_call s req =
     (case inner_call (ds_inner s) req of
        (i, f) \<Rightarrow> (s\<lparr>ds_inner := i\<rparr>, \<lparr>rf_inner = f, rf_domain = ds_domain s\<rparr>))"

definition future_poll ::
  "boundary_codec \<Rightarrow> ('f \<Rightarrow> 'f \<times> ('e + 'b response) poll) \<Rightarrow> 'f response_future
    \<Rightarrow> 'f response_future \<times> ('e + 'b rewrite_body response) poll" where
  "future_poll bc inner_poll fut =
     (case inner_poll (rf_inner fut) of
        (f, r) \<Rightarrow>
          (fut\<lparr>rf_inner := f\<rparr>,
           (case r of
              Pending \<Rightarrow> Pending
            | Ready (Inl e) \<Rightarrow> Ready (Inl e)
            | Ready (Inr response) \<Rightarrow>
                Ready (Inr \<lparr>rsp_status = rsp_status response,
                            rsp_headers = rewrite_details bc (rsp_headers response) (rf_domain fut),
                            rsp_body = \<lparr>rb_inner = rsp_body response, rb_domain = rf_domain fut\<rparr>\<rparr>))))"

definition body_poll_frame ::
  "boundary_codec \<Rightarrow> ('b \<Rightarrow> 'b \<times> 'e frame_result option poll) \<Rightarrow> 'b rewrite_body
    \<Rightarrow> 'b rewrite_body \<times> 'e frame_result option poll" where
  "body_poll_frame bc inner_poll_frame body =
     (case inner_poll_frame (rb_inner body) of
        (b, r) \<Rightarrow>
          (body\<lparr>rb_inner := b\<rparr>,
           (case r of
              Ready (Some (FrameOk (Trailers t))) \<Rightarrow>
                Ready (Some (FrameOk (Trailers (rewrite_details bc t (rb_domain body)))))
            | _ \<Rightarrow> r)))"

subsection \<open>The layer refines \<open>rebrand\<close>\<close>

text \<open>The detail of a wire status that carries a domain, and the status it stands for.\<close>

definition any_info :: "boundary_codec \<Rightarrow> any \<Rightarrow> error_info option" where
  "any_info bc a = (if is_error_info (any_type_url a) then bc_info_decode bc (any_value a) else None)"

definition infos :: "boundary_codec \<Rightarrow> any list \<Rightarrow> error_info list" where
  "infos bc anys = List.map_filter (any_info bc) anys"

lemma sentinel_same: "SENTINEL_DOMAIN = ERROR_DOMAIN"
  by (simp add: SENTINEL_DOMAIN_def ERROR_DOMAIN_def)

definition rebrand_any :: "boundary_codec \<Rightarrow> string \<Rightarrow> any \<Rightarrow> any" where
  "rebrand_any bc d a =
     (case any_info bc a of
        Some i \<Rightarrow> if ei_domain i = SENTINEL_DOMAIN
                  then a\<lparr>any_value := bc_info_encode bc (i\<lparr>ei_domain := d\<rparr>)\<rparr> else a
      | None \<Rightarrow> a)"

text \<open>
  What the code relies on, for the status \<open>s\<close> of a header: decoding reads back what is encoded
  (the infos with the new domain, the status, its base64 text, which is a header value).
\<close>

definition reads_back :: "boundary_codec \<Rightarrow> error_info \<Rightarrow> bool" where
  "reads_back bc i \<longleftrightarrow> bc_info_decode bc (bc_info_encode bc i) = Some i"

definition rewritten :: "boundary_codec \<Rightarrow> string \<Rightarrow> rpc_status \<Rightarrow> rpc_status" where
  "rewritten bc d s = s\<lparr>rs_details := map (rebrand_any bc d) (rs_details s)\<rparr>"

definition boundary_ok :: "boundary_codec \<Rightarrow> string \<Rightarrow> rpc_status \<Rightarrow> bool" where
  "boundary_ok bc d s \<longleftrightarrow>
     (\<forall>i \<in> set (infos bc (rs_details s)). reads_back bc (rebrand_info d i))
     \<and> (let raw = bc_status_encode bc (rewritten bc d s) in
          bc_status_decode bc raw = Some (rewritten bc d s)
          \<and> bc_b64_decode bc (bc_b64_encode bc raw) = Some raw
          \<and> bc_header_value bc (bc_b64_encode bc raw))"

lemma rewrite_anys_eq:
  "rewrite_anys bc d anys rewrote =
     (map (rebrand_any bc d) anys,
      rewrote \<or> (\<exists>i \<in> set (infos bc anys). ei_domain i = SENTINEL_DOMAIN))"
proof (induction bc d anys rewrote rule: rewrite_anys.induct)
  case (1 bc domain rewrote)
  then show ?case by (simp add: infos_def List.map_filter_def)
next
  case (2 bc domain a anys rewrote)
  then show ?case
    by (auto simp: infos_def List.map_filter_def rebrand_any_def any_info_def split: option.splits)
qed

lemma any_info_rebrand:
  "(\<And>i. any_info bc a = Some i \<Longrightarrow> reads_back bc (rebrand_info d i)) \<Longrightarrow> any_info bc (rebrand_any bc d a) = map_option (rebrand_info d) (any_info bc a)"
  by (auto simp: rebrand_any_def any_info_def reads_back_def rebrand_info_def sentinel_same
      split: option.splits)

lemma infos_Cons: "infos bc (a # anys) = (case any_info bc a of None \<Rightarrow> infos bc anys | Some i \<Rightarrow> i # infos bc anys)"
  by (simp add: infos_def List.map_filter_def split: option.splits)

lemma infos_rebrand:
  "\<forall>i \<in> set (infos bc anys). reads_back bc (rebrand_info d i) \<Longrightarrow>
     infos bc (map (rebrand_any bc d) anys) = map (rebrand_info d) (infos bc anys)"
proof (induction anys)
  case (Cons a anys)
  then show ?case
    using any_info_rebrand [of bc a d] by (auto simp: infos_Cons split: option.splits)
qed (simp add: infos_def List.map_filter_def)

text \<open>The wire form of a status (the \<open>ErrorInfo\<close> detail first, as \<open>tonic-types\<close> packs it), and back.\<close>

definition header_status :: "boundary_codec \<Rightarrow> headers \<Rightarrow> rpc_status option" where
  "header_status bc h =
     Option.bind (headers_get h GRPC_STATUS_DETAILS_BIN)
       (\<lambda>v. Option.bind (bc_b64_decode bc v) (bc_status_decode bc))"

definition header_infos :: "boundary_codec \<Rightarrow> headers \<Rightarrow> error_info list" where
  "header_infos bc h = (case header_status bc h of None \<Rightarrow> [] | Some s \<Rightarrow> infos bc (rs_details s))"

lemma rewrite_details_status:
  assumes "\<And>s. header_status bc h = Some s \<Longrightarrow> boundary_ok bc d s"
  shows "header_status bc (rewrite_details bc h d) = map_option (rewritten bc d) (header_status bc h)"
proof (cases "header_status bc h")
  case None
  then show ?thesis
    by (auto simp: header_status_def rewrite_details_def rewrite_status_bytes_def bind_eq_None_conv
        split: option.splits)
next
  case (Some s)
  note ok = assms [OF Some]
  from Some obtain v raw where v: "headers_get h GRPC_STATUS_DETAILS_BIN = Some v"
      "bc_b64_decode bc v = Some raw" "bc_status_decode bc raw = Some s"
    by (auto simp: header_status_def bind_eq_Some_conv)
  show ?thesis
  proof (cases "\<exists>i \<in> set (infos bc (rs_details s)). ei_domain i = SENTINEL_DOMAIN")
    case True
    then have "rewrite_status_bytes bc v d = Some (bc_b64_encode bc (bc_status_encode bc (rewritten bc d s)))"
      using v by (simp add: rewrite_status_bytes_def rewrite_anys_eq rewritten_def)
    with v ok Some show ?thesis
      by (simp add: rewrite_details_def boundary_ok_def Let_def header_status_def headers_get_def
          headers_insert_def)
  next
    case False
    then have "map (rebrand_any bc d) (rs_details s) = rs_details s"
      by (intro map_idI)
        (force simp: rebrand_any_def infos_def List.map_filter_def split: option.splits)
    with v False Some show ?thesis
      by (simp add: rewrite_details_def rewrite_status_bytes_def rewrite_anys_eq rewritten_def)
  qed
qed

lemma rewrite_details_infos:
  assumes "\<And>s. header_status bc h = Some s \<Longrightarrow> boundary_ok bc d s"
  shows "header_infos bc (rewrite_details bc h d) = map (rebrand_info d) (header_infos bc h)"
  using rewrite_details_status [OF assms] assms
  by (auto simp: header_infos_def rewritten_def infos_rebrand boundary_ok_def split: option.splits)

lemma rewrite_details_no_sentinel:
  assumes "\<And>i. i \<in> set (header_infos bc h) \<Longrightarrow> ei_domain i \<noteq> SENTINEL_DOMAIN"
  shows "rewrite_details bc h d = h"
proof (cases "header_status bc h")
  case None
  then show ?thesis
    by (auto simp: header_status_def rewrite_details_def rewrite_status_bytes_def bind_eq_None_conv
        split: option.splits)
next
  case (Some s)
  with assms have none: "\<not> (\<exists>i \<in> set (infos bc (rs_details s)). ei_domain i = SENTINEL_DOMAIN)"
    by (auto simp: header_infos_def)
  from Some obtain v raw where "headers_get h GRPC_STATUS_DETAILS_BIN = Some v"
      "bc_b64_decode bc v = Some raw" "bc_status_decode bc raw = Some s"
    by (auto simp: header_status_def bind_eq_Some_conv)
  with none show ?thesis by (simp add: rewrite_details_def rewrite_status_bytes_def rewrite_anys_eq)
qed

lemma rewrite_details_other: "name \<noteq> GRPC_STATUS_DETAILS_BIN \<Longrightarrow> rewrite_details bc h d name = h name"
  by (auto simp: rewrite_details_def headers_insert_def split: option.splits)

text \<open>C30: The boundary rewrites exactly the sentinel. After \<open>rewrite_details\<close> the header decodes to
  the same status with the sentinel \<open>ErrorInfo\<close> domains replaced by the service's: no sentinel is
  left, other domains, other details, code, message and other headers are kept, and rewriting
  again changes nothing.\<close>

theorem boundary_rewrites_only_the_sentinel:
  assumes "d \<noteq> SENTINEL_DOMAIN"
    and "pred_option (boundary_ok bc d) (header_status bc h)"
  shows "header_infos bc (rewrite_details bc h d) = map (rebrand_info d) (header_infos bc h)
    \<and> (\<forall>i \<in> set (header_infos bc (rewrite_details bc h d)). ei_domain i \<noteq> SENTINEL_DOMAIN)
    \<and> map_option rs_code (header_status bc (rewrite_details bc h d)) = map_option rs_code (header_status bc h)
    \<and> map_option rs_message (header_status bc (rewrite_details bc h d)) = map_option rs_message (header_status bc h)
    \<and> (\<forall>name. name \<noteq> GRPC_STATUS_DETAILS_BIN \<longrightarrow> rewrite_details bc h d name = h name)
    \<and> rewrite_details bc (rewrite_details bc h d) d = rewrite_details bc h d"
proof -
  have ok: "boundary_ok bc d s" if "header_status bc h = Some s" for s
    using assms(2) that by simp
  have infos: "header_infos bc (rewrite_details bc h d) = map (rebrand_info d) (header_infos bc h)"
    using ok by (rule rewrite_details_infos)
  have clean: "ei_domain i \<noteq> SENTINEL_DOMAIN" if "i \<in> set (header_infos bc (rewrite_details bc h d))" for i
    using that assms(1) by (auto simp: infos rebrand_info_def sentinel_same)
  have "rewrite_details bc (rewrite_details bc h d) d = rewrite_details bc h d"
    using clean by (rule rewrite_details_no_sentinel)
  with infos clean rewrite_details_status [OF ok] rewrite_details_other show ?thesis
    by (simp add: rewritten_def option.map_comp comp_def)
qed

text \<open>A codec for statuses without message whose one detail is an info without metadata.\<close>

definition plain_codec :: boundary_codec where
  "plain_codec =
     \<lparr>bc_b64_decode = Some, bc_b64_encode = (\<lambda>s. s),
      bc_status_decode = (\<lambda>s. Some \<lparr>rs_code = 3, rs_message = [],
          rs_details = [\<lparr>any_type_url = ''type.googleapis.com/google.rpc.ErrorInfo'', any_value = s\<rparr>]\<rparr>),
      bc_status_encode = (\<lambda>s. concat (map any_value (rs_details s))),
      bc_info_decode = (\<lambda>s. Some \<lparr>ei_reason = ''R'', ei_domain = s, ei_metadata = Map.empty\<rparr>),
      bc_info_encode = ei_domain,
      bc_header_value = (\<lambda>_. True)\<rparr>"

lemma plain_is_info: "is_error_info ''type.googleapis.com/google.rpc.ErrorInfo''"
  by code_simp

lemma plain_status: "bc_status_decode plain_codec v = Some \<lparr>rs_code = 3, rs_message = [],
    rs_details = [\<lparr>any_type_url = ''type.googleapis.com/google.rpc.ErrorInfo'', any_value = v\<rparr>]\<rparr>"
  by (simp add: plain_codec_def)

lemma plain_info: "any_info plain_codec \<lparr>any_type_url = ''type.googleapis.com/google.rpc.ErrorInfo'', any_value = v\<rparr>
    = Some \<lparr>ei_reason = ''R'', ei_domain = v, ei_metadata = Map.empty\<rparr>"
  by (simp add: any_info_def plain_is_info) (simp add: plain_codec_def)

theorem boundary_rewrites_only_the_sentinel_witness:
  "map ei_domain (header_infos plain_codec
     (rewrite_details plain_codec (\<lambda>_. [''aip-rs'']) ''freight.example.com'')) = [''freight.example.com'']"
proof -
  let ?h = "\<lambda>_. [''aip-rs'']"
  have status: "header_status plain_codec ?h = bc_status_decode plain_codec ''aip-rs''"
    by (simp add: header_status_def headers_get_def plain_codec_def)
  have infos: "infos plain_codec [\<lparr>any_type_url = ''type.googleapis.com/google.rpc.ErrorInfo'', any_value = v\<rparr>]
      = [\<lparr>ei_reason = ''R'', ei_domain = v, ei_metadata = Map.empty\<rparr>]" for v
    by (simp add: infos_Cons plain_info) (simp add: infos_def List.map_filter_def)
  have "pred_option (boundary_ok plain_codec ''freight.example.com'') (header_status plain_codec ?h)"
    by (simp add: status plain_status boundary_ok_def infos rewritten_def rebrand_any_def plain_info
        reads_back_def rebrand_info_def SENTINEL_DOMAIN_def ERROR_DOMAIN_def)
      (simp add: plain_codec_def)
  moreover have "''freight.example.com'' \<noteq> SENTINEL_DOMAIN" by (simp add: SENTINEL_DOMAIN_def)
  ultimately show ?thesis
    using boundary_rewrites_only_the_sentinel [of "''freight.example.com''" plain_codec ?h]
    by (simp add: header_infos_def status plain_status infos rebrand_info_def ERROR_DOMAIN_def)
qed

subsection \<open>The whole response\<close>

text \<open>The frames a consumer collects in \<open>n\<close> polls of a body.\<close>

fun frames_of :: "('b \<Rightarrow> 'b \<times> 'e frame_result option poll) \<Rightarrow> nat \<Rightarrow> 'b \<Rightarrow> 'e frame_result list" where
  "frames_of poll_frame 0 body = []"
| "frames_of poll_frame (Suc n) body =
     (case poll_frame body of
        (body', Ready (Some f)) \<Rightarrow> f # frames_of poll_frame n body'
      | (body', Ready None) \<Rightarrow> []
      | (body', Pending) \<Rightarrow> frames_of poll_frame n body')"

fun rewrite_frame :: "boundary_codec \<Rightarrow> string \<Rightarrow> 'e frame_result \<Rightarrow> 'e frame_result" where
  "rewrite_frame bc d (FrameOk (Trailers t)) = FrameOk (Trailers (rewrite_details bc t d))"
| "rewrite_frame bc d f = f"

lemma body_frames:
  "frames_of (body_poll_frame bc poll_frame) n body =
     map (rewrite_frame bc (rb_domain body)) (frames_of poll_frame n (rb_inner body))"
proof (induction n arbitrary: body)
  case (Suc n)
  obtain b r where step: "poll_frame (rb_inner body) = (b, r)" by (cases "poll_frame (rb_inner body)")
  show ?case
  proof (cases r)
    case Pending
    with step Suc show ?thesis by (simp add: body_poll_frame_def)
  next
    case (Ready f)
    show ?thesis
    proof (cases f)
      case None
      with step Ready show ?thesis by (simp add: body_poll_frame_def)
    next
      case (Some g)
      with step Ready Suc show ?thesis
        by (auto simp: body_poll_frame_def split: frame_result.splits frame.splits)
    qed
  qed
qed simp

text \<open>C31: The layer covers both places a status can leave by. A call through the wrapped service
  answers with the inner response: same HTTP status, the headers rewritten with the service's
  domain and, however often the body is polled, the same frames in the same order, the data
  frames and errors untouched and the trailers rewritten. Pending and failed calls pass through.\<close>

theorem layer_covers_headers_and_trailers:
  "case service_call inner_call (layer_service (layer_new d) inner) req of
     (service, fut) \<Rightarrow>
       ds_inner service = fst (inner_call inner req) \<and> ds_domain service = d
       \<and> (case (snd (inner_poll (snd (inner_call inner req))), snd (future_poll bc inner_poll fut)) of
            (Pending, r) \<Rightarrow> r = Pending
          | (Ready (Inl e), r) \<Rightarrow> r = Ready (Inl e)
          | (Ready (Inr from_inner), r) \<Rightarrow>
              (case r of
                 Ready (Inr rsp) \<Rightarrow>
                   rsp_status rsp = rsp_status from_inner
                   \<and> rsp_headers rsp = rewrite_details bc (rsp_headers from_inner) d
                   \<and> frames_of (body_poll_frame bc poll_frame) n (rsp_body rsp)
                     = map (rewrite_frame bc d) (frames_of poll_frame n (rsp_body from_inner))
               | _ \<Rightarrow> False))"
  by (auto simp: service_call_def layer_service_def layer_new_def future_poll_def body_frames
      split: prod.splits poll.splits sum.splits)

end
