(* ===== verification/Ids.thy ===== *)
theory Ids
  imports Status Utf8
begin

text \<open>
  Client-supplied identifiers: \<open>crates/aip-resourceid/src/lib.rs\<close> (user-settable resource IDs) and
  \<open>crates/aip-requestid/src/lib.rs\<close> (idempotency ids). \<open>uuid_ok\<close> stands for
  \<open>uuid::Uuid::parse_str(_).is_ok()\<close> of the \<open>uuid\<close> crate.
\<close>

subsection \<open>Resource IDs\<close>

datatype rid_error =
  RidLength nat
| LeadingCharacter
| TrailingCharacter
| RidCharacter nat nat

text \<open>The scan of \<open>char_indices\<close>: \<open>position\<close> is the byte offset of the rest.\<close>

function rid_scan :: "nat \<Rightarrow> string \<Rightarrow> rid_error option" where
  "rid_scan position s =
     (case next_char s of
        None \<Rightarrow> None
      | Some (c, rest) \<Rightarrow>
          if (97 \<le> c \<and> c \<le> 122) \<or> (48 \<le> c \<and> c \<le> 57) \<or> c = 45
          then rid_scan (position + (length s - length rest)) rest
          else Some (RidCharacter c position))"
  by pat_completeness auto
termination
  by (relation "measure (\<lambda>(_, s). length s)") (auto dest: next_char_shorter)

declare rid_scan.simps [simp del]

definition validate_user_settable :: "(string \<Rightarrow> bool) \<Rightarrow> string \<Rightarrow> rid_error + unit" where
  "validate_user_settable uuid_ok rid =
     (let len = length rid in
      if \<not> (1 \<le> len \<and> len \<le> 63) then Inl (RidLength len)
      else if uuid_ok rid then Inr ()
      else if \<not> is_alpha (rid ! 0) then Inl LeadingCharacter
      else if rid ! (len - 1) = CHR ''-'' then Inl TrailingCharacter
      else (case rid_scan 0 rid of Some e \<Rightarrow> Inl e | None \<Rightarrow> Inr ()))"

text \<open>\<open>{character:?}\<close> of a \<open>char\<close>.\<close>

definition char_debug :: "unicode_tables \<Rightarrow> nat \<Rightarrow> string" where
  "char_debug u c =
     [CHR 0x27]
     @ (if c = 39 then [CHR 0x5C, CHR 0x27] else if c = 34 then [CHR 0x22] else escape_debug u c)
     @ [CHR 0x27]"

fun rid_error_display :: "unicode_tables \<Rightarrow> rid_error \<Rightarrow> string" where
  "rid_error_display u (RidLength len) =
     ''user-settable id must be between 1 and 63 characters (got '' @ show_nat len @ '')''"
| "rid_error_display u LeadingCharacter = ''user-settable id must begin with a letter''"
| "rid_error_display u TrailingCharacter = ''user-settable id must end with a letter or number''"
| "rid_error_display u (RidCharacter c position) =
     ''user-settable id must only contain lowercase letters, numbers, and hyphens (got ''
     @ char_debug u c @ '' at position '' @ show_nat position @ '')''"

fun rid_error_reason :: "rid_error \<Rightarrow> string \<times> (string \<times> string) list" where
  "rid_error_reason (RidLength len) = (''RESOURCE_ID_LENGTH'', [(''length'', show_nat len)])"
| "rid_error_reason LeadingCharacter = (''RESOURCE_ID_LEADING_CHARACTER'', [])"
| "rid_error_reason TrailingCharacter = (''RESOURCE_ID_TRAILING_CHARACTER'', [])"
| "rid_error_reason (RidCharacter c position) =
     (''RESOURCE_ID_INVALID_CHARACTER'',
      [(''character'', encode_char c), (''position'', show_nat position)])"

definition rid_status :: "unicode_tables \<Rightarrow> rid_error \<Rightarrow> status" where
  "rid_status u err =
     (case rid_error_reason err of (reason, metadata) \<Rightarrow>
        detailed_status Code_InvalidArgument (rid_error_display u err) reason metadata [])"

interpretation rid_err: detailed_mapping "rid_status u"
  by unfold_locales (auto simp: rid_status_def split: prod.splits)

subsection \<open>Request IDs\<close>

datatype reqid_error = NotAUuid nat

definition request_id_validate :: "(string \<Rightarrow> bool) \<Rightarrow> string \<Rightarrow> reqid_error + unit" where
  "request_id_validate uuid_ok request_id =
     (if request_id = [] then Inr ()
      else if uuid_ok request_id then Inr () else Inl (NotAUuid (length request_id)))"

datatype replay = New | Replayed | Conflict

fun decide :: "bool option \<Rightarrow> replay" where
  "decide None = New"
| "decide (Some True) = Replayed"
| "decide (Some False) = Conflict"

fun reqid_error_display :: "reqid_error \<Rightarrow> string" where
  "reqid_error_display (NotAUuid len) =
     ''request_id must be a UUID (got '' @ show_nat len @ '' characters)''"

fun reqid_status :: "reqid_error \<Rightarrow> status" where
  "reqid_status (NotAUuid len) =
     detailed_status Code_InvalidArgument (reqid_error_display (NotAUuid len)) ''REQUEST_ID_INVALID''
       [(''length'', show_nat len)] []"

definition conflict :: "string \<Rightarrow> status" where
  "conflict request_id =
     detailed_status Code_AlreadyExists
       (''request_id `'' @ request_id @ ''` was already used for a different request'')
       ''REQUEST_ID_CONFLICT'' [(''request_id'', request_id)] []"

lemma reqid_status_eq:
  "reqid_status e = detailed_status Code_InvalidArgument (reqid_error_display e) ''REQUEST_ID_INVALID''
     [(''length'', show_nat (case e of NotAUuid len \<Rightarrow> len))] []"
  by (cases e) simp

interpretation reqid_err: detailed_mapping reqid_status
  by unfold_locales (auto simp: reqid_status_eq)

interpretation conflict_err: detailed_mapping conflict
  by unfold_locales (auto simp: conflict_def)

subsection \<open>What a resource ID is\<close>

definition rid_char :: "char \<Rightarrow> bool" where
  "rid_char c \<longleftrightarrow> is_lower c \<or> is_digit c \<or> c = CHR ''-''"

lemma rid_char_byte:
  "rid_char c \<longleftrightarrow> (97 \<le> byte c \<and> byte c \<le> (122::nat)) \<or> (48 \<le> byte c \<and> byte c \<le> (57::nat)) \<or> byte c = (45::nat)"
proof -
  have "c = CHR ''-'' \<longleftrightarrow> byte c = byte CHR ''-''" by (simp only: of_char_eq_iff)
  then have "c = CHR ''-'' \<longleftrightarrow> byte c = (45::nat)" by simp
  then show ?thesis by (simp add: rid_char_def is_lower_def is_digit_def less_eq_char_def)
qed

definition rid_code :: "nat \<Rightarrow> bool" where
  "rid_code c \<longleftrightarrow> (97 \<le> c \<and> c \<le> 122) \<or> (48 \<le> c \<and> c \<le> 57) \<or> c = 45"

lemma rid_scan_chars:
  "list_all is_scalar cs \<Longrightarrow>
     case rid_scan position (rust_str cs) of
       None \<Rightarrow> list_all rid_code cs
     | Some e \<Rightarrow> \<exists>pre c post. cs = pre @ c # post \<and> list_all rid_code pre \<and> \<not> rid_code c
                   \<and> e = RidCharacter c (position + length (rust_str pre))"
proof (induction cs arbitrary: position)
  case Nil
  then show ?case by (simp add: rust_str_def rid_scan.simps)
next
  case (Cons c cs)
  have str: "rust_str (c # cs) = encode_char c @ rust_str cs" by (simp add: rust_str_def)
  then have lens: "length (rust_str (c # cs)) = length (encode_char c) + length (rust_str cs)" by simp
  from Cons.prems have next_: "next_char (rust_str (c # cs)) = Some (c, rust_str cs)"
    unfolding str by (intro next_char_encode) simp
  have scan: "rid_scan position (rust_str (c # cs)) =
      (if rid_code c then rid_scan (position + length (encode_char c)) (rust_str cs)
       else Some (RidCharacter c position))"
    by (subst rid_scan.simps) (simp add: next_ rid_code_def lens)
  show ?case
  proof (cases "rid_code c")
    case False
    then have "\<exists>pre c' post. c # cs = pre @ c' # post \<and> list_all rid_code pre \<and> \<not> rid_code c'
        \<and> RidCharacter c position = RidCharacter c' (position + length (rust_str pre))"
      by (intro exI [of _ "[]"] exI [of _ c] exI [of _ cs]) (simp add: rust_str_def)
    with False show ?thesis by (simp add: scan)
  next
    case True
    let ?p = "position + length (encode_char c)"
    from Cons.IH [of ?p] Cons.prems
    have IH: "case rid_scan ?p (rust_str cs) of
       None \<Rightarrow> list_all rid_code cs
     | Some e \<Rightarrow> \<exists>pre c post. cs = pre @ c # post \<and> list_all rid_code pre \<and> \<not> rid_code c
                   \<and> e = RidCharacter c (?p + length (rust_str pre))" by simp
    show ?thesis
    proof (cases "rid_scan ?p (rust_str cs)")
      case None
      with IH True show ?thesis by (simp add: scan)
    next
      case (Some e)
      with IH obtain pre c' post where e: "cs = pre @ c' # post" "list_all rid_code pre" "\<not> rid_code c'"
          "e = RidCharacter c' (?p + length (rust_str pre))" by auto
      then have "\<exists>pre' c'' post'. c # cs = pre' @ c'' # post' \<and> list_all rid_code pre' \<and> \<not> rid_code c''
        \<and> e = RidCharacter c'' (position + length (rust_str pre'))"
        using True by (intro exI [of _ "c # pre"] exI [of _ c'] exI [of _ post]) (simp add: rust_str_def)
      with Some True show ?thesis by (simp add: scan)
    qed
  qed
qed

lemma rid_code_byte: "rid_char c \<longleftrightarrow> rid_code (byte c)"
  by (simp add: rid_char_byte rid_code_def)

lemma encode_char_wide: "\<not> c < 128 \<Longrightarrow> is_scalar c \<Longrightarrow> \<exists>b \<in> set (encode_char c). byte b \<ge> (128::nat)"
  by (auto simp: encode_char_def)

lemma rid_code_encode: "is_scalar c \<Longrightarrow> rid_code c \<longleftrightarrow> list_all rid_char (encode_char c)"
proof (cases "c < 128")
  case True
  then show ?thesis by (simp add: encode_char_ascii rid_code_byte)
next
  case False
  assume "is_scalar c"
  from encode_char_wide [OF False this] have "\<not> list_all rid_char (encode_char c)"
    by (fastforce simp: list_all_iff rid_code_byte rid_code_def)
  with False show ?thesis by (simp add: rid_code_def)
qed

lemma rid_codes_chars: "list_all is_scalar cs \<Longrightarrow> list_all rid_code cs \<longleftrightarrow> list_all rid_char (rust_str cs)"
  by (induction cs) (auto simp: rust_str_def rid_code_encode)

text \<open>RFC 1034, as the crate documents it.\<close>

definition rfc1034 :: "string \<Rightarrow> bool" where
  "rfc1034 s \<longleftrightarrow> s \<noteq> [] \<and> is_lower (hd s) \<and> list_all rid_char s \<and> last s \<noteq> CHR ''-''"

lemma alpha_rid: "rid_char c \<Longrightarrow> is_alpha c \<longleftrightarrow> is_lower c"
proof -
  assume "rid_char c"
  then have "\<not> is_upper c" by (auto simp: rid_char_byte is_upper_def less_eq_char_def)
  then show ?thesis by (simp add: is_alpha_def)
qed

text \<open>\<open>validate_user_settable\<close> accepts exactly the UUID-shaped ids and the RFC 1034 labels (lower-case
  letters, digits and hyphens, a letter first, no hyphen last) of 1 to 63 bytes; an offending
  character is reported at its byte offset and everything before it is allowed.\<close>

theorem user_settable_ids:
  assumes "list_all is_scalar cs" and "rid = rust_str cs"
  shows "case validate_user_settable uuid_ok rid of
           Inr _ \<Rightarrow> 1 \<le> length rid \<and> length rid \<le> 63 \<and> (uuid_ok rid \<or> rfc1034 rid)
         | Inl e \<Rightarrow>
             \<not> (1 \<le> length rid \<and> length rid \<le> 63 \<and> (uuid_ok rid \<or> rfc1034 rid))
             \<and> (case e of
                  RidLength n \<Rightarrow> n = length rid \<and> (n = 0 \<or> n > 63)
                | LeadingCharacter \<Rightarrow> \<not> is_alpha (hd rid)
                | TrailingCharacter \<Rightarrow> last rid = CHR ''-''
                | RidCharacter c position \<Rightarrow>
                    (\<exists>pre post. rid = pre @ encode_char c @ post \<and> length pre = position
                       \<and> list_all rid_char pre \<and> \<not> rid_code c))"
proof (cases "1 \<le> length rid \<and> length rid \<le> 63 \<and> \<not> uuid_ok rid \<and> is_alpha (rid ! 0) \<and> last rid \<noteq> CHR ''-''")
  case False
  then show ?thesis
    by (cases "rid = []")
      (auto simp: validate_user_settable_def Let_def hd_conv_nth last_conv_nth rfc1034_def
        is_alpha_def not_le Suc_le_eq)
next
  case True
  then have ne: "rid \<noteq> []" by auto
  then have eq: "validate_user_settable uuid_ok rid = (case rid_scan 0 rid of Some e \<Rightarrow> Inl e | None \<Rightarrow> Inr ())"
    using True by (simp add: validate_user_settable_def Let_def last_conv_nth)
  have spec: "rfc1034 rid \<longleftrightarrow> list_all rid_code cs"
    using True ne rid_codes_chars [OF assms(1)] alpha_rid [of "hd rid"]
    by (auto simp: rfc1034_def hd_conv_nth assms(2) list_all_iff)
  show ?thesis
  proof (cases "rid_scan 0 rid")
    case None
    then have "list_all rid_code cs" using rid_scan_chars [OF assms(1), of 0] by (simp add: assms(2))
    with None spec True show ?thesis by (simp add: eq)
  next
    case (Some e)
    with rid_scan_chars [OF assms(1), of 0] obtain pre c post where
      e: "cs = pre @ c # post" "list_all rid_code pre" "\<not> rid_code c" "e = RidCharacter c (length (rust_str pre))"
      by (auto simp: assms(2))
    have "rid = rust_str pre @ encode_char c @ rust_str post"
      by (simp add: assms(2) e(1) rust_str_def)
    moreover have "list_all rid_char (rust_str pre)"
      using e(1,2) assms(1) by (subst rid_codes_chars [symmetric]) simp_all
    ultimately have ex: "\<exists>pre' post'. rid = pre' @ encode_char c @ post' \<and> length pre' = length (rust_str pre)
        \<and> list_all rid_char pre' \<and> \<not> rid_code c" using e(3) by blast
    have bad: "\<not> rfc1034 rid" using e(1,3) spec by simp
    have result: "validate_user_settable uuid_ok rid = Inl (RidCharacter c (length (rust_str pre)))"
      by (simp add: eq Some e(4))
    show ?thesis using True bad ex by (simp add: result)
  qed
qed

theorem user_settable_ids_witness:
  "case validate_user_settable (\<lambda>_. False) ''a-1'' of Inr _ \<Rightarrow> rfc1034 ''a-1'' | Inl _ \<Rightarrow> False"
proof -
  have str: "''a-1'' = rust_str [97, 45, 49]" by code_simp
  have res: "validate_user_settable (\<lambda>_. False) ''a-1'' = Inr ()" by code_simp
  from user_settable_ids [OF _ str, of "\<lambda>_. False"] show ?thesis
    by (simp add: res is_scalar_def)
qed

end
