(* ===== verification/Dynamic.thy ===== *)
theory Dynamic
  imports Reflect
begin

text \<open>
  What the field-mask and field-behavior crates do to a \<open>prost_reflect::DynamicMessage\<close>, a
  third-party value: reads, writes, the populated fields and the nesting depth are the fields of
  \<open>dyn_api\<close>, over the reads of \<open>Reflect\<close>. A change through \<open>get_field_mut\<close> is a read followed by a
  write. What the code relies on of them is the predicate \<open>message_laws\<close>.
\<close>

record 'm dyn_api =
  da_pool :: descriptor_pool
  da_ops :: "'m message_ops"
  da_fields :: "string \<Rightarrow> (string \<times> field_descriptor) list"
  da_behavior :: "string \<Rightarrow> string \<Rightarrow> 'm rvalue option"
  da_set :: "string \<Rightarrow> 'm rvalue \<Rightarrow> 'm \<Rightarrow> 'm"
  da_populated :: "'m \<Rightarrow> (string \<times> field_descriptor \<times> 'm rvalue) list"
  da_value_eq :: "'m rvalue \<Rightarrow> 'm rvalue \<Rightarrow> bool"
  da_depth :: "'m \<Rightarrow> nat"

definition da_name :: "'m dyn_api \<Rightarrow> 'm \<Rightarrow> string" where
  "da_name api m = mo_full_name (da_ops api) m"

definition da_has :: "'m dyn_api \<Rightarrow> 'm \<Rightarrow> string \<Rightarrow> bool" where
  "da_has api m f = mo_has_field (da_ops api) m f"

definition da_get :: "'m dyn_api \<Rightarrow> 'm \<Rightarrow> string \<Rightarrow> 'm rvalue" where
  "da_get api m f = mo_get_field (da_ops api) m f"

definition da_clear :: "'m dyn_api \<Rightarrow> string \<Rightarrow> 'm \<Rightarrow> 'm" where
  "da_clear api f m = mo_clear_field (da_ops api) f m"

text \<open>\<open>message.descriptor().fields()\<close>, and \<open>get_field_by_name\<close>.\<close>

definition fields_of :: "'m dyn_api \<Rightarrow> 'm \<Rightarrow> (string \<times> field_descriptor) list" where
  "fields_of api m = da_fields api (da_name api m)"

definition field_named :: "'m dyn_api \<Rightarrow> 'm \<Rightarrow> string \<Rightarrow> field_descriptor option" where
  "field_named api m f = dp_field (da_pool api) (da_name api m) f"

text \<open>\<open>if let Kind::Message(d) = kind\<close>.\<close>

definition kind_message :: "kind \<Rightarrow> string option" where
  "kind_message k = (case k of K_Message d \<Rightarrow> Some d | _ \<Rightarrow> None)"

lemma kind_message_Some [simp]: "kind_message k = Some d \<longleftrightarrow> k = K_Message d"
  by (simp add: kind_message_def split: kind.split)

lemma kind_message_message [simp]: "kind_message (K_Message d) = Some d"
  by simp

definition is_message_kind :: "field_descriptor \<Rightarrow> bool" where
  "is_message_kind fd \<longleftrightarrow> kind_message (fd_kind fd) \<noteq> None"

text \<open>The messages held in a value: itself, the elements of a list, the values of a map.\<close>

fun value_messages :: "'m rvalue \<Rightarrow> 'm list" where
  "value_messages (V_Message s) = [s]"
| "value_messages (V_List vs) = List.map_filter (\<lambda>v. case v of V_Message s \<Rightarrow> Some s | _ \<Rightarrow> None) vs"
| "value_messages (V_Map kvs) = List.map_filter (\<lambda>(_, v). case v of V_Message s \<Rightarrow> Some s | _ \<Rightarrow> None) kvs"
| "value_messages _ = []"

text \<open>\<open>has_field\<close>, or for a list or map a non-empty value: what the crates take for populated.\<close>

definition populated :: "'m dyn_api \<Rightarrow> 'm \<Rightarrow> string \<Rightarrow> bool" where
  "populated api m f \<longleftrightarrow>
     da_has api m f
     \<or> (case da_get api m f of V_List l \<Rightarrow> l \<noteq> [] | V_Map kvs \<Rightarrow> kvs \<noteq> [] | _ \<Rightarrow> False)"

text \<open>
  Documented behaviour of a dynamic message: writing a field that is populated, or clearing one,
  leaves the message type and every other field alone (only setting an unset member of a oneof
  clears its siblings); what is written is read; a cleared field is not populated; field names are
  distinct and resolve; messages are finite trees.
\<close>

definition message_laws :: "'m dyn_api \<Rightarrow> bool" where
  "message_laws api \<longleftrightarrow>
     (\<forall>m f v. da_name api (da_set api f v m) = da_name api m)
     \<and> (\<forall>m f. da_name api (da_clear api f m) = da_name api m)
     \<and> (\<forall>m f v. da_get api (da_set api f v m) f = v)
     \<and> (\<forall>m f g v. populated api m f \<longrightarrow> g \<noteq> f \<longrightarrow>
          da_get api (da_set api f v m) g = da_get api m g \<and> da_has api (da_set api f v m) g = da_has api m g)
     \<and> (\<forall>m f. \<not> populated api (da_clear api f m) f)
     \<and> (\<forall>m f g. g \<noteq> f \<longrightarrow>
          da_get api (da_clear api f m) g = da_get api m g \<and> da_has api (da_clear api f m) g = da_has api m g)
     \<and> (\<forall>m. distinct (map fst (fields_of api m)))
     \<and> (\<forall>m f s. populated api m f \<longrightarrow> s \<in> set (value_messages (da_get api m f)) \<longrightarrow>
          da_depth api s < da_depth api m)"

lemma laws_name_set [simp]: "message_laws api \<Longrightarrow> da_name api (da_set api f v m) = da_name api m"
  unfolding message_laws_def by (drule conjunct1) (elim allE)

lemma laws_name_clear [simp]: "message_laws api \<Longrightarrow> da_name api (da_clear api f m) = da_name api m"
  unfolding message_laws_def by blast

lemma laws_get_set [simp]: "message_laws api \<Longrightarrow> da_get api (da_set api f v m) f = v"
  unfolding message_laws_def by blast

lemma laws_set_other:
  assumes "message_laws api" and "populated api m f" and "g \<noteq> f"
  shows "da_get api (da_set api f v m) g = da_get api m g"
    and "da_has api (da_set api f v m) g = da_has api m g"
  using assms unfolding message_laws_def by blast+

lemma laws_clear_other:
  assumes "message_laws api" and "g \<noteq> f"
  shows "da_get api (da_clear api f m) g = da_get api m g"
    and "da_has api (da_clear api f m) g = da_has api m g"
  using assms unfolding message_laws_def by blast+

lemma laws_populated_other:
  assumes "message_laws api" and "g \<noteq> f"
  shows "populated api (da_clear api f m) g = populated api m g"
    and "populated api m f \<Longrightarrow> populated api (da_set api f v m) g = populated api m g"
  using laws_clear_other [OF assms] laws_set_other [OF assms(1) _ assms(2)]
  by (simp_all only: populated_def [of api _ g])

lemma laws_cleared: "message_laws api \<Longrightarrow> \<not> populated api (da_clear api f m) f"
  unfolding message_laws_def by blast

lemma laws_distinct: "message_laws api \<Longrightarrow> distinct (map fst (fields_of api m))"
  unfolding message_laws_def by blast

lemma laws_depth:
  "message_laws api \<Longrightarrow> populated api m f \<Longrightarrow> s \<in> set (value_messages (da_get api m f)) \<Longrightarrow>
     da_depth api s < da_depth api m"
  unfolding message_laws_def by blast

lemma fields_of_set [simp]: "message_laws api \<Longrightarrow> fields_of api (da_set api f v m) = fields_of api m"
  by (simp add: fields_of_def)

lemma fields_of_clear [simp]: "message_laws api \<Longrightarrow> fields_of api (da_clear api f m) = fields_of api m"
  by (simp add: fields_of_def)

end
