(* ===== verification/Dynamic_Tree.thy ===== *)
theory Dynamic_Tree
  imports Dynamic
begin

text \<open>
  Messages as trees: the populated fields with their values. An instance of \<open>dyn_api\<close> for which
  \<open>message_laws\<close> is proved, so the laws the crates rely on can hold; the witnesses run on it.
\<close>

datatype tree = Tree string "(string \<times> tree rvalue) list"

fun tree_name :: "tree \<Rightarrow> string" where
  "tree_name (Tree n fs) = n"

fun tree_fields :: "tree \<Rightarrow> (string \<times> tree rvalue) list" where
  "tree_fields (Tree n fs) = fs"

type_synonym decls = "string \<Rightarrow> (string \<times> field_descriptor) list"

definition tree_default :: "field_descriptor option \<Rightarrow> tree rvalue" where
  "tree_default fd =
     (case fd of
        None \<Rightarrow> V_Bool False
      | Some d \<Rightarrow>
          if fd_is_list d then V_List []
          else if fd_is_map d then V_Map []
          else (case kind_message (fd_kind d) of Some n \<Rightarrow> V_Message (Tree n []) | None \<Rightarrow> V_Bool False))"

definition tree_get :: "decls \<Rightarrow> tree \<Rightarrow> string \<Rightarrow> tree rvalue" where
  "tree_get decl m f =
     (case map_of (tree_fields m) f of
        Some v \<Rightarrow> v
      | None \<Rightarrow> tree_default (map_of (decl (tree_name m)) f))"

definition tree_clear :: "string \<Rightarrow> tree \<Rightarrow> tree" where
  "tree_clear f m = Tree (tree_name m) (filter (\<lambda>(g, _). g \<noteq> f) (tree_fields m))"

definition tree_set :: "string \<Rightarrow> tree rvalue \<Rightarrow> tree \<Rightarrow> tree" where
  "tree_set f v m = Tree (tree_name m) ((f, v) # tree_fields (tree_clear f m))"

definition tree_api ::
  "decls \<Rightarrow> (string \<Rightarrow> string \<Rightarrow> int list) \<Rightarrow> tree dyn_api" where
  "tree_api decl behavior =
     \<lparr>da_pool = \<lparr>dp_field = (\<lambda>m f. map_of (decl m) f), dp_entry_key = (\<lambda>_. K_String),
                dp_entry_value = (\<lambda>_. K_String), dp_enum_values = (\<lambda>_. []), dp_enum_name = (\<lambda>_ _. None)\<rparr>,
      da_ops = \<lparr>mo_full_name = tree_name, mo_has_field = (\<lambda>m f. map_of (tree_fields m) f \<noteq> None),
               mo_get_field = tree_get decl, mo_clear_field = tree_clear, mo_encode = (\<lambda>_. [])\<rparr>,
      da_fields = decl,
      da_behavior = (\<lambda>m f. Some (V_List (map V_EnumNumber (behavior m f)))),
      da_set = tree_set,
      da_populated = (\<lambda>m. map (\<lambda>(f, v). (f, the (map_of (decl (tree_name m)) f), v)) (tree_fields m)),
      da_value_eq = (\<lambda>v w. v = w),
      da_depth = size\<rparr>"

lemma map_of_filter_other: "g \<noteq> f \<Longrightarrow> map_of (filter (\<lambda>(h, _). h \<noteq> f) fs) g = map_of fs g"
  by (induction fs) auto

lemma map_of_filter_same: "map_of (filter (\<lambda>(h, _). h \<noteq> f) fs) f = None"
  by (induction fs) auto

lemma size_value_message:
  "s \<in> set (value_messages v) \<Longrightarrow> size s < size_rvalue size v"
proof (cases v)
  case (V_List l)
  assume "s \<in> set (value_messages v)"
  then have "V_Message s \<in> set l"
    using V_List by (auto simp: List.map_filter_def split: rvalue.splits)
  then have "size_rvalue size (V_Message s) \<le> size_list (size_rvalue size) l"
    by (rule size_list_estimation') simp
  with V_List show ?thesis by simp
next
  case (V_Map kvs)
  assume "s \<in> set (value_messages v)"
  then obtain k where "(k, V_Message s) \<in> set kvs"
    using V_Map by (auto simp: List.map_filter_def split: rvalue.splits)
  then have "size_prod (size_rvalue size) (size_rvalue size) (k, V_Message s)
      \<le> size_list (size_prod (size_rvalue size) (size_rvalue size)) kvs"
    by (rule size_list_estimation') simp
  with V_Map show ?thesis by simp
qed auto

lemma tree_field_depth:
  assumes "(f, v) \<in> set (tree_fields m)" and "s \<in> set (value_messages v)"
  shows "size s < size m"
proof (cases m)
  case (Tree n fs)
  have "size_prod (\<lambda>_. 0) (size_rvalue size) (f, v) \<le> size_list (size_prod (\<lambda>_. 0) (size_rvalue size)) fs"
    using assms(1) Tree by (intro size_list_estimation' [of "(f, v)"]) simp_all
  with size_value_message [OF assms(2)] show ?thesis by (simp add: Tree)
qed

lemma tree_api_sel [simp]:
  "da_name (tree_api decl behavior) m = tree_name m"
  "da_has (tree_api decl behavior) m f = (map_of (tree_fields m) f \<noteq> None)"
  "da_get (tree_api decl behavior) m f = tree_get decl m f"
  "da_clear (tree_api decl behavior) f m = tree_clear f m"
  "da_set (tree_api decl behavior) = tree_set"
  "da_depth (tree_api decl behavior) = size"
  "fields_of (tree_api decl behavior) m = decl (tree_name m)"
  by (simp_all add: tree_api_def da_name_def da_has_def da_get_def da_clear_def fields_of_def)

theorem tree_laws:
  assumes "\<And>n. distinct (map fst (decl n))"
  shows "message_laws (tree_api decl behavior)"
  unfolding message_laws_def tree_api_sel
proof (intro conjI allI impI)
  fix m :: tree and f g :: string and v s :: "tree rvalue" and t :: tree
  show "tree_name (tree_set f v m) = tree_name m" and "tree_name (tree_clear f m) = tree_name m"
    and "tree_get decl (tree_set f v m) f = v"
    by (simp_all add: tree_set_def tree_clear_def tree_get_def)
  show "g \<noteq> f \<Longrightarrow> tree_get decl (tree_set f v m) g = tree_get decl m g"
    and "g \<noteq> f \<Longrightarrow> (map_of (tree_fields (tree_set f v m)) g \<noteq> None) = (map_of (tree_fields m) g \<noteq> None)"
    and "g \<noteq> f \<Longrightarrow> tree_get decl (tree_clear f m) g = tree_get decl m g"
    and "g \<noteq> f \<Longrightarrow> (map_of (tree_fields (tree_clear f m)) g \<noteq> None) = (map_of (tree_fields m) g \<noteq> None)"
    by (simp_all add: tree_set_def tree_clear_def tree_get_def map_of_filter_other split: option.split)
  show "\<not> populated (tree_api decl behavior) (tree_clear f m) f"
    by (simp add: populated_def tree_clear_def tree_get_def map_of_filter_same tree_default_def
        split: option.split)
  show "distinct (map fst (decl (tree_name m)))" by (rule assms)
  show "size t < size m" if "populated (tree_api decl behavior) m f" "t \<in> set (value_messages (tree_get decl m f))"
  proof (cases "map_of (tree_fields m) f")
    case None
    with that show ?thesis
      by (auto simp: populated_def tree_get_def tree_default_def split: option.splits if_splits)
  next
    case (Some v)
    with that(2) tree_field_depth [OF map_of_SomeD [OF Some], of t] show ?thesis by (simp add: tree_get_def)
  qed
qed

lemma tree_other_field:
  assumes "g \<noteq> f"
  shows "tree_get decl (tree_set f v m) g = tree_get decl m g"
    and "map_of (tree_fields (tree_set f v m)) g = map_of (tree_fields m) g"
  using assms by (simp_all add: tree_set_def tree_clear_def tree_get_def map_of_filter_other split: option.split)

lemma tree_set_present: "map_of (tree_fields (tree_set f v m)) f = Some v"
  by (simp add: tree_set_def)

end
