(* ===== verification/Field_Behavior.thy ===== *)
theory Field_Behavior
  imports Dynamic_Tree Status
begin

text \<open>
  \<open>crates/aip-fieldbehavior/src/lib.rs\<close>: clearing, copying and validating the fields of a message by
  their \<open>google.api.field_behavior\<close> annotation. Recursion into nested messages takes fuel, the
  nesting depth of the message plus one; the lemmas show that it never runs out.
\<close>

subsection \<open>Annotations\<close>

datatype field_behavior =
  FB_Optional | FB_Required | FB_OutputOnly | FB_InputOnly | FB_Immutable | FB_UnorderedList
| FB_NonEmptyDefault | FB_Identifier

definition fb_try_from :: "int \<Rightarrow> field_behavior option" where
  "fb_try_from n =
     (if n = 1 then Some FB_Optional
      else if n = 2 then Some FB_Required
      else if n = 3 then Some FB_OutputOnly
      else if n = 4 then Some FB_InputOnly
      else if n = 5 then Some FB_Immutable
      else if n = 6 then Some FB_UnorderedList
      else if n = 7 then Some FB_NonEmptyDefault
      else if n = 8 then Some FB_Identifier
      else None)"

text \<open>\<open>da_behavior\<close> is the value of the extension on the field's options, if it is set.\<close>

definition behaviors_of :: "'m dyn_api \<Rightarrow> 'm \<Rightarrow> string \<Rightarrow> field_behavior list" where
  "behaviors_of api m f =
     (case da_behavior api (da_name api m) f of
        Some (V_List vs) \<Rightarrow>
          List.map_filter (\<lambda>v. case v of V_EnumNumber n \<Rightarrow> fb_try_from n | _ \<Rightarrow> None) vs
      | _ \<Rightarrow> [])"

definition has_behavior :: "'m dyn_api \<Rightarrow> 'm \<Rightarrow> string \<Rightarrow> field_behavior \<Rightarrow> bool" where
  "has_behavior api m f want \<longleftrightarrow> want \<in> set (behaviors_of api m f)"

definition has_any_behavior :: "field_behavior list \<Rightarrow> field_behavior list \<Rightarrow> bool" where
  "has_any_behavior haystack needles \<longleftrightarrow> list_ex (\<lambda>n. n \<in> set haystack) needles"

text \<open>\<open>*f != 0.0\<close>: a NaN differs from zero.\<close>

fun f64_nonzero :: "f64 \<Rightarrow> bool" where
  "f64_nonzero (Fin _ m _) = (m \<noteq> 0)"
| "f64_nonzero _ = True"

definition is_field_present :: "'m dyn_api \<Rightarrow> 'm \<Rightarrow> string \<Rightarrow> field_descriptor \<Rightarrow> bool" where
  "is_field_present api m f fd =
     (let v = da_get api m f in
      if fd_is_list fd then (case v of V_List l \<Rightarrow> l \<noteq> [] | _ \<Rightarrow> False)
      else if fd_is_map fd then (case v of V_Map kvs \<Rightarrow> kvs \<noteq> [] | _ \<Rightarrow> False)
      else (case fd_kind fd of
              K_Message _ \<Rightarrow> da_has api m f
            | K_Bool \<Rightarrow> (case v of V_Bool b \<Rightarrow> b | _ \<Rightarrow> False)
            | K_Int32 \<Rightarrow> (case v of V_I32 n \<Rightarrow> n \<noteq> 0 | _ \<Rightarrow> False)
            | K_Sint32 \<Rightarrow> (case v of V_I32 n \<Rightarrow> n \<noteq> 0 | _ \<Rightarrow> False)
            | K_Sfixed32 \<Rightarrow> (case v of V_I32 n \<Rightarrow> n \<noteq> 0 | _ \<Rightarrow> False)
            | K_Int64 \<Rightarrow> (case v of V_I64 n \<Rightarrow> n \<noteq> 0 | _ \<Rightarrow> False)
            | K_Sint64 \<Rightarrow> (case v of V_I64 n \<Rightarrow> n \<noteq> 0 | _ \<Rightarrow> False)
            | K_Sfixed64 \<Rightarrow> (case v of V_I64 n \<Rightarrow> n \<noteq> 0 | _ \<Rightarrow> False)
            | K_Uint32 \<Rightarrow> (case v of V_U32 n \<Rightarrow> n \<noteq> 0 | _ \<Rightarrow> False)
            | K_Fixed32 \<Rightarrow> (case v of V_U32 n \<Rightarrow> n \<noteq> 0 | _ \<Rightarrow> False)
            | K_Uint64 \<Rightarrow> (case v of V_U64 n \<Rightarrow> n \<noteq> 0 | _ \<Rightarrow> False)
            | K_Fixed64 \<Rightarrow> (case v of V_U64 n \<Rightarrow> n \<noteq> 0 | _ \<Rightarrow> False)
            | K_Float \<Rightarrow> (case v of V_F32 x \<Rightarrow> f64_nonzero x | _ \<Rightarrow> False)
            | K_Double \<Rightarrow> (case v of V_F64 x \<Rightarrow> f64_nonzero x | _ \<Rightarrow> False)
            | K_String \<Rightarrow> (case v of V_String s \<Rightarrow> s \<noteq> [] | _ \<Rightarrow> False)
            | K_Bytes \<Rightarrow> (case v of V_Bytes s \<Rightarrow> s \<noteq> [] | _ \<Rightarrow> False)
            | K_Enum _ \<Rightarrow> (case v of V_EnumNumber n \<Rightarrow> n \<noteq> 0 | _ \<Rightarrow> False)))"

subsection \<open>Clearing and copying\<close>

text \<open>The fields \<open>clear_in_dynamic\<close> does not skip.\<close>

definition considered :: "'m dyn_api \<Rightarrow> 'm \<Rightarrow> string \<times> field_descriptor \<Rightarrow> bool" where
  "considered api m f \<longleftrightarrow>
     (case f of (name, fd) \<Rightarrow>
        da_has api m name
        \<or> ((fd_is_list fd \<or> fd_is_map fd)
           \<and> (case da_get api m name of V_List l \<Rightarrow> l \<noteq> [] | V_Map kvs \<Rightarrow> kvs \<noteq> [] | _ \<Rightarrow> False)))"

text \<open>\<open>if let Value::Message(nested) = item\<close>, in place.\<close>

definition on_message :: "('m \<Rightarrow> 'm) \<Rightarrow> 'm rvalue \<Rightarrow> 'm rvalue" where
  "on_message g v = (case v of V_Message nested \<Rightarrow> V_Message (g nested) | _ \<Rightarrow> v)"

text \<open>Whether the value field of a map entry is a message.\<close>

definition entry_is_message :: "'m dyn_api \<Rightarrow> string \<Rightarrow> bool" where
  "entry_is_message api entry \<longleftrightarrow> kind_message (dp_entry_value (da_pool api) entry) \<noteq> None"

definition recurse_clear ::
  "'m dyn_api \<Rightarrow> ('m \<Rightarrow> 'm) \<Rightarrow> string \<times> field_descriptor \<Rightarrow> 'm \<Rightarrow> 'm" where
  "recurse_clear api clear f m =
     (case f of (name, fd) \<Rightarrow>
        if fd_is_list fd then
          (case da_get api m name of
             V_List l \<Rightarrow> da_set api name (V_List (map (on_message clear) l)) m
           | _ \<Rightarrow> m)
        else if fd_is_map fd then
          (case kind_message (fd_kind fd) of
             None \<Rightarrow> m
           | Some entry \<Rightarrow>
               if \<not> entry_is_message api entry then m
               else (case da_get api m name of
                       V_Map kvs \<Rightarrow> da_set api name (V_Map (map (\<lambda>(k, v). (k, on_message clear v)) kvs)) m
                     | _ \<Rightarrow> m))
        else
          (case da_get api m name of
             V_Message nested \<Rightarrow> da_set api name (V_Message (clear nested)) m
           | _ \<Rightarrow> m))"

fun clear_in_dynamic :: "'m dyn_api \<Rightarrow> field_behavior list \<Rightarrow> nat \<Rightarrow> 'm \<Rightarrow> 'm" where
  "clear_in_dynamic api behaviors 0 m = m"
| "clear_in_dynamic api behaviors (Suc n) m =
     (let all_fields = filter (considered api m) (fields_of api m);
          to_clear = filter (\<lambda>(f, fd). has_any_behavior (behaviors_of api m f) behaviors) all_fields;
          to_recurse = filter (\<lambda>(f, fd). \<not> has_any_behavior (behaviors_of api m f) behaviors
                                         \<and> is_message_kind fd) all_fields;
          m = fold (\<lambda>(f, fd). da_clear api f) to_clear m
      in fold (recurse_clear api (clear_in_dynamic api behaviors n)) to_recurse m)"

definition clear_fields_dynamic :: "'m dyn_api \<Rightarrow> field_behavior list \<Rightarrow> 'm \<Rightarrow> 'm" where
  "clear_fields_dynamic api behaviors m = clear_in_dynamic api behaviors (Suc (da_depth api m)) m"

text \<open>The typed facades transcode through the wire bytes; \<open>to_dyn\<close> and \<open>of_dyn\<close> are the two ways.\<close>

definition clear_fields ::
  "('a \<Rightarrow> 'm) \<Rightarrow> ('m \<Rightarrow> 'a) \<Rightarrow> 'm dyn_api \<Rightarrow> field_behavior list \<Rightarrow> 'a \<Rightarrow> 'a" where
  "clear_fields to_dyn of_dyn api behaviors msg = of_dyn (clear_fields_dynamic api behaviors (to_dyn msg))"

text \<open>\<open>None\<close> is the panic on different message types.\<close>

definition copy_fields_dynamic :: "'m dyn_api \<Rightarrow> field_behavior list \<Rightarrow> 'm \<Rightarrow> 'm \<Rightarrow> 'm option" where
  "copy_fields_dynamic api behaviors dst src =
     (if da_name api dst \<noteq> da_name api src then None
      else Some (fold (\<lambda>(f, fd) d.
             if \<not> has_any_behavior (behaviors_of api dst f) behaviors then d
             else if is_field_present api src f fd then da_set api f (da_get api src f) d
             else da_clear api f d) (fields_of api dst) dst))"

definition copy_fields ::
  "('a \<Rightarrow> 'm) \<Rightarrow> ('m \<Rightarrow> 'a) \<Rightarrow> 'm dyn_api \<Rightarrow> field_behavior list \<Rightarrow> 'a \<Rightarrow> 'a \<Rightarrow> 'a option" where
  "copy_fields to_dyn of_dyn api behaviors dst src =
     map_option of_dyn (copy_fields_dynamic api behaviors (to_dyn dst) (to_dyn src))"

subsection \<open>What clearing does\<close>

fun deep :: "('m \<Rightarrow> 'm) \<Rightarrow> 'm rvalue \<Rightarrow> 'm rvalue" where
  "deep c (V_Message s) = V_Message (c s)"
| "deep c (V_List l) = V_List (map (on_message c) l)"
| "deep c (V_Map kvs) = V_Map (map (\<lambda>(k, v). (k, on_message c v)) kvs)"
| "deep c v = v"

definition shape :: "'m dyn_api \<Rightarrow> field_descriptor \<Rightarrow> 'm rvalue \<Rightarrow> bool" where
  "shape api fd v \<longleftrightarrow>
     (case v of
        V_List _ \<Rightarrow> fd_is_list fd \<and> (value_messages v \<noteq> [] \<longrightarrow> is_message_kind fd)
      | V_Map _ \<Rightarrow> \<not> fd_is_list fd \<and> fd_is_map fd
                   \<and> (value_messages v \<noteq> [] \<longrightarrow> (\<exists>e. fd_kind fd = K_Message e \<and> entry_is_message api e))
      | V_Message _ \<Rightarrow> \<not> fd_is_list fd \<and> \<not> fd_is_map fd \<and> is_message_kind fd
      | _ \<Rightarrow> \<not> fd_is_list fd \<and> \<not> fd_is_map fd)"

text \<open>The messages nested in a message through its populated fields, itself included.\<close>

inductive nested :: "'m dyn_api \<Rightarrow> 'm \<Rightarrow> 'm \<Rightarrow> bool" for api where
  here: "nested api m m"
| inside: "(f, fd) \<in> set (fields_of api m) \<Longrightarrow> populated api m f
    \<Longrightarrow> s \<in> set (value_messages (da_get api m f)) \<Longrightarrow> nested api s m' \<Longrightarrow> nested api m m'"

text \<open>Every nested value has the shape its field descriptor declares.\<close>

definition fits :: "'m dyn_api \<Rightarrow> 'm \<Rightarrow> bool" where
  "fits api m \<longleftrightarrow>
     (\<forall>m' f fd. nested api m m' \<longrightarrow> (f, fd) \<in> set (fields_of api m') \<longrightarrow> populated api m' f
        \<longrightarrow> shape api fd (da_get api m' f))"

lemma fits_inside:
  "fits api m \<Longrightarrow> (f, fd) \<in> set (fields_of api m) \<Longrightarrow> populated api m f \<Longrightarrow>
     s \<in> set (value_messages (da_get api m f)) \<Longrightarrow> fits api s"
  unfolding fits_def by (blast intro: nested.inside)

lemma fits_shape:
  "fits api m \<Longrightarrow> (f, fd) \<in> set (fields_of api m) \<Longrightarrow> populated api m f \<Longrightarrow> shape api fd (da_get api m f)"
  unfolding fits_def by (blast intro: nested.here)

lemma considered_populated:
  assumes "(f, fd) \<in> set (fields_of api m)" and "fits api m"
  shows "considered api m (f, fd) = populated api m f"
proof
  assume "populated api m f"
  moreover from fits_shape [OF assms(2,1) this] have "shape api fd (da_get api m f)" .
  ultimately show "considered api m (f, fd)"
    by (auto simp: considered_def populated_def shape_def split: rvalue.splits)
qed (auto simp: considered_def populated_def split: rvalue.splits)

lemma value_messages_list:
  "value_messages (V_List (map (on_message c) l)) = map c (value_messages (V_List l))"
  by (induction l) (auto simp: map_filter_simps on_message_def split: rvalue.splits)

lemma value_messages_map:
  "value_messages (V_Map (map (\<lambda>(k, v). (k, on_message c v)) kvs)) = map c (value_messages (V_Map kvs))"
  by (induction kvs) (auto simp: map_filter_simps on_message_def split: rvalue.splits)

lemma value_messages_deep: "value_messages (deep c v) = map c (value_messages v)"
  by (cases v) (simp_all only: deep.simps value_messages_list value_messages_map, simp_all)

lemma deep_no_messages: "value_messages v = [] \<Longrightarrow> deep c v = v"
proof (cases "(c, v)" rule: deep.cases)
  case (2 c' l)
  assume "value_messages v = []"
  then have "\<forall>x \<in> set l. on_message c x = x"
    using 2 by (auto simp: List.map_filter_def on_message_def filter_empty_conv split: rvalue.splits)
  then show ?thesis using 2 by (auto intro: map_idI)
next
  case (3 c' kvs)
  assume "value_messages v = []"
  then have "\<forall>(k, x) \<in> set kvs. on_message c x = x"
    using 3 by (auto simp: List.map_filter_def on_message_def filter_empty_conv split: rvalue.splits prod.splits)
  then show ?thesis using 3 by (auto intro!: map_idI)
qed auto

text \<open>One step of the second pass rewrites its field and no other.\<close>

lemma recurse_clear_get:
  assumes laws: "message_laws api" and shape: "shape api fd (da_get api m f)" and kind: "is_message_kind fd"
  shows "da_get api (recurse_clear api c (f, fd) m) f = deep c (da_get api m f)"
proof (cases "da_get api m f")
  case (V_Map kvs)
  show ?thesis
  proof (cases "value_messages (V_Map kvs) = []")
    case True
    from deep_no_messages [OF this] have "deep c (V_Map kvs) = V_Map kvs" .
    then show ?thesis using V_Map shape laws
      by (auto simp: recurse_clear_def shape_def split: option.split)
  next
    case False
    with V_Map shape laws show ?thesis by (auto simp: recurse_clear_def shape_def)
  qed
qed (use assms in \<open>auto simp: recurse_clear_def shape_def\<close>)

lemma recurse_clear_frame:
  assumes "message_laws api" and "populated api m f"
  shows "da_name api (recurse_clear api c (f, fd) m) = da_name api m"
    and "g \<noteq> f \<Longrightarrow> da_get api (recurse_clear api c (f, fd) m) g = da_get api m g"
    and "g \<noteq> f \<Longrightarrow> da_has api (recurse_clear api c (f, fd) m) g = da_has api m g"
  using assms laws_set_other [OF assms]
  by (auto simp: recurse_clear_def split: rvalue.split option.split)

lemma populated_cong:
  "da_get api m' g = da_get api m g \<Longrightarrow> da_has api m' g = da_has api m g \<Longrightarrow> populated api m' g = populated api m g"
  by (simp add: populated_def)

lemma clear_pass:
  assumes "message_laws api"
  defines "step \<equiv> \<lambda>(f, fd). da_clear api f"
  shows "da_name api (fold step xs m) = da_name api m
    \<and> (f \<in> fst ` set xs \<longrightarrow> \<not> populated api (fold step xs m) f)
    \<and> (f \<notin> fst ` set xs \<longrightarrow> da_get api (fold step xs m) f = da_get api m f
         \<and> da_has api (fold step xs m) f = da_has api m f)"
proof (induction xs arbitrary: m)
  case (Cons x xs)
  obtain g fd where x: "x = (g, fd)" by (cases x)
  note IH = Cons.IH [of "da_clear api g m"]
  show ?case
  proof (cases "f \<in> fst ` set xs")
    case True
    with IH assms(1) show ?thesis by (simp add: x step_def)
  next
    case False
    show ?thesis
    proof (cases "f = g")
      case True
      from False IH have "populated api (fold step xs (da_clear api g m)) f = populated api (da_clear api g m) f"
        by (intro populated_cong) simp_all
      with True False IH assms(1) laws_cleared [OF assms(1)] show ?thesis by (simp add: x step_def)
    next
      case neq: False
      with False IH assms(1) laws_clear_other [OF assms(1) neq] show ?thesis by (simp add: x step_def)
    qed
  qed
qed simp

lemma recurse_pass:
  assumes "message_laws api" and "distinct (map fst xs)"
    and "\<forall>(f, fd) \<in> set xs. populated api m f \<and> shape api fd (da_get api m f) \<and> is_message_kind fd"
  shows "da_name api (fold (recurse_clear api c) xs m) = da_name api m
    \<and> (f \<in> fst ` set xs \<longrightarrow> da_get api (fold (recurse_clear api c) xs m) f = deep c (da_get api m f))
    \<and> (f \<notin> fst ` set xs \<longrightarrow> da_get api (fold (recurse_clear api c) xs m) f = da_get api m f
         \<and> da_has api (fold (recurse_clear api c) xs m) f = da_has api m f)"
  using assms(2,3)
proof (induction xs arbitrary: m)
  case (Cons x xs)
  obtain g fd where x: "x = (g, fd)" by (cases x)
  let ?m = "recurse_clear api c (g, fd) m"
  from Cons.prems have g: "populated api m g" "shape api fd (da_get api m g)" "is_message_kind fd"
    and fresh: "g \<notin> fst ` set xs" by (auto simp: x)
  note frame = recurse_clear_frame [OF assms(1) g(1), where c = c and fd = fd]
  have "\<forall>(h, hd) \<in> set xs. populated api ?m h \<and> shape api hd (da_get api ?m h) \<and> is_message_kind hd"
  proof (intro ballI, clarify)
    fix h hd assume h: "(h, hd) \<in> set xs"
    with fresh have "h \<noteq> g" by force
    with frame have eq: "da_get api ?m h = da_get api m h" "da_has api ?m h = da_has api m h" by simp_all
    from h Cons.prems(2) have "populated api m h \<and> shape api hd (da_get api m h) \<and> is_message_kind hd"
      by (auto simp: x)
    then show "populated api ?m h \<and> shape api hd (da_get api ?m h) \<and> is_message_kind hd"
      using populated_cong [OF eq] eq by simp
  qed
  with Cons.IH [of ?m] Cons.prems(1)
  have IH: "da_name api (fold (recurse_clear api c) xs ?m) = da_name api ?m
    \<and> (f \<in> fst ` set xs \<longrightarrow> da_get api (fold (recurse_clear api c) xs ?m) f = deep c (da_get api ?m f))
    \<and> (f \<notin> fst ` set xs \<longrightarrow> da_get api (fold (recurse_clear api c) xs ?m) f = da_get api ?m f
         \<and> da_has api (fold (recurse_clear api c) xs ?m) f = da_has api ?m f)"
    by (simp add: x)
  show ?case
  proof (cases "f = g")
    case True
    with IH fresh frame recurse_clear_get [OF assms(1) g(2,3)] show ?thesis by (simp add: x)
  next
    case False
    with IH frame show ?thesis by (simp add: x)
  qed
qed simp

abbreviation annotated :: "'m dyn_api \<Rightarrow> field_behavior list \<Rightarrow> 'm \<Rightarrow> string \<Rightarrow> bool" where
  "annotated api behaviors m f \<equiv> has_any_behavior (behaviors_of api m f) behaviors"

lemma annotated_name: "da_name api m' = da_name api m \<Longrightarrow> annotated api bs m' f = annotated api bs m f"
  by (simp add: behaviors_of_def)

lemma fields_of_name: "da_name api m' = da_name api m \<Longrightarrow> fields_of api m' = fields_of api m"
  by (simp add: fields_of_def)

text \<open>What one level of clearing leaves in a declared field.\<close>

lemma clear_level:
  fixes api :: "'m dyn_api" and bs :: "field_behavior list" and n :: nat and m :: 'm
  assumes laws: "message_laws api" and fits: "fits api m" and f: "(f, fd) \<in> set (fields_of api m)"
  defines "m' \<equiv> clear_in_dynamic api bs (Suc n) m"
  shows "da_name api m' = da_name api m"
    and "populated api m f \<Longrightarrow> annotated api bs m f \<Longrightarrow> \<not> populated api m' f"
    and "populated api m f \<Longrightarrow> \<not> annotated api bs m f \<Longrightarrow> is_message_kind fd \<Longrightarrow>
           da_get api m' f = deep (clear_in_dynamic api bs n) (da_get api m f)"
    and "\<not> populated api m f \<or> (\<not> annotated api bs m f \<and> \<not> is_message_kind fd) \<Longrightarrow>
           da_get api m' f = da_get api m f \<and> da_has api m' f = da_has api m f"
proof -
  define fs where "fs = filter (considered api m) (fields_of api m)"
  define cl where "cl = filter (\<lambda>(f, fd). annotated api bs m f) fs"
  define rc where "rc = filter (\<lambda>(f, fd). \<not> annotated api bs m f \<and> is_message_kind fd) fs"
  define m1 where "m1 = fold (\<lambda>(f, fd). da_clear api f) cl m"
  have m': "m' = fold (recurse_clear api (clear_in_dynamic api bs n)) rc m1"
    by (simp add: m'_def Let_def fs_def cl_def rc_def m1_def)
  have fs_iff: "(g, gd) \<in> set fs \<longleftrightarrow> (g, gd) \<in> set (fields_of api m) \<and> populated api m g" for g gd
    using considered_populated [OF _ fits] by (auto simp: fs_def)
  have uniq: "gd = fd" if "(f, gd) \<in> set (fields_of api m)" for gd
    using that f laws_distinct [OF laws] by (meson eq_key_imp_eq_value)
  have in_fs: "f \<in> fst ` set xs \<longleftrightarrow> (f, fd) \<in> set xs" if "set xs \<subseteq> set fs" for xs
  proof
    assume "f \<in> fst ` set xs"
    then obtain gd where gd: "(f, gd) \<in> set xs" by auto
    with that have "(f, gd) \<in> set fs" by blast
    with gd uniq show "(f, fd) \<in> set xs" by (auto simp: fs_iff)
  qed force
  have cl_f: "f \<in> fst ` set cl \<longleftrightarrow> populated api m f \<and> annotated api bs m f"
    using f by (subst in_fs) (auto simp: cl_def fs_iff)
  have rc_f: "f \<in> fst ` set rc \<longleftrightarrow> populated api m f \<and> \<not> annotated api bs m f \<and> is_message_kind fd"
    using f by (subst in_fs) (auto simp: rc_def fs_iff)
  note pass1 = clear_pass [OF laws, of cl m f, folded m1_def]
  have other: "da_get api m1 g = da_get api m g \<and> da_has api m1 g = da_has api m g"
    if "g \<notin> fst ` set cl" for g
    using that clear_pass [OF laws, of cl m g, folded m1_def] by blast
  have "distinct (map fst rc)"
    using laws_distinct [OF laws] unfolding rc_def fs_def
    by (intro distinct_map_filter) simp
  moreover have "\<forall>(g, gd) \<in> set rc. populated api m1 g \<and> shape api gd (da_get api m1 g) \<and> is_message_kind gd"
  proof (intro ballI, clarify)
    fix g gd assume g: "(g, gd) \<in> set rc"
    then have gm: "(g, gd) \<in> set (fields_of api m)" "populated api m g" "\<not> annotated api bs m g" "is_message_kind gd"
      by (auto simp: rc_def fs_iff)
    then have "g \<notin> fst ` set cl" by (auto simp: cl_def)
    from other [OF this] gm fits_shape [OF fits gm(1,2)] populated_cong [of api m1 g m]
    show "populated api m1 g \<and> shape api gd (da_get api m1 g) \<and> is_message_kind gd" by simp
  qed
  ultimately have pass2: "da_name api m' = da_name api m1
    \<and> (f \<in> fst ` set rc \<longrightarrow> da_get api m' f = deep (clear_in_dynamic api bs n) (da_get api m1 f))
    \<and> (f \<notin> fst ` set rc \<longrightarrow> da_get api m' f = da_get api m1 f \<and> da_has api m' f = da_has api m1 f)"
    unfolding m' by (intro recurse_pass [OF laws])
  show "da_name api m' = da_name api m" using pass1 pass2 by simp
  show "populated api m f \<Longrightarrow> annotated api bs m f \<Longrightarrow> \<not> populated api m' f"
    using pass1 pass2 cl_f rc_f populated_cong [of api m' f m1] by blast
  show "da_get api m' f = deep (clear_in_dynamic api bs n) (da_get api m f)"
    if "populated api m f" "\<not> annotated api bs m f" "is_message_kind fd"
    using that pass2 cl_f rc_f other [of f] by simp
  show "da_get api m' f = da_get api m f \<and> da_has api m' f = da_has api m f"
    if "\<not> populated api m f \<or> (\<not> annotated api bs m f \<and> \<not> is_message_kind fd)"
    using that pass2 cl_f rc_f other [of f] by auto
qed

declare clear_in_dynamic.simps(2) [simp del]

lemma shape_messages: "shape api fd v \<Longrightarrow> value_messages v \<noteq> [] \<Longrightarrow> is_message_kind fd"
  by (auto simp: shape_def is_message_kind_def split: rvalue.splits)

lemma cleared_everywhere:
  assumes laws: "message_laws api"
  shows "fits api m \<Longrightarrow> da_depth api m \<le> n \<Longrightarrow> nested api (clear_in_dynamic api bs (Suc n) m) m''
    \<Longrightarrow> (f, fd) \<in> set (fields_of api m'') \<Longrightarrow> populated api m'' f \<Longrightarrow> \<not> annotated api bs m'' f"
proof (induction n arbitrary: m rule: less_induct)
  case (less n)
  let ?m' = "clear_in_dynamic api bs (Suc n) m"
  have name: "da_name api ?m' = da_name api m" if "(g, gd) \<in> set (fields_of api m)" for g gd
    using clear_level(1) [OF laws less.prems(1) that] .
  have fields: "fields_of api ?m' = fields_of api m" if "(g, gd) \<in> set (fields_of api ?m')" for g gd
  proof (cases "fields_of api m")
    case Nil
    then have "?m' = m" by (simp add: clear_in_dynamic.simps)
    then show ?thesis by simp
  next
    case (Cons x xs)
    then obtain g gd where "(g, gd) \<in> set (fields_of api m)" by (cases x) auto
    from name [OF this] show ?thesis by (rule fields_of_name)
  qed
  have kept: "populated api m g \<and> \<not> annotated api bs m g"
    if g: "(g, gd) \<in> set (fields_of api m)" and pop: "populated api ?m' g" for g gd
  proof -
    have "populated api m g"
    proof (rule ccontr)
      assume "\<not> populated api m g"
      from clear_level(4) [OF laws less.prems(1) g disjI1 [OF this], of bs n]
      have "populated api ?m' g = populated api m g" by (intro populated_cong) blast+
      with pop \<open>\<not> populated api m g\<close> show False by blast
    qed
    with clear_level(2) [OF laws less.prems(1) g] pop show ?thesis by blast
  qed
  from less.prems(3) show ?case
  proof cases
    case here
    then have f: "(f, fd) \<in> set (fields_of api m)" using less.prems(4) fields by simp
    from kept [OF this] less.prems(5) here name [OF f] annotated_name [of api ?m' m f bs] show ?thesis by simp
  next
    case (inside g gd s)
    then have g: "(g, gd) \<in> set (fields_of api m)" using fields by simp
    with kept inside have pop: "populated api m g" and un: "\<not> annotated api bs m g" by auto
    have kind: "is_message_kind gd"
    proof (rule ccontr)
      assume no: "\<not> is_message_kind gd"
      with un clear_level(4) [OF laws less.prems(1) g, of bs n] have "da_get api ?m' g = da_get api m g" by blast
      with inside(3) have "value_messages (da_get api m g) \<noteq> []" by auto
      with shape_messages [OF fits_shape [OF less.prems(1) g pop]] no show False by blast
    qed
    from clear_level(3) [OF laws less.prems(1) g pop un kind, of n] inside(3)
    obtain s0 where s0: "s0 \<in> set (value_messages (da_get api m g))" "s = clear_in_dynamic api bs n s0"
      by (auto simp: value_messages_deep)
    have depth: "da_depth api s0 < da_depth api m" by (rule laws_depth [OF laws pop s0(1)])
    with less.prems(2) obtain k where k: "n = Suc k" "da_depth api s0 \<le> k" by (cases n) auto
    show ?thesis
      using less.IH [of k s0] k fits_inside [OF less.prems(1) g pop s0(1)] inside(4) s0(2) less.prems(4,5)
      by simp
  qed
qed

subsection \<open>Validation\<close>

datatype fb_error =
  RequiredFields "string list"
| ImmutableField string
| FbTypeMismatch string string

definition join_path :: "string \<Rightarrow> string \<Rightarrow> string" where
  "join_path pre name = (if pre = [] then name else pre @ ''.'' @ name)"

text \<open>\<open>prost_types::FieldMask\<close> is its list of paths.\<close>

type_synonym field_mask = "string list"

definition has_exact_path :: "field_mask \<Rightarrow> string \<Rightarrow> bool" where
  "has_exact_path fmask needle \<longleftrightarrow> list_ex (\<lambda>p. p = ''*'' \<or> p = needle) fmask"

definition has_path_with_prefix :: "field_mask \<Rightarrow> string \<Rightarrow> bool" where
  "has_path_with_prefix fmask needle \<longleftrightarrow>
     fmask = []
     \<or> list_ex (\<lambda>straw. straw = ''*'' \<or> straw = needle
          \<or> (length straw < length needle \<and> starts_with needle straw
             \<and> needle ! length straw = CHR ''.'')) fmask"

text \<open>The messages of a present field that \<open>validate_required_inner\<close> recurses into.\<close>

definition required_children :: "'m dyn_api \<Rightarrow> 'm \<Rightarrow> string \<Rightarrow> field_descriptor \<Rightarrow> 'm list" where
  "required_children api m f fd =
     (case kind_message (fd_kind fd) of
        None \<Rightarrow> []
      | Some entry \<Rightarrow>
          if fd_is_list fd then
            (case da_get api m f of V_List l \<Rightarrow> value_messages (V_List l) | _ \<Rightarrow> [])
          else if fd_is_map fd then
            (if \<not> entry_is_message api entry then []
             else (case da_get api m f of V_Map kvs \<Rightarrow> value_messages (V_Map kvs) | _ \<Rightarrow> []))
          else (case da_get api m f of V_Message s \<Rightarrow> [s] | _ \<Rightarrow> []))"

fun validate_required_inner ::
  "'m dyn_api \<Rightarrow> field_mask option \<Rightarrow> nat \<Rightarrow> 'm \<Rightarrow> string \<Rightarrow> string list" where
  "validate_required_inner api fmask 0 m path = []"
| "validate_required_inner api fmask (Suc n) m path =
     concat (map (\<lambda>(f, fd).
       let curr_path = join_path path f in
       if \<not> is_field_present api m f fd then
         (if has_behavior api m f FB_Required
             \<and> (case fmask of None \<Rightarrow> True | Some mk \<Rightarrow> has_exact_path mk curr_path)
          then [curr_path] else [])
       else concat (map (\<lambda>s. validate_required_inner api fmask n s curr_path)
                     (required_children api m f fd))) (fields_of api m))"

definition into_required_result :: "string list \<Rightarrow> fb_error + unit" where
  "into_required_result paths = (if paths = [] then Inr () else Inl (RequiredFields paths))"

definition validate_required_dynamic :: "'m dyn_api \<Rightarrow> 'm \<Rightarrow> fb_error + unit" where
  "validate_required_dynamic api m =
     into_required_result (validate_required_inner api None (Suc (da_depth api m)) m [])"

definition validate_required_with_mask_dynamic :: "'m dyn_api \<Rightarrow> 'm \<Rightarrow> field_mask \<Rightarrow> fb_error + unit" where
  "validate_required_with_mask_dynamic api m fmask =
     (if fmask = [] then Inr ()
      else into_required_result (validate_required_inner api (Some fmask) (Suc (da_depth api m)) m []))"

text \<open>The pairs of nested messages \<open>validate_immutable_inner\<close> compares in one field.\<close>

definition both_messages :: "'m rvalue \<times> 'm rvalue \<Rightarrow> ('m \<times> 'm) option" where
  "both_messages p = (case p of (V_Message a, V_Message b) \<Rightarrow> Some (a, b) | _ \<Rightarrow> None)"

definition immutable_children ::
  "'m dyn_api \<Rightarrow> 'm \<Rightarrow> 'm \<Rightarrow> string \<Rightarrow> field_descriptor \<Rightarrow> ('m \<times> 'm) list" where
  "immutable_children api old updated f fd =
     (case kind_message (fd_kind fd) of
        None \<Rightarrow> []
      | Some entry \<Rightarrow>
          if fd_is_list fd then
            (case (da_get api old f, da_get api updated f) of
               (V_List old_list, V_List upd_list) \<Rightarrow>
                 if old_list = [] \<or> upd_list = [] then []
                 else List.map_filter both_messages (zip old_list upd_list)
             | _ \<Rightarrow> [])
          else if fd_is_map fd then
            (if \<not> entry_is_message api entry then []
             else
               (case (da_get api old f, da_get api updated f) of
                  (V_Map old_map, V_Map upd_map) \<Rightarrow>
                    if old_map = [] \<or> upd_map = [] then []
                    else List.map_filter (\<lambda>(key, upd_val).
                           case map_of old_map key of
                             Some old_val \<Rightarrow> both_messages (old_val, upd_val)
                           | None \<Rightarrow> None) upd_map
                | _ \<Rightarrow> []))
          else if \<not> da_has api old f \<or> \<not> da_has api updated f then []
          else (case both_messages (da_get api old f, da_get api updated f) of
                  Some p \<Rightarrow> [p] | None \<Rightarrow> []))"

fun validate_immutable_inner ::
  "'m dyn_api \<Rightarrow> field_mask \<Rightarrow> nat \<Rightarrow> 'm \<Rightarrow> 'm \<Rightarrow> string \<Rightarrow> fb_error + unit" where
  "validate_immutable_inner api fmask 0 old updated path = Inr ()"
| "validate_immutable_inner api fmask (Suc n) old updated path =
     for_each (\<lambda>(f, fd).
       let curr_path = join_path path f in
       if has_behavior api old f FB_Immutable \<and> has_path_with_prefix fmask curr_path then
         (if \<not> da_value_eq api (da_get api old f) (da_get api updated f)
          then Inl (ImmutableField curr_path) else Inr ())
       else for_each (\<lambda>(a, b). validate_immutable_inner api fmask n a b curr_path)
              (immutable_children api old updated f fd)) (fields_of api old)"

definition validate_immutable_not_changed_dynamic ::
  "'m dyn_api \<Rightarrow> 'm \<Rightarrow> 'm \<Rightarrow> field_mask \<Rightarrow> fb_error + unit" where
  "validate_immutable_not_changed_dynamic api old updated fmask =
     (if da_name api old \<noteq> da_name api updated
      then Inl (FbTypeMismatch (da_name api old) (da_name api updated))
      else validate_immutable_inner api fmask (Suc (da_depth api old)) old updated [])"

definition validate_required :: "('a \<Rightarrow> 'm) \<Rightarrow> 'm dyn_api \<Rightarrow> 'a \<Rightarrow> fb_error + unit" where
  "validate_required to_dyn api msg = validate_required_dynamic api (to_dyn msg)"

definition validate_required_with_mask ::
  "('a \<Rightarrow> 'm) \<Rightarrow> 'm dyn_api \<Rightarrow> 'a \<Rightarrow> field_mask \<Rightarrow> fb_error + unit" where
  "validate_required_with_mask to_dyn api msg fmask =
     validate_required_with_mask_dynamic api (to_dyn msg) fmask"

definition validate_immutable_not_changed ::
  "('a \<Rightarrow> 'm) \<Rightarrow> 'm dyn_api \<Rightarrow> 'a \<Rightarrow> 'a \<Rightarrow> field_mask \<Rightarrow> fb_error + unit" where
  "validate_immutable_not_changed to_dyn api old updated fmask =
     validate_immutable_not_changed_dynamic api (to_dyn old) (to_dyn updated) fmask"

fun fb_error_display :: "fb_error \<Rightarrow> string" where
  "fb_error_display (RequiredFields paths) = ''missing required fields: '' @ join '', '' paths"
| "fb_error_display (ImmutableField path) = ''immutable field cannot be changed: '' @ path"
| "fb_error_display (FbTypeMismatch old updated) =
     ''old and updated messages have different types: '' @ old @ '' vs '' @ updated"

fun fb_error_reason :: "fb_error \<Rightarrow> string \<times> (string \<times> string) list \<times> (string \<times> string) list" where
  "fb_error_reason (RequiredFields paths) =
     (''FIELD_REQUIRED'', [(''fields'', join '', '' paths)],
      map (\<lambda>path. (path, ''field is required'')) paths)"
| "fb_error_reason (ImmutableField path) =
     (''FIELD_IMMUTABLE'', [(''path'', path)], [(path, ''immutable field cannot be changed'')])"
| "fb_error_reason (FbTypeMismatch old updated) =
     (''FIELD_BEHAVIOR_TYPE_MISMATCH'', [(''old'', old), (''updated'', updated)], [])"

definition fb_status :: "fb_error \<Rightarrow> status" where
  "fb_status err =
     (case fb_error_reason err of (reason, metadata, violations) \<Rightarrow>
        detailed_status Code_InvalidArgument (fb_error_display err) reason metadata violations)"

interpretation fb_err: detailed_mapping fb_status
  by unfold_locales (auto simp: fb_status_def split: prod.splits)

subsection \<open>What validation decides\<close>

text \<open>A REQUIRED field that is absent, and the path it is reported at.\<close>

inductive missing :: "'m dyn_api \<Rightarrow> 'm \<Rightarrow> string \<Rightarrow> string \<Rightarrow> bool" for api where
  absent: "(f, fd) \<in> set (fields_of api m) \<Longrightarrow> \<not> is_field_present api m f fd
    \<Longrightarrow> has_behavior api m f FB_Required \<Longrightarrow> missing api m path (join_path path f)"
| inside: "(f, fd) \<in> set (fields_of api m) \<Longrightarrow> is_field_present api m f fd
    \<Longrightarrow> s \<in> set (value_messages (da_get api m f)) \<Longrightarrow> missing api s (join_path path f) p
    \<Longrightarrow> missing api m path p"

lemma present_populated:
  "is_field_present api m f fd \<Longrightarrow> value_messages (da_get api m f) \<noteq> [] \<Longrightarrow> populated api m f"
  by (cases "da_get api m f")
    (auto simp: is_field_present_def populated_def Let_def List.map_filter_def
      split: if_splits kind.splits)

lemma required_children_sub:
  "s \<in> set (required_children api m f fd) \<Longrightarrow> s \<in> set (value_messages (da_get api m f))"
  by (cases "da_get api m f") (auto simp: required_children_def split: option.splits if_splits)

lemma required_children_messages:
  assumes "shape api fd (da_get api m f)"
  shows "set (required_children api m f fd) = set (value_messages (da_get api m f))"
proof (cases "value_messages (da_get api m f) = []")
  case True
  have "set (required_children api m f fd) \<subseteq> set (value_messages (da_get api m f))"
    by (blast intro: required_children_sub)
  with True show ?thesis by simp
next
  case False
  from shape_messages [OF assms this] obtain e where "fd_kind fd = K_Message e"
    by (auto simp: is_message_kind_def)
  with False assms show ?thesis
    by (cases "da_get api m f") (auto simp: required_children_def shape_def kind_message_def)
qed

definition mask_covers :: "field_mask option \<Rightarrow> string \<Rightarrow> bool" where
  "mask_covers fmask p \<longleftrightarrow> (case fmask of None \<Rightarrow> True | Some mk \<Rightarrow> has_exact_path mk p)"

lemma required_step:
  "p \<in> set (validate_required_inner api fmask (Suc n) m path) \<longleftrightarrow>
     (\<exists>(f, fd) \<in> set (fields_of api m).
        if \<not> is_field_present api m f fd
        then has_behavior api m f FB_Required \<and> p = join_path path f \<and> mask_covers fmask p
        else \<exists>s \<in> set (required_children api m f fd).
               p \<in> set (validate_required_inner api fmask n s (join_path path f)))"
  by (fastforce simp: Let_def mask_covers_def split: option.splits if_splits)

declare validate_required_inner.simps(2) [simp del]

lemma required_sound:
  "fits api m \<Longrightarrow> p \<in> set (validate_required_inner api fmask n m path) \<Longrightarrow>
     missing api m path p \<and> mask_covers fmask p"
proof (induction n arbitrary: m path)
  case (Suc n)
  from Suc.prems(2) obtain f fd where f: "(f, fd) \<in> set (fields_of api m)" and
    step: "if \<not> is_field_present api m f fd
        then has_behavior api m f FB_Required \<and> p = join_path path f \<and> mask_covers fmask p
        else \<exists>s \<in> set (required_children api m f fd).
               p \<in> set (validate_required_inner api fmask n s (join_path path f))"
    unfolding required_step by blast
  show ?case
  proof (cases "is_field_present api m f fd")
    case False
    with step f show ?thesis by (auto intro: missing.absent)
  next
    case True
    with step obtain s where s: "s \<in> set (required_children api m f fd)"
        "p \<in> set (validate_required_inner api fmask n s (join_path path f))" by auto
    have sub: "s \<in> set (value_messages (da_get api m f))"
      using s(1) by (rule required_children_sub)
    then have "populated api m f" using present_populated [OF True] by force
    from fits_inside [OF Suc.prems(1) f this sub] Suc.IH s(2)
    have "missing api s (join_path path f) p \<and> mask_covers fmask p" by blast
    with missing.inside [OF f True sub] show ?thesis by blast
  qed
qed simp

lemma required_complete:
  assumes laws: "message_laws api"
  shows "missing api m path p \<Longrightarrow> fits api m \<Longrightarrow> da_depth api m < n \<Longrightarrow> mask_covers fmask p
    \<Longrightarrow> p \<in> set (validate_required_inner api fmask n m path)"
proof (induction arbitrary: n rule: missing.induct)
  case (absent f fd m path)
  then obtain k where n: "n = Suc k" by (cases n) auto
  show ?case unfolding n required_step
    by (rule bexI [OF _ absent.hyps(1)]) (use absent in simp)
next
  case (inside f fd m s path p)
  then obtain k where n: "n = Suc k" by (cases n) auto
  have pop: "populated api m f" using present_populated [OF inside.hyps(2)] inside.hyps(3) by force
  have "da_depth api s < k"
    using laws_depth [OF laws pop inside.hyps(3)] inside.prems(2) by (simp add: n)
  from inside.IH [OF fits_inside [OF inside.prems(1) inside.hyps(1) pop inside.hyps(3)] this inside.prems(3)]
  have "p \<in> set (validate_required_inner api fmask k s (join_path path f))" .
  moreover have "s \<in> set (required_children api m f fd)"
    using required_children_messages [OF fits_shape [OF inside.prems(1) inside.hyps(1) pop]] inside.hyps(3) by simp
  ultimately show ?case unfolding n required_step
    by (intro bexI [OF _ inside.hyps(1)]) (use inside.hyps(2) in auto)
qed

text \<open>
  The nested messages that an update puts side by side: a message field set on both sides, the elements
  of a repeated field at the same position, the values of a map under the same key. A message that only
  one side has is compared with nothing.
\<close>

inductive corresponding :: "'m dyn_api \<Rightarrow> 'm \<Rightarrow> 'm \<Rightarrow> string \<Rightarrow> field_descriptor \<Rightarrow> 'm \<Rightarrow> 'm \<Rightarrow> bool" for api old updated f fd where
  field: "fd_kind fd = K_Message d \<Longrightarrow> \<not> fd_is_list fd \<Longrightarrow> \<not> fd_is_map fd
    \<Longrightarrow> da_has api old f \<Longrightarrow> da_has api updated f
    \<Longrightarrow> da_get api old f = V_Message a \<Longrightarrow> da_get api updated f = V_Message b
    \<Longrightarrow> corresponding api old updated f fd a b"
| element: "fd_kind fd = K_Message d \<Longrightarrow> fd_is_list fd
    \<Longrightarrow> da_get api old f = V_List xs \<Longrightarrow> da_get api updated f = V_List ys
    \<Longrightarrow> i < length xs \<Longrightarrow> i < length ys \<Longrightarrow> xs ! i = V_Message a \<Longrightarrow> ys ! i = V_Message b
    \<Longrightarrow> corresponding api old updated f fd a b"
| entry: "fd_kind fd = K_Message d \<Longrightarrow> \<not> fd_is_list fd \<Longrightarrow> fd_is_map fd \<Longrightarrow> entry_is_message api d
    \<Longrightarrow> da_get api old f = V_Map xs \<Longrightarrow> da_get api updated f = V_Map ys
    \<Longrightarrow> map_of xs k = Some (V_Message a) \<Longrightarrow> (k, V_Message b) \<in> set ys
    \<Longrightarrow> corresponding api old updated f fd a b"

inductive_cases correspondingE: "corresponding api old updated f fd a b"

lemma both_messages_Some [simp]:
  "both_messages p = Some (a, b) \<longleftrightarrow> p = (V_Message a, V_Message b)"
  "Some (a, b) = both_messages p \<longleftrightarrow> p = (V_Message a, V_Message b)"
  by (cases p; auto simp: both_messages_def split: rvalue.splits)+

lemma set_map_filter: "y \<in> set (List.map_filter g xs) \<longleftrightarrow> (\<exists>x \<in> set xs. g x = Some y)"
  by (force simp: List.map_filter_def)

text \<open>The code visits exactly these.\<close>

lemma immutable_children_corresponding:
  "(a, b) \<in> set (immutable_children api old updated f fd) \<longleftrightarrow> corresponding api old updated f fd a b"
proof
  assume visited: "(a, b) \<in> set (immutable_children api old updated f fd)"
  then obtain d where kind: "fd_kind fd = K_Message d"
    by (cases "kind_message (fd_kind fd)") (auto simp: immutable_children_def)
  consider (list) "fd_is_list fd" | (map) "\<not> fd_is_list fd" "fd_is_map fd" | (one) "\<not> fd_is_list fd" "\<not> fd_is_map fd"
    by blast
  then show "corresponding api old updated f fd a b"
  proof cases
    case list
    with visited kind show ?thesis
      by (cases "da_get api old f"; cases "da_get api updated f")
        (auto simp: immutable_children_def kind_message_def set_map_filter in_set_zip split: if_splits
          intro: corresponding.element)
  next
    case map
    with visited kind show ?thesis
      by (cases "da_get api old f"; cases "da_get api updated f")
        (auto simp: immutable_children_def kind_message_def set_map_filter split: if_splits option.splits
          intro: corresponding.entry)
  next
    case one
    with visited kind show ?thesis
      by (auto simp: immutable_children_def kind_message_def split: if_splits option.splits
          intro!: corresponding.field [OF kind])
  qed
next
  assume "corresponding api old updated f fd a b"
  then show "(a, b) \<in> set (immutable_children api old updated f fd)"
  proof cases
    case (field d)
    then show ?thesis by (simp add: immutable_children_def kind_message_def both_messages_def)
  next
    case (element d xs ys i)
    then have "(V_Message a, V_Message b) \<in> set (zip xs ys)" by (auto simp: in_set_zip)
    with element show ?thesis
      by (auto simp: immutable_children_def kind_message_def set_map_filter intro!: bexI [of _ "(V_Message a, V_Message b)"])
  next
    case (entry d xs ys k)
    then have "xs \<noteq> []" "ys \<noteq> []" by auto
    with entry show ?thesis
      by (auto simp: immutable_children_def kind_message_def set_map_filter intro!: bexI [of _ "(k, V_Message b)"])
  qed
qed

text \<open>An IMMUTABLE field within the mask that differs, and the path it is reported at.\<close>

inductive changed :: "'m dyn_api \<Rightarrow> field_mask \<Rightarrow> 'm \<Rightarrow> 'm \<Rightarrow> string \<Rightarrow> string \<Rightarrow> bool" for api fmask where
  differs: "(f, fd) \<in> set (fields_of api old) \<Longrightarrow> has_behavior api old f FB_Immutable
    \<Longrightarrow> has_path_with_prefix fmask (join_path path f)
    \<Longrightarrow> \<not> da_value_eq api (da_get api old f) (da_get api updated f)
    \<Longrightarrow> changed api fmask old updated path (join_path path f)"
| inside: "(f, fd) \<in> set (fields_of api old)
    \<Longrightarrow> \<not> (has_behavior api old f FB_Immutable \<and> has_path_with_prefix fmask (join_path path f))
    \<Longrightarrow> corresponding api old updated f fd a b
    \<Longrightarrow> changed api fmask a b (join_path path f) p \<Longrightarrow> changed api fmask old updated path p"

lemma immutable_child_depth:
  assumes "message_laws api" and "corresponding api old updated f fd a b"
  shows "da_depth api a < da_depth api old"
proof -
  from assms(2) have "a \<in> set (value_messages (da_get api old f)) \<and> populated api old f"
  proof cases
    case (element d xs ys i)
    then have "V_Message a \<in> set xs" "xs \<noteq> []" by (force simp: in_set_conv_nth)+
    with element show ?thesis by (force simp: set_map_filter populated_def)
  next
    case (entry d xs ys k)
    then have "(k, V_Message a) \<in> set xs" "xs \<noteq> []" by (auto dest: map_of_SomeD)
    with entry show ?thesis by (force simp: set_map_filter populated_def)
  qed (simp add: populated_def)
  with laws_depth [OF assms(1)] show ?thesis by blast
qed

lemma immutable_step:
  "validate_immutable_inner api fmask (Suc n) old updated path = Inr () \<longleftrightarrow>
     (\<forall>(f, fd) \<in> set (fields_of api old).
        if has_behavior api old f FB_Immutable \<and> has_path_with_prefix fmask (join_path path f)
        then da_value_eq api (da_get api old f) (da_get api updated f)
        else \<forall>(a, b) \<in> set (immutable_children api old updated f fd).
               validate_immutable_inner api fmask n a b (join_path path f) = Inr ())"
  unfolding validate_immutable_inner.simps for_each_Inr_iff
  by (rule ball_cong [OF refl]) (auto simp: Let_def for_each_Inr_iff split: prod.splits if_split_asm)

lemma immutable_error:
  "validate_immutable_inner api fmask n old updated path = Inl e \<Longrightarrow>
     \<exists>p. e = ImmutableField p \<and> changed api fmask old updated path p"
proof (induction n arbitrary: old updated path)
  case (Suc n)
  from Suc.prems obtain f fd where f: "(f, fd) \<in> set (fields_of api old)" and
    step: "(if has_behavior api old f FB_Immutable \<and> has_path_with_prefix fmask (join_path path f)
       then (if \<not> da_value_eq api (da_get api old f) (da_get api updated f)
             then Inl (ImmutableField (join_path path f)) else Inr ())
       else for_each (\<lambda>(a, b). validate_immutable_inner api fmask n a b (join_path path f))
              (immutable_children api old updated f fd)) = Inl e"
    by (fastforce simp: Let_def dest!: for_each_InlD)
  show ?case
  proof (cases "has_behavior api old f FB_Immutable \<and> has_path_with_prefix fmask (join_path path f)")
    case True
    with step f show ?thesis by (auto intro: changed.differs split: if_splits)
  next
    case False
    with step obtain a b where "(a, b) \<in> set (immutable_children api old updated f fd)"
        "validate_immutable_inner api fmask n a b (join_path path f) = Inl e"
      by (auto simp only: if_False dest!: for_each_InlD)
    with Suc.IH changed.inside [OF f False] show ?thesis unfolding immutable_children_corresponding by blast
  qed
qed simp

declare validate_immutable_inner.simps(2) [simp del]

lemma immutable_ok:
  assumes laws: "message_laws api"
  shows "changed api fmask old updated path p \<Longrightarrow> da_depth api old < n
    \<Longrightarrow> validate_immutable_inner api fmask n old updated path \<noteq> Inr ()"
proof (induction arbitrary: n rule: changed.induct)
  case (differs f fd old path updated)
  then obtain k where n: "n = Suc k" by (cases n) auto
  show ?case unfolding n immutable_step using differs by fastforce
next
  case (inside f fd old path updated a b p)
  then obtain k where n: "n = Suc k" by (cases n) auto
  from immutable_child_depth [OF laws inside.hyps(3)] inside.prems have "da_depth api a < k" by (simp add: n)
  note bad = inside.IH [OF this]
  show ?case unfolding n immutable_step
  proof
    assume "\<forall>(f, fd) \<in> set (fields_of api old).
        if has_behavior api old f FB_Immutable \<and> has_path_with_prefix fmask (join_path path f)
        then da_value_eq api (da_get api old f) (da_get api updated f)
        else \<forall>(a, b) \<in> set (immutable_children api old updated f fd).
               validate_immutable_inner api fmask k a b (join_path path f) = Inr ()"
    from bspec [OF this inside.hyps(1)] inside.hyps(2)
    have "\<forall>(a, b) \<in> set (immutable_children api old updated f fd).
               validate_immutable_inner api fmask k a b (join_path path f) = Inr ()" by auto
    with inside.hyps(3) bad show False unfolding immutable_children_corresponding [symmetric] by blast
  qed
qed

text \<open>C18: Clearing is thorough and touches nothing else. After \<open>clear_fields_dynamic\<close> no populated field
  of the message, or of any message nested in its fields, lists and maps at any depth, carries
  one of the behaviors; a field without them that holds no message is as before.\<close>

theorem clear_fields_thorough:
  assumes "message_laws api" and "fits api m"
  shows "(\<forall>m' f fd. nested api (clear_fields_dynamic api bs m) m' \<longrightarrow> (f, fd) \<in> set (fields_of api m')
            \<longrightarrow> populated api m' f \<longrightarrow> \<not> has_any_behavior (behaviors_of api m' f) bs)
    \<and> (\<forall>(f, fd) \<in> set (fields_of api m).
         \<not> has_any_behavior (behaviors_of api m f) bs \<longrightarrow> kind_message (fd_kind fd) = None \<longrightarrow>
           da_get api (clear_fields_dynamic api bs m) f = da_get api m f
           \<and> da_has api (clear_fields_dynamic api bs m) f = da_has api m f)"
proof (intro conjI allI impI ballI)
  fix m' f fd
  assume "nested api (clear_fields_dynamic api bs m) m'" "(f, fd) \<in> set (fields_of api m')" "populated api m' f"
  then show "\<not> has_any_behavior (behaviors_of api m' f) bs"
    unfolding clear_fields_dynamic_def by (rule cleared_everywhere [OF assms order_refl])
next
  fix x assume "x \<in> set (fields_of api m)"
  then obtain f fd where x: "x = (f, fd)" and f: "(f, fd) \<in> set (fields_of api m)" by (metis surj_pair)
  from clear_level(4) [OF assms f disjI2, of bs "da_depth api m"]
  show "case x of (f, fd) \<Rightarrow> \<not> has_any_behavior (behaviors_of api m f) bs \<longrightarrow> kind_message (fd_kind fd) = None \<longrightarrow>
           da_get api (clear_fields_dynamic api bs m) f = da_get api m f
           \<and> da_has api (clear_fields_dynamic api bs m) f = da_has api m f"
    by (simp only: x prod.case clear_fields_dynamic_def is_message_kind_def) blast
qed

text \<open>C19: Required-field validation reports exactly the REQUIRED fields that are absent, at their full
  paths, at any depth below present messages (with a mask, those it names); it accepts exactly
  if there is none.\<close>

theorem required_fields_all_reported:
  assumes "message_laws api" and "fits api m"
  shows "(case validate_required_dynamic api m of
            Inr _ \<Rightarrow> \<not> (\<exists>p. missing api m [] p)
          | Inl e \<Rightarrow> \<exists>paths. paths \<noteq> [] \<and> e = RequiredFields paths \<and> set paths = {p. missing api m [] p})
    \<and> (case validate_required_with_mask_dynamic api m fmask of
            Inr _ \<Rightarrow> fmask = [] \<or> \<not> (\<exists>p. missing api m [] p \<and> has_exact_path fmask p)
          | Inl e \<Rightarrow> fmask \<noteq> [] \<and> (\<exists>paths. paths \<noteq> [] \<and> e = RequiredFields paths
                       \<and> set paths = {p. missing api m [] p \<and> has_exact_path fmask p}))"
proof -
  have eq: "set (validate_required_inner api mk (Suc (da_depth api m)) m []) = {p. missing api m [] p \<and> mask_covers mk p}"
    for mk
    using required_sound [OF assms(2)] required_complete [OF assms(1) _ assms(2) lessI] by blast
  have none: "validate_required_inner api mk (Suc (da_depth api m)) m [] = []
      \<longleftrightarrow> \<not> (\<exists>p. missing api m [] p \<and> mask_covers mk p)" for mk
    using eq [of mk] by (metis (mono_tags, lifting) empty_Collect_eq set_empty)
  show ?thesis
    using eq [of None] none [of None] eq [of "Some fmask"] none [of "Some fmask"]
    by (auto simp: validate_required_dynamic_def validate_required_with_mask_dynamic_def
        into_required_result_def mask_covers_def)
qed

text \<open>C20: An update passes the immutability check exactly if no IMMUTABLE field within the mask differs in
  value, in the message itself or, at any depth, in nested messages that correspond: a field set on both
  sides, the list elements at one position, the map values under one key. Otherwise the error names a field
  that differs. A nested message that only one side has is not looked into.\<close>

theorem immutable_fields_protected:
  assumes "message_laws api" and "da_name api old = da_name api updated"
  shows "case validate_immutable_not_changed_dynamic api old updated fmask of
           Inr _ \<Rightarrow> \<not> (\<exists>p. changed api fmask old updated [] p)
         | Inl e \<Rightarrow> \<exists>p. e = ImmutableField p \<and> changed api fmask old updated [] p"
proof (cases "validate_immutable_inner api fmask (Suc (da_depth api old)) old updated []")
  case (Inl e)
  with immutable_error [OF Inl] assms(2) show ?thesis
    by (simp add: validate_immutable_not_changed_dynamic_def)
next
  case (Inr u)
  with immutable_ok [OF assms(1), of fmask old updated "[]" _ "Suc (da_depth api old)"] assms(2) show ?thesis
    by (auto simp: validate_immutable_not_changed_dynamic_def)
qed

subsection \<open>A message with a nested one\<close>

text \<open>\<open>M { a: string (OUTPUT_ONLY, IMMUTABLE), r: string (REQUIRED), s: M }\<close>.\<close>

definition demo_fields :: "string \<Rightarrow> (string \<times> field_descriptor) list" where
  "demo_fields n =
     [(''a'', \<lparr>fd_is_list = False, fd_is_map = False, fd_kind = K_String\<rparr>),
      (''r'', \<lparr>fd_is_list = False, fd_is_map = False, fd_kind = K_String\<rparr>),
      (''s'', \<lparr>fd_is_list = False, fd_is_map = False, fd_kind = K_Message ''M''\<rparr>)]"

definition demo_behavior :: "string \<Rightarrow> string \<Rightarrow> int list" where
  "demo_behavior n f = (if f = ''a'' then [3, 5] else if f = ''r'' then [2] else [])"

definition demo_api :: "tree dyn_api" where
  "demo_api = tree_api demo_fields demo_behavior"

definition demo_inner :: tree where
  "demo_inner = Tree ''M'' [(''a'', V_String ''x'')]"

definition demo_message :: tree where
  "demo_message = Tree ''M'' [(''r'', V_String ''y''), (''s'', V_Message demo_inner)]"

lemma demo_laws: "message_laws demo_api"
  unfolding demo_api_def by (rule tree_laws) (simp add: demo_fields_def)

lemma demo_sel [simp]:
  "da_name demo_api m = tree_name m"
  "da_has demo_api m f = (map_of (tree_fields m) f \<noteq> None)"
  "da_get demo_api m f = tree_get demo_fields m f"
  "fields_of demo_api m = demo_fields ''M''"
  by (simp_all add: demo_api_def) (simp add: demo_fields_def)

lemma demo_populated [simp]: "populated demo_api m f \<longleftrightarrow> map_of (tree_fields m) f \<noteq> None"
  by (auto simp: populated_def tree_get_def tree_default_def split: option.splits if_splits)

lemma demo_nested: "nested demo_api demo_message m' \<Longrightarrow> m' = demo_message \<or> m' = demo_inner"
proof -
  have inner: "nested demo_api m m' \<Longrightarrow> m = demo_inner \<Longrightarrow> m' = demo_inner" for m
    by (induction rule: nested.induct) (auto simp: demo_inner_def tree_get_def tree_default_def split: if_splits)
  assume "nested demo_api demo_message m'"
  then show ?thesis
  proof cases
    case (inside f fd s)
    then have "s = demo_inner" by (auto simp: demo_message_def tree_get_def tree_default_def split: if_splits)
    with inner inside show ?thesis by blast
  qed simp
qed

lemma demo_fits: "fits demo_api demo_message"
proof -
  have "shape demo_api fd (da_get demo_api m' f)"
    if "nested demo_api demo_message m'" "(f, fd) \<in> set (fields_of demo_api m')" "populated demo_api m' f" for m' f fd
    using demo_nested [OF that(1)] that(2,3)
    by (auto simp: demo_message_def demo_inner_def demo_fields_def shape_def tree_get_def tree_default_def is_message_kind_def
        split: if_splits)
  then show ?thesis unfolding fits_def by blast
qed

lemma demo_behaviors: "behaviors_of demo_api m f = List.map_filter fb_try_from (demo_behavior (tree_name m) f)"
  by (simp add: behaviors_of_def demo_api_def tree_api_def da_name_def List.map_filter_def filter_map comp_def)

theorem clear_fields_thorough_witness:
  "\<not> populated demo_api (clear_fields_dynamic demo_api [FB_OutputOnly] demo_inner) ''a''
   \<and> has_any_behavior (behaviors_of demo_api demo_inner ''a'') [FB_OutputOnly]"
proof -
  have fits: "fits demo_api demo_inner"
    by (rule fits_inside [OF demo_fits, of "''s''"])
      (simp_all add: demo_fields_def demo_message_def tree_get_def tree_default_def)
  have marked: "has_any_behavior (behaviors_of demo_api m ''a'') [FB_OutputOnly]" for m
    by (simp add: has_any_behavior_def demo_behaviors demo_behavior_def fb_try_from_def List.map_filter_def)
  from clear_fields_thorough [OF demo_laws fits, of "[FB_OutputOnly]"]
  have "\<not> populated demo_api (clear_fields_dynamic demo_api [FB_OutputOnly] demo_inner) ''a''"
    using marked by (fastforce intro: nested.here simp: demo_fields_def)
  with marked show ?thesis by blast
qed

theorem required_fields_all_reported_witness:
  "\<exists>paths. validate_required_dynamic demo_api demo_message = Inl (RequiredFields paths) \<and> ''s.r'' \<in> set paths"
proof -
  have "missing demo_api demo_inner (join_path [] ''s'') (join_path (join_path [] ''s'') ''r'')"
    by (rule missing.absent [where fd = "\<lparr>fd_is_list = False, fd_is_map = False, fd_kind = K_String\<rparr>"])
      (simp_all add: demo_fields_def is_field_present_def Let_def kind_message_def demo_inner_def tree_get_def tree_default_def has_behavior_def
        demo_behaviors demo_behavior_def fb_try_from_def List.map_filter_def)
  then have "missing demo_api demo_message [] (join_path (join_path [] ''s'') ''r'')"
    by (rule missing.inside [where fd = "\<lparr>fd_is_list = False, fd_is_map = False, fd_kind = K_Message ''M''\<rparr>", rotated 3])
      (simp_all add: demo_fields_def is_field_present_def Let_def demo_message_def tree_get_def tree_default_def)
  then have "missing demo_api demo_message [] ''s.r''" by (simp add: join_path_def)
  with required_fields_all_reported [OF demo_laws demo_fits, of "[]"] show ?thesis
    by (auto split: sum.splits)
qed

definition demo_update :: tree where
  "demo_update = Tree ''M'' [(''s'', V_Message (Tree ''M'' [(''a'', V_String ''z'')]))]"

theorem immutable_fields_protected_witness:
  "is_ok (validate_immutable_not_changed_dynamic demo_api demo_message demo_update [''s'']) = False"
proof -
  have prefix: "has_path_with_prefix [''s''] (join_path (join_path [] ''s'') ''a'')"
    by (simp add: has_path_with_prefix_def join_path_def starts_with_def)
  have "changed demo_api [''s''] demo_inner (Tree ''M'' [(''a'', V_String ''z'')]) (join_path [] ''s'')
      (join_path (join_path [] ''s'') ''a'')"
    by (rule changed.differs [OF _ _ prefix])
      (simp_all add: demo_fields_def demo_inner_def tree_get_def tree_default_def has_behavior_def demo_behaviors
        demo_behavior_def fb_try_from_def List.map_filter_def, simp add: demo_api_def tree_api_def)
  then have "changed demo_api [''s''] demo_message demo_update [] (join_path (join_path [] ''s'') ''a'')"
    by (rule changed.inside [where fd = "\<lparr>fd_is_list = False, fd_is_map = False, fd_kind = K_Message ''M''\<rparr>", rotated 3])
      (simp_all add: demo_fields_def demo_message_def demo_update_def tree_get_def tree_default_def corresponding.simps
        has_behavior_def demo_behaviors demo_behavior_def List.map_filter_def)
  with immutable_fields_protected [OF demo_laws, of demo_message demo_update "[''s'']"] show ?thesis
    by (auto simp: demo_message_def demo_update_def is_ok_def split: sum.splits)
qed

text \<open>
  What the check lets through: an update that unsets a whole message drops the IMMUTABLE fields inside it,
  although the mask covers them.
\<close>

theorem unset_message_drops_immutable:
  "validate_immutable_not_changed_dynamic demo_api demo_message (Tree ''M'' [(''r'', V_String ''y'')]) [''s''] = Inr ()
   \<and> has_path_with_prefix [''s''] ''s.a''
   \<and> has_behavior demo_api demo_inner ''a'' FB_Immutable \<and> da_has demo_api demo_inner ''a''"
proof -
  let ?new = "Tree ''M'' [(''r'', V_String ''y'')]"
  have "\<not> changed demo_api [''s''] demo_message ?new [] p" for p
  proof
    assume "changed demo_api [''s''] demo_message ?new [] p"
    then show False
      by cases (auto simp: demo_fields_def demo_message_def has_behavior_def demo_behaviors demo_behavior_def
          fb_try_from_def List.map_filter_def corresponding.simps has_path_with_prefix_def join_path_def starts_with_def)
  qed
  then have "validate_immutable_inner demo_api [''s''] n demo_message ?new [] \<noteq> Inl e" for n e
    using immutable_error [of demo_api "[''s'']" n demo_message ?new "[]" e] by blast
  then have "validate_immutable_inner demo_api [''s''] n demo_message ?new [] = Inr ()" for n
    by (metis (full_types) old.unit.exhaust sum.exhaust_sel)
  then have "validate_immutable_not_changed_dynamic demo_api demo_message ?new [''s''] = Inr ()"
    by (simp add: validate_immutable_not_changed_dynamic_def demo_message_def)
  then show ?thesis
    by (simp add: has_path_with_prefix_def starts_with_def demo_inner_def has_behavior_def demo_behaviors
        demo_behavior_def fb_try_from_def List.map_filter_def)
qed

end
