(* ===== verification/Lifecycle.thy ===== *)
theory Lifecycle
  imports Field_Behavior Digest
begin

text \<open>
  The small rules around a stored resource: the content etag (\<open>crates/aip-etag\<close>), soft deletion and
  purge (\<open>crates/aip-softdelete\<close>) and the preview gate (\<open>crates/aip-preview\<close>).
\<close>

subsection \<open>Content etags\<close>

datatype etag_error = Mismatch | EtagMalformed string

definition ETAG_FIELD :: string where
  "ETAG_FIELD = ''etag''"

text \<open>The typed resource is read as the dynamic message its wire bytes decode to.\<close>

definition etag_content :: "'m dyn_api \<Rightarrow> 'm \<Rightarrow> 'm" where
  "etag_content api resource =
     (let m = clear_fields_dynamic api [FB_OutputOnly] resource in
      if field_named api m ETAG_FIELD \<noteq> None then da_clear api ETAG_FIELD m else m)"

definition etag_compute :: "'m dyn_api \<Rightarrow> (string \<Rightarrow> 32 word) \<Rightarrow> 'm \<Rightarrow> string" where
  "etag_compute api crc32 resource = hex08 (crc32 (mo_encode (da_ops api) (etag_content api resource)))"

definition etag_well_formed :: "string \<Rightarrow> bool" where
  "etag_well_formed etag \<longleftrightarrow>
     length etag = 8
     \<and> list_all (\<lambda>b. (CHR ''0'' \<le> b \<and> b \<le> CHR ''9'') \<or> (CHR ''a'' \<le> b \<and> b \<le> CHR ''f'')) etag"

definition etag_check ::
  "'m dyn_api \<Rightarrow> (string \<Rightarrow> 32 word) \<Rightarrow> string \<Rightarrow> 'm \<Rightarrow> etag_error + unit" where
  "etag_check api crc32 supplied current =
     (if supplied = [] then Inr ()
      else if \<not> etag_well_formed supplied then Inl (EtagMalformed supplied)
      else if supplied = etag_compute api crc32 current then Inr ()
      else Inl Mismatch)"

fun etag_error_display :: "unicode_tables \<Rightarrow> etag_error \<Rightarrow> string" where
  "etag_error_display u Mismatch =
     ''etag mismatch: the resource was modified concurrently; re-read and retry''"
| "etag_error_display u (EtagMalformed etag) =
     ''malformed etag '' @ str_debug u etag @ '': expected the opaque token a prior read returned''"

fun etag_error_reason :: "etag_error \<Rightarrow> grpc_code \<times> string \<times> (string \<times> string) list" where
  "etag_error_reason Mismatch = (Code_Aborted, ''ETAG_MISMATCH'', [])"
| "etag_error_reason (EtagMalformed etag) =
     (Code_InvalidArgument, ''ETAG_MALFORMED'', [(''etag'', etag)])"

definition etag_status :: "unicode_tables \<Rightarrow> etag_error \<Rightarrow> status" where
  "etag_status u err =
     (case etag_error_reason err of (code, reason, metadata) \<Rightarrow>
        detailed_status code (etag_error_display u err) reason metadata [])"

lemma etag_code: "fst (etag_error_reason e) \<noteq> Code_Ok"
  by (cases e) auto

interpretation etag_err: detailed_mapping "etag_status u"
proof (unfold_locales, goal_cases)
  case (2 e)
  then show ?case using etag_code [of e] by (auto simp: etag_status_def split: prod.splits)
qed (auto simp: etag_status_def split: prod.splits)

lemma hex_char_well_formed:
  "d < 16 \<Longrightarrow> (CHR ''0'' \<le> hex_char d \<and> hex_char d \<le> CHR ''9'') \<or> (CHR ''a'' \<le> hex_char d \<and> hex_char d \<le> CHR ''f'')"
  by (auto simp: hex_char_def less_eq_char_def)

lemma show_hex_well_formed:
  "list_all (\<lambda>b. (CHR ''0'' \<le> b \<and> b \<le> CHR ''9'') \<or> (CHR ''a'' \<le> b \<and> b \<le> CHR ''f'')) (show_hex n)"
proof (induction n rule: show_hex.induct)
  case (1 n)
  show ?case
  proof (cases "n < 16")
    case True
    then show ?thesis by (subst show_hex.simps) (simp add: hex_char_well_formed)
  next
    case False
    with 1 show ?thesis by (subst show_hex.simps) (simp add: hex_char_well_formed)
  qed
qed

lemma hex08_well_formed: "etag_well_formed (hex08 d)"
  using show_hex_well_formed [of "unat d"] hex08_length [of d]
  by (auto simp: etag_well_formed_def hex08_def Let_def list_all_iff less_eq_char_def)

interpretation etag_fresh:
  freshness "etag_compute api crc32"
    "\<lambda>s cur. is_ok (etag_check api crc32 s cur)"
  by unfold_locales
    (auto simp: etag_check_def etag_compute_def hex08_well_formed split: if_splits)

text \<open>C39: The optimistic-concurrency check admits exactly the writes without an etag and the writes
  carrying the digest of what is stored; a stale token is \<open>ABORTED\<close>, a token the crate cannot have
  issued \<open>INVALID_ARGUMENT\<close>. Two resources have the same token exactly if the checksums of their
  content agree.\<close>

theorem etag_guards_writes:
  "(is_ok (etag_check api crc32 supplied current)
      \<longleftrightarrow> supplied = [] \<or> supplied = etag_compute api crc32 current)
   \<and> (etag_check api crc32 supplied current = Inl Mismatch
      \<longleftrightarrow> etag_well_formed supplied \<and> supplied \<noteq> etag_compute api crc32 current)
   \<and> etag_well_formed (etag_compute api crc32 current)
   \<and> (is_ok (etag_check api crc32 (etag_compute api crc32 old) current)
      \<longleftrightarrow> crc32 (mo_encode (da_ops api) (etag_content api old)) = crc32 (mo_encode (da_ops api) (etag_content api current)))"
proof -
  have "etag_compute api crc32 old \<noteq> []" by (simp add: etag_compute_def)
  moreover have "etag_compute api crc32 old = etag_compute api crc32 current
      \<longleftrightarrow> crc32 (mo_encode (da_ops api) (etag_content api old)) = crc32 (mo_encode (da_ops api) (etag_content api current))"
    by (simp add: etag_compute_def hex08_inject)
  ultimately have "is_ok (etag_check api crc32 (etag_compute api crc32 old) current)
      \<longleftrightarrow> crc32 (mo_encode (da_ops api) (etag_content api old)) = crc32 (mo_encode (da_ops api) (etag_content api current))"
    by (simp add: etag_fresh.check_iff)
  moreover have "etag_well_formed [] = False" by (simp add: etag_well_formed_def)
  ultimately show ?thesis
    using etag_fresh.check_iff [of api crc32 supplied current]
    by (auto simp: etag_check_def etag_compute_def hex08_well_formed)
qed

subsection \<open>Soft deletion\<close>

datatype sd_state = Live | Deleted

definition from_deleted :: "bool \<Rightarrow> sd_state" where
  "from_deleted deleted = (if deleted then Deleted else Live)"

definition is_deleted :: "sd_state \<Rightarrow> bool" where
  "is_deleted s \<longleftrightarrow> (case s of Deleted \<Rightarrow> True | Live \<Rightarrow> False)"

datatype sd_error = ErrDeleted string | NotDeleted string | FilterRequired

definition is_visible :: "sd_state \<Rightarrow> bool \<Rightarrow> bool" where
  "is_visible s show_deleted \<longleftrightarrow> show_deleted \<or> \<not> is_deleted s"

definition check_visible :: "sd_state \<Rightarrow> bool \<Rightarrow> string \<Rightarrow> sd_error + unit" where
  "check_visible s show_deleted name = (if is_visible s show_deleted then Inr () else Inl (ErrDeleted name))"

definition check_deleted :: "sd_state \<Rightarrow> string \<Rightarrow> sd_error + unit" where
  "check_deleted s name = (if is_deleted s then Inr () else Inl (NotDeleted name))"

definition PURGE_SAMPLE_MAX :: nat where
  "PURGE_SAMPLE_MAX = 100"

datatype purge_mode = Preview | Execute

definition from_force :: "bool \<Rightarrow> purge_mode" where
  "from_force force = (if force then Execute else Preview)"

definition is_preview :: "purge_mode \<Rightarrow> bool" where
  "is_preview m \<longleftrightarrow> (case m of Preview \<Rightarrow> True | Execute \<Rightarrow> False)"

definition require_filter :: "string \<Rightarrow> sd_error + unit" where
  "require_filter filt = (if filt = [] then Inl FilterRequired else Inr ())"

definition purge_result :: "purge_mode \<Rightarrow> string list \<Rightarrow> nat \<times> string list" where
  "purge_result mode matched =
     (let sample = if is_preview mode then take PURGE_SAMPLE_MAX matched else []
      in (length matched, sample))"

fun sd_error_display :: "sd_error \<Rightarrow> string" where
  "sd_error_display (ErrDeleted name) = ''resource `'' @ name @ ''` not found''"
| "sd_error_display (NotDeleted name) = ''resource `'' @ name @ ''` is not deleted''"
| "sd_error_display FilterRequired = ''a purge filter is required''"

fun sd_error_reason :: "sd_error \<Rightarrow> grpc_code \<times> string \<times> (string \<times> string) list" where
  "sd_error_reason (ErrDeleted name) = (Code_NotFound, ''SOFT_DELETE_NOT_FOUND'', [(''name'', name)])"
| "sd_error_reason (NotDeleted name) =
     (Code_AlreadyExists, ''SOFT_DELETE_NOT_DELETED'', [(''name'', name)])"
| "sd_error_reason FilterRequired = (Code_InvalidArgument, ''PURGE_FILTER_REQUIRED'', [])"

definition sd_status :: "sd_error \<Rightarrow> status" where
  "sd_status err =
     (case sd_error_reason err of (code, reason, metadata) \<Rightarrow>
        detailed_status code (sd_error_display err) reason metadata [])"

lemma sd_code: "fst (sd_error_reason e) \<noteq> Code_Ok"
  by (cases e) auto

interpretation sd_err: detailed_mapping sd_status
proof (unfold_locales, goal_cases)
  case (2 e)
  then show ?case using sd_code [of e] by (auto simp: sd_status_def split: prod.splits)
qed (auto simp: sd_status_def split: prod.splits)

subsection \<open>Preview\<close>

text \<open>\<open>commit\<close> acts on the caller's state.\<close>

definition commit_unless :: "bool \<Rightarrow> ('s \<Rightarrow> 's \<times> 't) \<Rightarrow> 's \<Rightarrow> 's \<times> 't option" where
  "commit_unless validate_only commit s =
     (if validate_only then (s, None) else (case commit s of (s', x) \<Rightarrow> (s', Some x)))"

end
