(* ===== verification/Validation.thy ===== *)
theory Validation
  imports Status
begin

text \<open>
  \<open>crates/aip-validation/src/lib.rs\<close>: a service's own field checks, accumulated and resolved into
  one error. A \<open>Validator\<close> is threaded through as a value.
\<close>

type_synonym field_violation = "string \<times> string"

record validator =
  v_domain :: string
  v_reason :: string
  v_parent_field :: string
  v_violations :: "field_violation list"

record validation_error =
  ve_domain :: string
  ve_reason :: string
  ve_field_violations :: "field_violation list"

text \<open>The errors \<open>add_field_error\<close> tells apart: a validation error, or any other by its text.\<close>

datatype some_error = ValidationError validation_error | OtherError string

definition validator_new :: "string \<Rightarrow> string \<Rightarrow> validator" where
  "validator_new domain reason =
     \<lparr>v_domain = domain, v_reason = reason, v_parent_field = [], v_violations = []\<rparr>"

definition set_parent_field :: "string \<Rightarrow> validator \<Rightarrow> validator" where
  "set_parent_field parent_field v = v\<lparr>v_parent_field := parent_field\<rparr>"

definition make_field_with_parent :: "string \<Rightarrow> string \<Rightarrow> string" where
  "make_field_with_parent parent_field field =
     (if parent_field = [] then field else parent_field @ ''.'' @ field)"

definition add_field_violation :: "string \<Rightarrow> string \<Rightarrow> validator \<Rightarrow> validator" where
  "add_field_violation field description v =
     v\<lparr>v_violations := v_violations v @ [(make_field_with_parent (v_parent_field v) field, description)]\<rparr>"

definition add_field_error :: "string \<Rightarrow> some_error \<Rightarrow> validator \<Rightarrow> validator" where
  "add_field_error field err v =
     (case err of
        ValidationError inner \<Rightarrow>
          (let nested_parent = make_field_with_parent (v_parent_field v) field;
               original = v_parent_field v;
               v = v\<lparr>v_parent_field := nested_parent\<rparr>;
               v = fold (\<lambda>(f, d) v. add_field_violation f d v) (ve_field_violations inner) v
           in v\<lparr>v_parent_field := original\<rparr>)
      | OtherError text \<Rightarrow> add_field_violation field text v)"

definition into_result :: "validator \<Rightarrow> validation_error + unit" where
  "into_result v =
     (if v_violations v = [] then Inr ()
      else Inl \<lparr>ve_domain = v_domain v, ve_reason = v_reason v, ve_field_violations = v_violations v\<rparr>)"

definition validation_error_display :: "validation_error \<Rightarrow> string" where
  "validation_error_display err =
     (case ve_field_violations err of
        [(f, d)] \<Rightarrow> ''field violation on '' @ f @ '': '' @ d
      | vs \<Rightarrow> ''field violation on multiple fields:''
              @ concat (map (\<lambda>(f, d). [CHR 0x0A] @ '' | '' @ f @ '': '' @ d) vs))"

definition validation_status :: "validation_error \<Rightarrow> status" where
  "validation_status err =
     (let fields = join '', '' (map fst (ve_field_violations err)) in
      \<lparr>st_code = Code_InvalidArgument,
       st_message = ''invalid fields: '' @ fields,
       st_info = Some \<lparr>ei_reason = ve_reason err, ei_domain = ve_domain err,
                       ei_metadata = map_of [(''fields'', fields)]\<rparr>,
       st_violations = ve_field_violations err\<rparr>)"

subsection \<open>Accumulation\<close>

definition under :: "string \<Rightarrow> field_violation \<Rightarrow> field_violation" where
  "under p v = (make_field_with_parent p (fst v), snd v)"

lemma fold_add_violations:
  "fold (\<lambda>(f, d) v. add_field_violation f d v) vs v =
     v\<lparr>v_violations := v_violations v @ map (under (v_parent_field v)) vs\<rparr>"
  by (induction vs arbitrary: v) (auto simp: add_field_violation_def under_def)

lemma add_field_error_violations:
  "add_field_error f (ValidationError e) v =
     v\<lparr>v_violations := v_violations v
        @ map (under (make_field_with_parent (v_parent_field v) f)) (ve_field_violations e)\<rparr>"
  by (simp add: add_field_error_def Let_def fold_add_violations)

lemma make_field_assoc:
  "g \<noteq> [] \<Longrightarrow> make_field_with_parent (make_field_with_parent p g) x
     = make_field_with_parent p (make_field_with_parent g x)"
  by (simp add: make_field_with_parent_def)

lemma under_under: "g \<noteq> [] \<Longrightarrow> under p (under g v) = under (make_field_with_parent p g) v"
  by (simp add: under_def make_field_assoc)

text \<open>The calls a service makes on a validator, and what it should report.\<close>

datatype check = Set_Parent string | Violation string string | Fold string some_error

fun run_check :: "check \<Rightarrow> validator \<Rightarrow> validator" where
  "run_check (Set_Parent p) v = set_parent_field p v"
| "run_check (Violation f d) v = add_field_violation f d v"
| "run_check (Fold f e) v = add_field_error f e v"

fun reported :: "string \<Rightarrow> check list \<Rightarrow> field_violation list" where
  "reported p [] = []"
| "reported p (Set_Parent q # cs) = reported q cs"
| "reported p (Violation f d # cs) = under p (f, d) # reported p cs"
| "reported p (Fold f (OtherError t) # cs) = under p (f, t) # reported p cs"
| "reported p (Fold f (ValidationError e) # cs) =
     map (under (make_field_with_parent p f)) (ve_field_violations e) @ reported p cs"

lemma run_checks_violations:
  "v_violations (fold run_check cs v) = v_violations v @ reported (v_parent_field v) cs
   \<and> v_domain (fold run_check cs v) = v_domain v \<and> v_reason (fold run_check cs v) = v_reason v"
proof (induction cs arbitrary: v)
  case (Cons c cs)
  show ?case
  proof (cases c)
    case (Fold f e)
    with Cons show ?thesis
      by (cases e) (simp_all add: add_field_error_violations, simp_all add: add_field_error_def
          add_field_violation_def under_def)
  qed (use Cons in \<open>simp_all add: set_parent_field_def add_field_violation_def under_def\<close>)
qed simp

text \<open>No violation is lost, added or reordered. Whatever calls a service makes on a fresh
  validator, the result is \<open>Ok\<close> exactly if nothing was reported; otherwise the error, and the
  status a client sees, list every violation at its full path in the order of the calls, under
  the domain and reason of the validator.\<close>

theorem validator_reports_everything:
  "case into_result (fold run_check cs (validator_new d r)) of
     Inr _ \<Rightarrow> reported [] cs = []
   | Inl e \<Rightarrow>
       reported [] cs \<noteq> [] \<and> st_violations (validation_status e) = reported [] cs
       \<and> st_code (validation_status e) = Code_InvalidArgument
       \<and> map_option ei_domain (st_info (validation_status e)) = Some d
       \<and> map_option ei_reason (st_info (validation_status e)) = Some r
       \<and> st_message (validation_status e) = ''invalid fields: '' @ join '', '' (map fst (reported [] cs))"
  using run_checks_violations [of cs "validator_new d r"]
  by (simp add: into_result_def validation_status_def Let_def validator_new_def)

text \<open>Nested messages compose. Folding a validator's error into its container, and that into the
  next one out, reports the same paths as folding it in directly under the joined path, and
  leaves the parent field as it was.\<close>

theorem nested_validators_compose:
  assumes "f \<noteq> []" and "g \<noteq> []"
    and "into_result (add_field_error g (ValidationError e) (validator_new d r)) = Inl mid"
  shows "add_field_error f (ValidationError mid) v
           = add_field_error (make_field_with_parent f g) (ValidationError e) v"
proof -
  have mid: "ve_field_violations mid = map (under g) (ve_field_violations e)"
    using assms(3)
    by (auto simp: into_result_def add_field_error_violations validator_new_def
        make_field_with_parent_def split: if_splits)
  have "make_field_with_parent (make_field_with_parent (v_parent_field v) f) g
      = make_field_with_parent (v_parent_field v) (make_field_with_parent f g)"
    using assms(1) by (simp add: make_field_assoc)
  with assms(2) show ?thesis
    by (simp add: add_field_error_violations mid comp_def under_under)
qed

theorem nested_validators_compose_witness:
  "v_violations (add_field_error ''shipper'' (ValidationError
     \<lparr>ve_domain = [], ve_reason = [], ve_field_violations = [(''address.zip'', ''bad'')]\<rparr>) (validator_new [] []))
   = [(''shipper.address.zip'', ''bad'')]"
  using nested_validators_compose [of "''shipper''" "''address''"
      "\<lparr>ve_domain = [], ve_reason = [], ve_field_violations = [(''zip'', ''bad'')]\<rparr>" "[]" "[]"
      "\<lparr>ve_domain = [], ve_reason = [], ve_field_violations = [(''address.zip'', ''bad'')]\<rparr>"
      "validator_new [] []"]
  by (simp add: add_field_error_violations into_result_def validator_new_def under_def
      make_field_with_parent_def)

end
