(* ===== verification/Lro.thy ===== *)
theory Lro
  imports Rn_Pattern Ids Error_Domain Codec
begin

text \<open>
  \<open>crates/aip-lro/src/lib.rs\<close>: long-running operations. The operation name grammar, the three-state
  machine over the stored message (\<open>dynamic\<close>), the typed facade \<open>Operation<M, R>\<close> and the wait
  policy. A message type is read through \<open>message_type\<close> (its name, \<open>prost\<close> encoding and decoding).
\<close>

subsection \<open>Errors\<close>

datatype lro_error =
  NameInvalid string string
| NotFound string
| AlreadyDone string
| LroMalformed string
| TypeMismatch string string
| WaitTimeoutInvalid string
| Aborted string

fun lro_error_display :: "lro_error \<Rightarrow> string" where
  "lro_error_display (NameInvalid name detail) =
     ''operation name `'' @ name @ ''` is invalid: '' @ detail"
| "lro_error_display (NotFound name) = ''operation `'' @ name @ ''` not found''"
| "lro_error_display (AlreadyDone name) = ''operation `'' @ name @ ''` is already done''"
| "lro_error_display (LroMalformed detail) = ''operation is malformed: '' @ detail"
| "lro_error_display (TypeMismatch expected got) =
     ''expected a `'' @ expected @ ''` but the operation carried a `'' @ got @ ''`''"
| "lro_error_display (WaitTimeoutInvalid detail) = ''wait timeout is invalid: '' @ detail"
| "lro_error_display (Aborted name) =
     ''operation `'' @ name @ ''` aborted: a conflicting operation is in progress''"

fun lro_error_reason :: "lro_error \<Rightarrow> grpc_code \<times> string \<times> (string \<times> string) list" where
  "lro_error_reason (NameInvalid name detail) =
     (Code_InvalidArgument, ''OPERATION_NAME_INVALID'', [(''name'', name)])"
| "lro_error_reason (NotFound name) = (Code_NotFound, ''OPERATION_NOT_FOUND'', [(''name'', name)])"
| "lro_error_reason (AlreadyDone name) =
     (Code_FailedPrecondition, ''OPERATION_ALREADY_DONE'', [(''name'', name)])"
| "lro_error_reason (LroMalformed detail) =
     (Code_Internal, ''OPERATION_MALFORMED'', [(''detail'', detail)])"
| "lro_error_reason (TypeMismatch expected got) =
     (Code_Internal, ''OPERATION_MALFORMED'', [(''expected'', expected), (''got'', got)])"
| "lro_error_reason (WaitTimeoutInvalid detail) =
     (Code_InvalidArgument, ''OPERATION_WAIT_TIMEOUT_INVALID'', [])"
| "lro_error_reason (Aborted name) = (Code_Aborted, ''OPERATION_ABORTED'', [(''name'', name)])"

definition lro_status :: "lro_error \<Rightarrow> status" where
  "lro_status err =
     (case lro_error_reason err of (code, reason, metadata) \<Rightarrow>
        detailed_status code (lro_error_display err) reason metadata [])"

definition lro_not_found :: "string \<Rightarrow> lro_error" where
  "lro_not_found name = NotFound name"

definition lro_aborted :: "string \<Rightarrow> lro_error" where
  "lro_aborted name = Aborted name"

lemma lro_code: "fst (lro_error_reason e) \<noteq> Code_Ok"
  by (cases e) auto

interpretation lro_err: detailed_mapping lro_status
proof (unfold_locales, goal_cases)
  case (2 e)
  then show ?case using lro_code [of e] by (auto simp: lro_status_def split: prod.splits)
qed (auto simp: lro_status_def split: prod.splits)

subsection \<open>Operation names\<close>

record operation_name =
  on_parent :: "string option"
  on_operation_id :: string

definition operation_name_parse ::
  "unicode_tables \<Rightarrow> (string \<Rightarrow> bool) \<Rightarrow> string \<Rightarrow> lro_error + operation_name" where
  "operation_name_parse u uuid_ok name =
     res_bind (map_err (\<lambda>e. NameInvalid name (rn_error_display u e)) (validate name)) (\<lambda>_.
       let split = (case rsplit_once ''/operations/'' name of
                      Some (parent, opid) \<Rightarrow> Some (Some parent, opid)
                    | None \<Rightarrow> map_option (\<lambda>opid. (None, opid)) (strip_prefix ''operations/'' name))
       in case split of
            None \<Rightarrow> Inl (NameInvalid name ''missing the `operations/` collection'')
          | Some (parent, opid) \<Rightarrow>
              if opid = [] \<or> CHR ''/'' \<in> set opid
              then Inl (NameInvalid name ''the operation id must be a single non-empty segment'')
              else
                res_bind (map_err (\<lambda>e. NameInvalid name (rid_error_display u e))
                            (validate_user_settable uuid_ok opid))
                  (\<lambda>_. Inr \<lparr>on_parent = parent, on_operation_id = opid\<rparr>))"

definition collection :: "operation_name \<Rightarrow> string" where
  "collection n =
     (case on_parent n of Some parent \<Rightarrow> parent @ ''/operations'' | None \<Rightarrow> ''operations'')"

definition operation_name_display :: "operation_name \<Rightarrow> string" where
  "operation_name_display n =
     (case on_parent n of
        Some parent \<Rightarrow> parent @ ''/operations/'' @ on_operation_id n
      | None \<Rightarrow> ''operations/'' @ on_operation_id n)"

definition operation_name_wf :: "(string \<Rightarrow> bool) \<Rightarrow> operation_name \<Rightarrow> bool" where
  "operation_name_wf uuid_ok n \<longleftrightarrow>
     validate (operation_name_display n) = Inr ()
     \<and> on_operation_id n \<noteq> [] \<and> CHR ''/'' \<notin> set (on_operation_id n)
     \<and> validate_user_settable uuid_ok (on_operation_id n) = Inr ()"

lemma rsplit_once_last: "rsplit_once p (a' @ p @ b') = Some (a, b) \<Longrightarrow> length a' \<le> length a"
proof (induction a' arbitrary: a)
  case (Cons x a')
  then obtain a2 b2 where "rsplit_once p (a' @ p @ b') = Some (a2, b2)"
    using rsplit_once_None [of p "a' @ p @ b'"] by (cases "rsplit_once p (a' @ p @ b')") auto
  with Cons show ?case by auto
qed simp

lemma rsplit_once_unique:
  assumes "p \<noteq> []" and "last p \<notin> set x"
  shows "rsplit_once p (q @ p @ x) = Some (q, x)"
proof -
  obtain a b where ab: "rsplit_once p (q @ p @ x) = Some (a, b)"
    using rsplit_once_None [of p "q @ p @ x"] by (cases "rsplit_once p (q @ p @ x)") auto
  have eq: "q @ p @ x = a @ p @ b" by (rule rsplit_once_Some [OF ab])
  have "length q + length x = length a + length b" using arg_cong [OF eq, of length] by simp
  with rsplit_once_last [OF ab] have "length b \<le> length x" by simp
  moreover have "suffix b (q @ p @ x)" by (metis eq append.assoc suffixI)
  moreover have "suffix x (q @ p @ x)" by (metis append.assoc suffixI)
  ultimately obtain y where y: "x = y @ b" using suffix_length_suffix by (metis suffixE)
  have "y = []"
  proof (rule ccontr)
    assume "y \<noteq> []"
    from eq have "a @ p = q @ p @ y" by (simp add: y)
    then have "last p = last y" using \<open>y \<noteq> []\<close> assms(1) by (metis append_is_Nil_conv last_appendR)
    with assms(2) \<open>y \<noteq> []\<close> show False by (simp add: y)
  qed
  with eq y ab show ?thesis by simp
qed

lemma rsplit_once_too_few: "count_list s c < count_list p c \<Longrightarrow> rsplit_once p s = None"
  by (auto simp: rsplit_once_None)

lemma operation_name_split:
  assumes "CHR ''/'' \<notin> set (on_operation_id n)"
  shows "(case rsplit_once ''/operations/'' (operation_name_display n) of
            Some (parent, opid) \<Rightarrow> Some (Some parent, opid)
          | None \<Rightarrow> map_option (\<lambda>opid. (None, opid)) (strip_prefix ''operations/'' (operation_name_display n)))
         = Some (on_parent n, on_operation_id n)"
proof (cases "on_parent n")
  case None
  have "count_list (''operations/'' @ on_operation_id n) CHR ''/'' < count_list ''/operations/'' CHR ''/''"
    using assms by (simp add: count_list_0_iff)
  then have "rsplit_once ''/operations/'' (''operations/'' @ on_operation_id n) = None"
    by (rule rsplit_once_too_few)
  moreover have "strip_prefix ''operations/'' (''operations/'' @ on_operation_id n) = Some (on_operation_id n)"
    by (rule strip_prefix_append)
  ultimately show ?thesis
    unfolding operation_name_display_def None by (simp only: option.case option.map None)
next
  case (Some p)
  have "rsplit_once ''/operations/'' (p @ ''/operations/'' @ on_operation_id n) = Some (p, on_operation_id n)"
    using assms by (intro rsplit_once_unique) simp_all
  then show ?thesis unfolding operation_name_display_def Some by (simp only: option.case prod.case)
qed

lemma operation_name_text:
  assumes "operation_name_parse u uuid_ok name = Inr n"
  shows "operation_name_display n = name" and "operation_name_wf uuid_ok n"
proof -
  define split where "split = (case rsplit_once ''/operations/'' name of
            Some (parent, opid) \<Rightarrow> Some (Some parent, opid)
          | None \<Rightarrow> map_option (\<lambda>opid. (None, opid)) (strip_prefix ''operations/'' name))"
  from assms obtain parent opid where n: "split = Some (parent, opid)"
      "n = \<lparr>on_parent = parent, on_operation_id = opid\<rparr>" "opid \<noteq> []" "CHR ''/'' \<notin> set opid"
      "validate_user_settable uuid_ok opid = Inr ()" "validate name = Inr ()"
    by (auto simp: operation_name_parse_def res_bind_Inr_iff split_def [symmetric] Let_def
        split: option.splits if_splits)
  have "name = (case parent of Some p \<Rightarrow> p @ ''/operations/'' @ opid | None \<Rightarrow> ''operations/'' @ opid)"
    using n(1) unfolding split_def
    by (auto simp only: strip_prefix_Some option.map option.case prod.case option.inject prod.inject map_option_eq_Some
        dest!: rsplit_once_Some split: option.splits prod.splits)
  then show "operation_name_display n = name"
    by (cases parent) (simp_all add: operation_name_display_def n(2))
  with n show "operation_name_wf uuid_ok n" by (simp add: operation_name_wf_def)
qed

interpretation operation_text: lossless_codec operation_name_display "operation_name_parse u uuid_ok"
    "operation_name_wf uuid_ok"
proof (unfold_locales, goal_cases)
  case (1 n)
  then have split: "(case rsplit_once ''/operations/'' (operation_name_display n) of
            Some (parent, opid) \<Rightarrow> Some (Some parent, opid)
          | None \<Rightarrow> map_option (\<lambda>opid. (None, opid)) (strip_prefix ''operations/'' (operation_name_display n)))
         = Some (on_parent n, on_operation_id n)"
    by (intro operation_name_split) (simp add: operation_name_wf_def)
  from 1 show ?case unfolding operation_name_parse_def Let_def split
    by (simp add: operation_name_wf_def)
qed (auto dest: operation_name_text)

text \<open>Operation names have one text form. A name parses exactly if it is a valid resource name
  \<open>[{parent}/]operations/{id}\<close> with a valid id; displaying the parsed name gives the text back, and
  the text is its collection, a slash and the id, which is the last segment.\<close>

theorem operation_name_roundtrip:
  "(operation_name_parse u uuid_ok name = Inr n)
     = (operation_name_display n = name \<and> validate name = Inr ()
        \<and> on_operation_id n \<noteq> [] \<and> CHR ''/'' \<notin> set (on_operation_id n)
        \<and> validate_user_settable uuid_ok (on_operation_id n) = Inr ())
   \<and> operation_name_display n = collection n @ ''/'' @ on_operation_id n"
proof -
  have "operation_name_display n = collection n @ ''/'' @ on_operation_id n"
    by (simp add: operation_name_display_def collection_def split: option.split)
  then show ?thesis
    using operation_text.parse_iff [of u uuid_ok name n] unfolding operation_name_wf_def by blast
qed

subsection \<open>The stored operation\<close>

datatype op_result = ResError rpc_status | ResResponse any

record proto_operation =
  op_name :: string
  op_metadata :: "any option"
  op_done :: bool
  op_result :: "op_result option"

datatype lro_state = Pending | Succeeded | Failed

definition state_of :: "proto_operation \<Rightarrow> lro_state" where
  "state_of op =
     (if \<not> op_done op then Pending
      else (case op_result op of Some (ResResponse _) \<Rightarrow> Succeeded | _ \<Rightarrow> Failed))"

definition state_is_done :: "lro_state \<Rightarrow> bool" where
  "state_is_done s \<longleftrightarrow> (case s of Pending \<Rightarrow> False | _ \<Rightarrow> True)"

definition CANCELLED_CODE :: int where
  "CANCELLED_CODE = 1"

definition cancelled_status :: rpc_status where
  "cancelled_status =
     \<lparr>rs_code = CANCELLED_CODE, rs_message = ''operation cancelled'', rs_details = []\<rparr>"

definition dyn_pending :: "string \<Rightarrow> any option \<Rightarrow> proto_operation" where
  "dyn_pending name metadata =
     \<lparr>op_name = name, op_metadata = metadata, op_done = False, op_result = None\<rparr>"

definition ensure_pending :: "proto_operation \<Rightarrow> lro_error + unit" where
  "ensure_pending op = (if op_done op then Inl (AlreadyDone (op_name op)) else Inr ())"

text \<open>A function on \<open>&mut ProtoOperation\<close> returns its result and the operation it leaves.\<close>

definition dyn_succeed :: "proto_operation \<Rightarrow> any \<Rightarrow> (lro_error + unit) \<times> proto_operation" where
  "dyn_succeed op response =
     (case ensure_pending op of
        Inl e \<Rightarrow> (Inl e, op)
      | Inr _ \<Rightarrow> (Inr (), op\<lparr>op_done := True, op_result := Some (ResResponse response)\<rparr>))"

definition dyn_fail :: "proto_operation \<Rightarrow> rpc_status \<Rightarrow> (lro_error + unit) \<times> proto_operation" where
  "dyn_fail op status =
     (case ensure_pending op of
        Inl e \<Rightarrow> (Inl e, op)
      | Inr _ \<Rightarrow> (Inr (), op\<lparr>op_done := True, op_result := Some (ResError status)\<rparr>))"

definition dyn_cancel :: "proto_operation \<Rightarrow> (lro_error + unit) \<times> proto_operation" where
  "dyn_cancel op = dyn_fail op cancelled_status"

definition dyn_set_metadata :: "proto_operation \<Rightarrow> any \<Rightarrow> (lro_error + unit) \<times> proto_operation" where
  "dyn_set_metadata op metadata =
     (case ensure_pending op of
        Inl e \<Rightarrow> (Inl e, op)
      | Inr _ \<Rightarrow> (Inr (), op\<lparr>op_metadata := Some metadata\<rparr>))"

definition dyn_validate :: "proto_operation \<Rightarrow> lro_error + unit" where
  "dyn_validate op =
     (if op_name op = [] then Inl (LroMalformed ''a stored operation must have a name'')
      else
        (case (op_done op, op_result op) of
           (False, None) \<Rightarrow> Inr ()
         | (True, Some _) \<Rightarrow> Inr ()
         | (True, None) \<Rightarrow> Inl (LroMalformed ''done but carries no result'')
         | (False, Some _) \<Rightarrow> Inl (LroMalformed ''not done but carries a result'')))"

subsection \<open>The typed facade\<close>

text \<open>A generated message type \<open>T\<close>: \<open>full_name\<close>, \<open>encode_to_vec\<close>, \<open>T::decode\<close>.\<close>

record 'm message_type =
  mt_full_name :: string
  mt_encode :: "'m \<Rightarrow> string"
  mt_decode :: "string \<Rightarrow> string + 'm"

definition pack :: "'m message_type \<Rightarrow> 'm \<Rightarrow> any" where
  "pack mt msg =
     \<lparr>any_type_url = ''type.googleapis.com/'' @ mt_full_name mt, any_value = mt_encode mt msg\<rparr>"

definition unpack :: "'m message_type \<Rightarrow> any \<Rightarrow> lro_error + 'm" where
  "unpack mt a =
     (let expected = mt_full_name mt;
          got = (case rsplit_once ''/'' (any_type_url a) of Some (_, name) \<Rightarrow> name | None \<Rightarrow> any_type_url a)
      in if got \<noteq> expected then Inl (TypeMismatch expected got)
         else map_err (\<lambda>e. LroMalformed (''decoding a `'' @ expected @ ''`: '' @ e))
                (mt_decode mt (any_value a)))"

text \<open>\<open>Operation<M, R>\<close> is its \<open>inner\<close> message; the type parameters are the two message types.\<close>

definition operation_pending :: "'m message_type \<Rightarrow> operation_name \<Rightarrow> 'm \<Rightarrow> proto_operation" where
  "operation_pending mt name metadata = dyn_pending (operation_name_display name) (Some (pack mt metadata))"

definition operation_validated :: "'r message_type \<Rightarrow> 'r \<Rightarrow> proto_operation" where
  "operation_validated rt response =
     \<lparr>op_name = [], op_metadata = None, op_done = True,
      op_result = Some (ResResponse (pack rt response))\<rparr>"

definition operation_succeed ::
  "'r message_type \<Rightarrow> proto_operation \<Rightarrow> 'r \<Rightarrow> (lro_error + unit) \<times> proto_operation" where
  "operation_succeed rt op response = dyn_succeed op (pack rt response)"

definition operation_set_metadata ::
  "'m message_type \<Rightarrow> proto_operation \<Rightarrow> 'm \<Rightarrow> (lro_error + unit) \<times> proto_operation" where
  "operation_set_metadata mt op metadata = dyn_set_metadata op (pack mt metadata)"

definition operation_fail_status ::
  "proto_operation \<Rightarrow> status \<Rightarrow> (lro_error + unit) \<times> proto_operation" where
  "operation_fail_status op s =
     dyn_fail op \<lparr>rs_code = code_number (st_code s), rs_message = st_message s, rs_details = []\<rparr>"

definition operation_error :: "proto_operation \<Rightarrow> rpc_status option" where
  "operation_error op = (case op_result op of Some (ResError s) \<Rightarrow> Some s | _ \<Rightarrow> None)"

definition operation_metadata :: "'m message_type \<Rightarrow> proto_operation \<Rightarrow> lro_error + 'm option" where
  "operation_metadata mt op =
     (case op_metadata op of
        None \<Rightarrow> Inr None
      | Some a \<Rightarrow> (case unpack mt a of Inl e \<Rightarrow> Inl e | Inr m \<Rightarrow> Inr (Some m)))"

definition operation_response :: "'r message_type \<Rightarrow> proto_operation \<Rightarrow> lro_error + 'r option" where
  "operation_response rt op =
     (case op_result op of
        Some (ResResponse a) \<Rightarrow> (case unpack rt a of Inl e \<Rightarrow> Inl e | Inr r \<Rightarrow> Inr (Some r))
      | _ \<Rightarrow> Inr None)"

definition from_inner :: "proto_operation \<Rightarrow> lro_error + proto_operation" where
  "from_inner inner = res_bind (dyn_validate inner) (\<lambda>_. Inr inner)"

subsection \<open>Wait timeouts\<close>

text \<open>\<open>std::time::Duration\<close> and \<open>prost_types::Duration\<close> (\<open>i64\<close> seconds, \<open>i32\<close> nanos).\<close>

record std_duration =
  du_secs :: nat
  du_nanos :: nat

record proto_duration =
  pd_seconds :: int
  pd_nanos :: int

definition nanos_total :: "std_duration \<Rightarrow> nat" where
  "nanos_total d = du_secs d * 1000000000 + du_nanos d"

text \<open>\<open>Duration::new\<close> carries excess nanoseconds; \<open>Ord\<close> compares seconds, then nanoseconds.\<close>

definition duration_new :: "nat \<Rightarrow> nat \<Rightarrow> std_duration" where
  "duration_new secs nanos =
     \<lparr>du_secs = secs + nanos div 1000000000, du_nanos = nanos mod 1000000000\<rparr>"

definition duration_le :: "std_duration \<Rightarrow> std_duration \<Rightarrow> bool" where
  "duration_le a b \<longleftrightarrow> du_secs a < du_secs b \<or> (du_secs a = du_secs b \<and> du_nanos a \<le> du_nanos b)"

definition duration_wf :: "std_duration \<Rightarrow> bool" where
  "duration_wf d \<longleftrightarrow> du_nanos d < 1000000000"

record wait_timeout =
  wt_default :: std_duration
  wt_max :: std_duration

definition wait_resolve :: "wait_timeout \<Rightarrow> proto_duration option \<Rightarrow> lro_error + std_duration" where
  "wait_resolve w requested =
     (case requested of
        None \<Rightarrow> Inr (wt_default w)
      | Some d \<Rightarrow>
          if pd_seconds d < 0 \<or> pd_nanos d < 0
          then Inl (WaitTimeoutInvalid ''a wait timeout must not be negative'')
          else if pd_nanos d \<ge> 1000000000
          then Inl (WaitTimeoutInvalid (''a wait timeout'' @ [CHR 0x27] @ ''s nanos must be less than 1,000,000,000''))
          else
            (let r = duration_new (nat (pd_seconds d)) (nat (pd_nanos d))
             in Inr (if duration_le r (wt_max w) then r else wt_max w)))"

subsection \<open>The state machine\<close>

text \<open>The calls on a stored operation, and what a sequence of them does.\<close>

datatype lro_call = Succeed any | Fail rpc_status | Cancel | Set_Metadata any

fun apply_call :: "lro_call \<Rightarrow> proto_operation \<Rightarrow> (lro_error + unit) \<times> proto_operation" where
  "apply_call (Succeed a) op = dyn_succeed op a"
| "apply_call (Fail s) op = dyn_fail op s"
| "apply_call Cancel op = dyn_cancel op"
| "apply_call (Set_Metadata a) op = dyn_set_metadata op a"

fun run_calls :: "lro_call list \<Rightarrow> proto_operation \<Rightarrow> (lro_error + unit) list \<times> proto_operation" where
  "run_calls [] op = ([], op)"
| "run_calls (c # cs) op =
     (case apply_call c op of (r, op') \<Rightarrow> (case run_calls cs op' of (rs, op'') \<Rightarrow> (r # rs, op'')))"

fun outcome :: "lro_call \<Rightarrow> op_result option" where
  "outcome (Succeed a) = Some (ResResponse a)"
| "outcome (Fail s) = Some (ResError s)"
| "outcome Cancel = Some (ResError cancelled_status)"
| "outcome (Set_Metadata a) = None"

lemmas dyn_defs = dyn_succeed_def dyn_fail_def dyn_cancel_def dyn_set_metadata_def ensure_pending_def

lemma apply_done: "op_done op \<Longrightarrow> apply_call c op = (Inl (AlreadyDone (op_name op)), op)"
  by (cases c) (simp_all add: dyn_defs)

lemma apply_pending:
  "\<not> op_done op \<Longrightarrow> apply_call c op =
     (Inr (), case outcome c of
        Some r \<Rightarrow> op\<lparr>op_done := True, op_result := Some r\<rparr>
      | None \<Rightarrow> (case c of Set_Metadata a \<Rightarrow> op\<lparr>op_metadata := Some a\<rparr> | _ \<Rightarrow> op))"
  by (cases c) (simp_all add: dyn_defs)

lemma run_done:
  "op_done op \<Longrightarrow> run_calls cs op = (replicate (length cs) (Inl (AlreadyDone (op_name op))), op)"
  by (induction cs) (simp_all add: apply_done)

fun last_metadata :: "any option \<Rightarrow> lro_call list \<Rightarrow> any option" where
  "last_metadata md [] = md"
| "last_metadata md (Set_Metadata a # cs) = last_metadata (Some a) cs"
| "last_metadata md (c # cs) = last_metadata md cs"

lemma run_pending:
  assumes "\<not> op_done op" and "op_result op = None"
  shows "run_calls cs op =
     (let before = takeWhile (\<lambda>c. outcome c = None) cs;
          md = last_metadata (op_metadata op) before
      in case dropWhile (\<lambda>c. outcome c = None) cs of
           [] \<Rightarrow> (replicate (length cs) (Inr ()), op\<lparr>op_metadata := md\<rparr>)
         | t # later \<Rightarrow>
             (replicate (Suc (length before)) (Inr ())
                @ replicate (length later) (Inl (AlreadyDone (op_name op))),
              op\<lparr>op_metadata := md, op_done := True, op_result := outcome t\<rparr>))"
  using assms
proof (induction cs arbitrary: op)
  case (Cons c cs)
  show ?case
  proof (cases "outcome c")
    case (Some r)
    then show ?thesis by (simp add: apply_pending [OF Cons.prems(1)] run_done Let_def)
  next
    case None
    then obtain a where c: "c = Set_Metadata a" by (cases c) auto
    let ?op = "op\<lparr>op_metadata := Some a\<rparr>"
    have "run_calls (c # cs) op = (Inr () # fst (run_calls cs ?op), snd (run_calls cs ?op))"
      by (simp add: c apply_pending [OF Cons.prems(1)] split: prod.split)
    moreover note Cons.IH [of ?op]
    ultimately show ?thesis using Cons.prems
      by (simp add: c Let_def del: run_calls.simps dropWhile_eq_Nil_conv split: list.split)
  qed
qed simp

text \<open>C16: An operation is terminal once. Over any sequence of calls on a new operation, every call up
  to the first terminal one succeeds, that one alone decides the result, and every later call is
  refused with \<open>AlreadyDone\<close> and changes nothing; the metadata is what was set last before it.\<close>

theorem operation_terminal_once:
  "run_calls cs (dyn_pending name md) =
     (let before = takeWhile (\<lambda>c. outcome c = None) cs in
      case dropWhile (\<lambda>c. outcome c = None) cs of
        [] \<Rightarrow>
          (replicate (length cs) (Inr ()),
           \<lparr>op_name = name, op_metadata = last_metadata md before, op_done = False, op_result = None\<rparr>)
      | t # later \<Rightarrow>
          (replicate (Suc (length before)) (Inr ()) @ replicate (length later) (Inl (AlreadyDone name)),
           \<lparr>op_name = name, op_metadata = last_metadata md before, op_done = True,
            op_result = outcome t\<rparr>))"
  by (subst run_pending)
    (simp_all add: dyn_pending_def Let_def del: dropWhile_eq_Nil_conv split: list.split)

text \<open>
  The operations a server can hold: made by a constructor or read back, then driven by calls. (A
  response enters only through its packed bytes, so one message type stands for all.)
\<close>

inductive lro_reachable :: "proto_operation \<Rightarrow> bool" where
  pending: "lro_reachable (dyn_pending name md)"
| validated: "lro_reachable (operation_validated (rt :: string message_type) r)"
| stored: "from_inner op = Inr op' \<Longrightarrow> lro_reachable op'"
| call: "lro_reachable op \<Longrightarrow> apply_call c op = (r, op') \<Longrightarrow> lro_reachable op'"

definition lro_inv :: "proto_operation \<Rightarrow> bool" where
  "lro_inv op \<longleftrightarrow> op_done op = (op_result op \<noteq> None)"

lemma apply_call_inv:
  assumes "lro_inv op" and "apply_call c op = (r, op')"
  shows "lro_inv op'"
proof (cases "op_done op")
  case True
  with assms show ?thesis by (simp add: apply_done)
next
  case False
  have "op' = snd (apply_call c op)" using assms(2) by simp
  then show ?thesis using assms(1) False
    by (cases c) (simp_all only: apply_pending [OF False], simp_all add: lro_inv_def)
qed

lemma dyn_validate_iff: "dyn_validate op = Inr () \<longleftrightarrow> op_name op \<noteq> [] \<and> lro_inv op"
  by (auto simp: dyn_validate_def lro_inv_def split: bool.splits option.splits)

lemma lro_reachable_inv: "lro_reachable op \<Longrightarrow> lro_inv op"
proof (induction rule: lro_reachable.induct)
  case (stored op op')
  then have "dyn_validate op = Inr () \<and> op' = op" by (auto simp: from_inner_def res_bind_Inr_iff)
  then show ?case by (simp add: dyn_validate_iff)
next
  case (call op c r op')
  then show ?case by (blast intro: apply_call_inv)
qed (simp_all add: dyn_pending_def operation_validated_def lro_inv_def)

text \<open>C17: Every operation a server can reach satisfies the state invariant: it can be stored and read
  back unless it is the nameless validate-only reply, it is done exactly if it carries a result,
  and its three states are told apart by the error and the response it carries.\<close>

theorem reachable_operations_valid:
  assumes "lro_reachable op"
  shows "from_inner op = (if op_name op = [] then Inl (LroMalformed ''a stored operation must have a name'')
                          else Inr op)
    \<and> (state_of op = Pending \<longleftrightarrow> op_result op = None)
    \<and> (state_of op = Failed \<longleftrightarrow> operation_error op \<noteq> None)
    \<and> (state_of op = Succeeded \<longleftrightarrow> (\<exists>a. op_result op = Some (ResResponse a)))
    \<and> state_is_done (state_of op) = op_done op"
proof -
  from assms have inv: "lro_inv op" by (rule lro_reachable_inv)
  have "from_inner op = (if op_name op = [] then Inl (LroMalformed ''a stored operation must have a name'')
                          else Inr op)"
  proof (cases "op_name op = []")
    case True
    then show ?thesis by (simp add: from_inner_def dyn_validate_def)
  next
    case False
    with inv have "dyn_validate op = Inr ()" by (simp add: dyn_validate_iff)
    with False show ?thesis by (simp add: from_inner_def)
  qed
  with inv show ?thesis
    by (auto simp: lro_inv_def state_of_def state_is_done_def operation_error_def
        split: option.splits op_result.splits)
qed

theorem reachable_operations_valid_witness:
  "state_of (snd (dyn_cancel (dyn_pending ''operations/a'' None))) = Failed"
proof -
  have "apply_call Cancel (dyn_pending ''operations/a'' None)
      = (Inr (), snd (dyn_cancel (dyn_pending ''operations/a'' None)))"
    by (simp add: dyn_defs dyn_pending_def)
  then have "lro_reachable (snd (dyn_cancel (dyn_pending ''operations/a'' None)))"
    by (rule lro_reachable.call [OF lro_reachable.pending])
  from reachable_operations_valid [OF this] show ?thesis
    by (simp add: operation_error_def dyn_defs dyn_pending_def)
qed

subsection \<open>Typed results and waiting\<close>

lemma unpack_pack:
  assumes "CHR ''/'' \<notin> set (mt_full_name mt)"
  shows "unpack mt' (pack mt m) =
     (if mt_full_name mt = mt_full_name mt'
      then map_err (\<lambda>e. LroMalformed (''decoding a `'' @ mt_full_name mt' @ ''`: '' @ e))
             (mt_decode mt' (mt_encode mt m))
      else Inl (TypeMismatch (mt_full_name mt') (mt_full_name mt)))"
proof -
  have "rsplit_once ''/'' (''type.googleapis.com'' @ ''/'' @ mt_full_name mt)
      = Some (''type.googleapis.com'', mt_full_name mt)"
    using assms by (intro rsplit_once_unique) simp_all
  then have "rsplit_once ''/'' (''type.googleapis.com/'' @ mt_full_name mt)
      = Some (''type.googleapis.com'', mt_full_name mt)" by simp
  then show ?thesis unfolding unpack_def pack_def Let_def by (simp only: any.select_convs option.case prod.case) auto
qed

text \<open>C36: The facade gives back what was put in. After the typed response is set on a new operation, the
  response and the metadata read back as the messages they were; read as another message type
  they are a \<open>TypeMismatch\<close>, never a wrong value, and no response is read from a pending or failed
  operation.\<close>

theorem typed_results_roundtrip:
  assumes "mt_decode mt (mt_encode mt m) = Inr m" and "mt_decode rt (mt_encode rt r) = Inr r"
    and "CHR ''/'' \<notin> set (mt_full_name mt)" and "CHR ''/'' \<notin> set (mt_full_name rt)"
    and "mt_full_name other \<noteq> mt_full_name rt"
  shows "operation_response rt (snd (operation_succeed rt (operation_pending mt n m) r)) = Inr (Some r)
    \<and> operation_metadata mt (snd (operation_succeed rt (operation_pending mt n m) r)) = Inr (Some m)
    \<and> operation_response other (snd (operation_succeed rt (operation_pending mt n m) r))
      = Inl (TypeMismatch (mt_full_name other) (mt_full_name rt))
    \<and> operation_response rt (operation_pending mt n m) = Inr None
    \<and> operation_response rt (snd (dyn_cancel (operation_pending mt n m))) = Inr None
    \<and> op_name (operation_pending mt n m) = operation_name_display n"
  using assms
  by (simp add: operation_response_def operation_succeed_def operation_pending_def operation_metadata_def
      dyn_defs dyn_pending_def unpack_pack)

definition bytes_type :: "string \<Rightarrow> string message_type" where
  "bytes_type name = \<lparr>mt_full_name = name, mt_encode = (\<lambda>m. m), mt_decode = Inr\<rparr>"

theorem typed_results_roundtrip_witness:
  "operation_response (bytes_type ''R'')
     (snd (operation_succeed (bytes_type ''R'')
       (operation_pending (bytes_type ''M'') \<lparr>on_parent = None, on_operation_id = ''a''\<rparr> ''m'') ''r''))
   = Inr (Some ''r'')"
  using typed_results_roundtrip [of "bytes_type ''M''" "''m''" "bytes_type ''R''" "''r''" "bytes_type ''S''"
      "\<lparr>on_parent = None, on_operation_id = ''a''\<rparr>"]
  by (simp add: bytes_type_def)

lemma duration_le_total: "duration_wf a \<Longrightarrow> duration_wf b \<Longrightarrow> duration_le a b \<longleftrightarrow> nanos_total a \<le> nanos_total b"
  unfolding duration_le_def nanos_total_def duration_wf_def
  by (cases "du_secs a" "du_secs b" rule: linorder_cases) auto

text \<open>A wait is as long as asked, within the maximum. A well-formed request (nothing negative, less
  than a second of nanoseconds) resolves to the smaller of itself and the maximum, to the
  nanosecond; anything else is refused; no request means the default.\<close>

theorem wait_timeouts_capped:
  assumes "duration_wf (wt_max w)"
  shows "case wait_resolve w (Some d) of
           Inr t \<Rightarrow>
             0 \<le> pd_seconds d \<and> 0 \<le> pd_nanos d \<and> pd_nanos d < 1000000000 \<and> duration_wf t
             \<and> int (nanos_total t)
               = min (int (nanos_total (wt_max w))) (pd_seconds d * 1000000000 + pd_nanos d)
         | Inl e \<Rightarrow> (pd_seconds d < 0 \<or> pd_nanos d < 0 \<or> 1000000000 \<le> pd_nanos d)
                    \<and> (\<exists>detail. e = WaitTimeoutInvalid detail)"
proof (cases "pd_seconds d < 0 \<or> pd_nanos d < 0 \<or> 1000000000 \<le> pd_nanos d")
  case True
  then show ?thesis by (auto simp: wait_resolve_def)
next
  case False
  then have ok: "0 \<le> pd_seconds d" "0 \<le> pd_nanos d" "pd_nanos d < 1000000000" by auto
  define r where "r = duration_new (nat (pd_seconds d)) (nat (pd_nanos d))"
  have small: "nat (pd_nanos d) < 1000000000" using ok by simp
  have r: "duration_wf r" "int (nanos_total r) = pd_seconds d * 1000000000 + pd_nanos d"
    using ok small by (simp_all add: r_def duration_new_def duration_wf_def nanos_total_def)
  have "wait_resolve w (Some d) = Inr (if duration_le r (wt_max w) then r else wt_max w)"
    using ok by (simp add: wait_resolve_def r_def Let_def)
  with r ok assms duration_le_total [OF r(1) assms] show ?thesis by simp
qed

theorem wait_timeouts_capped_witness:
  "case wait_resolve \<lparr>wt_default = \<lparr>du_secs = 1, du_nanos = 0\<rparr>, wt_max = \<lparr>du_secs = 30, du_nanos = 0\<rparr>\<rparr>
      (Some \<lparr>pd_seconds = 45, pd_nanos = 5\<rparr>) of
     Inr t \<Rightarrow> nanos_total t = 30000000000 | Inl _ \<Rightarrow> False"
  using wait_timeouts_capped [of "\<lparr>wt_default = \<lparr>du_secs = 1, du_nanos = 0\<rparr>, wt_max = \<lparr>du_secs = 30, du_nanos = 0\<rparr>\<rparr>"
      "\<lparr>pd_seconds = 45, pd_nanos = 5\<rparr>"]
  by (simp add: wait_resolve_def duration_wf_def nanos_total_def duration_new_def duration_le_def)

end
