(* ===== verification/Field_Mask.thy ===== *)
theory Field_Mask
  imports Field_Behavior Utf8
begin

text \<open>
  \<open>crates/aip-fieldmask/src/lib.rs\<close>: applying an update mask to a dynamic message and validating mask
  paths against a descriptor. A \<open>&mut\<close> destination is returned updated; \<open>None\<close> stands for the
  \<open>expect\<close> panics on a message-kind field that holds no message.
\<close>

subsection \<open>Errors\<close>

datatype mask_error =
  UnknownPath string string
| WildcardNotAlone
| MaskTypeMismatch string string

fun mask_error_display :: "unicode_tables \<Rightarrow> mask_error \<Rightarrow> string" where
  "mask_error_display u (UnknownPath path msg) =
     ''field mask path '' @ str_debug u path @ '' does not exist on message '' @ msg"
| "mask_error_display u WildcardNotAlone =
     ''field mask path '' @ [CHR 0x22, CHR ''*'', CHR 0x22] @ '' must not be combined with other paths''"
| "mask_error_display u (MaskTypeMismatch dst src) =
     ''dst and src message types differ: '' @ dst @ '' vs '' @ src"

fun mask_error_reason :: "mask_error \<Rightarrow> string \<times> (string \<times> string) list \<times> (string \<times> string) list" where
  "mask_error_reason (UnknownPath path msg) =
     (''FIELD_MASK_UNKNOWN_PATH'', [(''path'', path), (''message'', msg)],
      [(path, ''does not exist on message '' @ msg)])"
| "mask_error_reason WildcardNotAlone = (''FIELD_MASK_WILDCARD_NOT_ALONE'', [], [])"
| "mask_error_reason (MaskTypeMismatch dst src) =
     (''FIELD_MASK_TYPE_MISMATCH'', [(''dst'', dst), (''src'', src)], [])"

definition mask_status :: "unicode_tables \<Rightarrow> mask_error \<Rightarrow> status" where
  "mask_status u err =
     (case mask_error_reason err of (reason, metadata, violations) \<Rightarrow>
        detailed_status Code_InvalidArgument (mask_error_display u err) reason metadata violations)"

interpretation mask_err: detailed_mapping "mask_status u"
  by unfold_locales (auto simp: mask_status_def split: prod.splits)

subsection \<open>Updating\<close>

definition WILDCARD_PATH :: string where
  "WILDCARD_PATH = ''*''"

definition is_full_replacement :: "field_mask \<Rightarrow> bool" where
  "is_full_replacement fmask \<longleftrightarrow> length fmask = 1 \<and> fmask ! 0 = WILDCARD_PATH"

text \<open>\<open>value.as_message().expect(_)\<close>.\<close>

definition as_message :: "'m rvalue \<Rightarrow> 'm option" where
  "as_message v = (case v of V_Message s \<Rightarrow> Some s | _ \<Rightarrow> None)"

lemma as_message_Some [simp]: "as_message v = Some s \<longleftrightarrow> v = V_Message s"
  by (simp add: as_message_def split: rvalue.split)

definition is_singular :: "field_descriptor \<Rightarrow> bool" where
  "is_singular fd \<longleftrightarrow> is_message_kind fd \<and> \<not> fd_is_list fd \<and> \<not> fd_is_map fd"

fun fold_option :: "('a \<Rightarrow> 'b \<Rightarrow> 'b option) \<Rightarrow> 'a list \<Rightarrow> 'b \<Rightarrow> 'b option" where
  "fold_option f [] b = Some b"
| "fold_option f (x # xs) b = (case f x b of None \<Rightarrow> None | Some b' \<Rightarrow> fold_option f xs b')"

text \<open>Recursion into nested messages takes the nesting depth of the source as fuel.\<close>

fun update_wire_set_fields :: "'m dyn_api \<Rightarrow> nat \<Rightarrow> 'm \<Rightarrow> 'm \<Rightarrow> 'm option" where
  "update_wire_set_fields api 0 dst src = Some dst"
| "update_wire_set_fields api (Suc n) dst src =
     fold_option (\<lambda>(f, fd, v) dst.
       if is_singular fd \<and> da_has api dst f then
         (case as_message v of
            None \<Rightarrow> None
          | Some src_msg \<Rightarrow>
              (case as_message (da_get api dst f) of
                 None \<Rightarrow> None
               | Some dst_msg \<Rightarrow>
                   (case update_wire_set_fields api n dst_msg src_msg of
                      None \<Rightarrow> None
                    | Some merged \<Rightarrow> Some (da_set api f (V_Message merged) dst))))
       else Some (da_set api f v dst)) (da_populated api src) dst"

fun update_named_field :: "'m dyn_api \<Rightarrow> 'm \<Rightarrow> 'm \<Rightarrow> string list \<Rightarrow> 'm option" where
  "update_named_field api dst src [] = Some dst"
| "update_named_field api dst src (first # rest) =
     (case field_named api src first of
        None \<Rightarrow> Some dst
      | Some fd \<Rightarrow>
          if rest = [] then
            (if da_has api src first then Some (da_set api first (da_get api src first) dst)
             else Some (da_clear api first dst))
          else if fd_is_list fd \<or> fd_is_map fd then Some dst
          else if \<not> is_message_kind fd then Some dst
          else
            (case as_message (da_get api src first) of
               None \<Rightarrow> None
             | Some src_msg \<Rightarrow>
                 (case as_message (da_get api dst first) of
                    None \<Rightarrow> None
                  | Some dst_msg \<Rightarrow>
                      (case update_named_field api dst_msg src_msg rest of
                         None \<Rightarrow> None
                       | Some sub \<Rightarrow> Some (da_set api first (V_Message sub) dst)))))"

definition update_dynamic ::
  "'m dyn_api \<Rightarrow> field_mask \<Rightarrow> 'm \<Rightarrow> 'm \<Rightarrow> (mask_error + 'm) option" where
  "update_dynamic api fmask dst src =
     (if da_name api dst \<noteq> da_name api src
      then Some (Inl (MaskTypeMismatch (da_name api dst) (da_name api src)))
      else if fmask = [] then
        map_option Inr (update_wire_set_fields api (Suc (da_depth api src)) dst src)
      else if is_full_replacement fmask then Some (Inr src)
      else
        map_option Inr
          (fold_option (\<lambda>path dst. update_named_field api dst src (split_on CHR ''.'' path)) fmask dst))"

text \<open>The typed facade transcodes; \<open>to_dyn\<close> and \<open>of_dyn\<close> go through the wire bytes.\<close>

definition mask_update ::
  "('a \<Rightarrow> 'm) \<Rightarrow> ('m \<Rightarrow> 'a) \<Rightarrow> 'm dyn_api \<Rightarrow> field_mask \<Rightarrow> 'a \<Rightarrow> 'a \<Rightarrow> (mask_error + 'a) option" where
  "mask_update to_dyn of_dyn api fmask dst src =
     (case update_dynamic api fmask (to_dyn dst) (to_dyn src) of
        None \<Rightarrow> None
      | Some (Inl e) \<Rightarrow> Some (Inl e)
      | Some (Inr m) \<Rightarrow> Some (Inr (of_dyn m)))"

subsection \<open>Validating\<close>

text \<open>A message descriptor is its full name; \<open>dp_field\<close> resolves a field of it.\<close>

definition next_message :: "descriptor_pool \<Rightarrow> field_descriptor \<Rightarrow> string option" where
  "next_message pool fd =
     (if fd_is_map fd then
        (case kind_message (fd_kind fd) of
           None \<Rightarrow> None
         | Some entry \<Rightarrow> kind_message (dp_entry_value pool entry))
      else kind_message (fd_kind fd))"

fun path_loop :: "descriptor_pool \<Rightarrow> string option \<Rightarrow> string list \<Rightarrow> bool" where
  "path_loop pool current [] = True"
| "path_loop pool current (segment # segments) =
     (case current of
        None \<Rightarrow> False
      | Some msg \<Rightarrow>
          (case dp_field pool msg segment of
             None \<Rightarrow> False
           | Some fd \<Rightarrow> path_loop pool (next_message pool fd) segments))"

definition path_exists :: "descriptor_pool \<Rightarrow> string \<Rightarrow> string \<Rightarrow> bool" where
  "path_exists pool path descriptor = path_loop pool (Some descriptor) (split_on CHR ''.'' path)"

definition mask_validate :: "descriptor_pool \<Rightarrow> field_mask \<Rightarrow> string \<Rightarrow> mask_error + unit" where
  "mask_validate pool fmask descriptor =
     (if list_ex (\<lambda>path. path = WILDCARD_PATH) fmask then
        (if length fmask \<noteq> 1 then Inl WildcardNotAlone else Inr ())
      else
        for_each (\<lambda>path. if \<not> path_exists pool path descriptor
                          then Inl (UnknownPath path descriptor) else Inr ()) fmask)"

subsection \<open>What an update does\<close>

text \<open>Not in a oneof: writing this field leaves the others alone even if it was not populated.\<close>

definition solo :: "'m dyn_api \<Rightarrow> string \<Rightarrow> bool" where
  "solo api f \<longleftrightarrow>
     (\<forall>m g v. g \<noteq> f \<longrightarrow> da_get api (da_set api f v m) g = da_get api m g
        \<and> da_has api (da_set api f v m) g = da_has api m g)"

lemma solo_other:
  assumes "solo api f" and "g \<noteq> f"
  shows "da_get api (da_set api f v m) g = da_get api m g"
    and "da_has api (da_set api f v m) g = da_has api m g"
  using assms unfolding solo_def by blast+

text \<open>Two paths that part: neither lies on the way to the other.\<close>

fun diverges :: "string list \<Rightarrow> string list \<Rightarrow> bool" where
  "diverges (x # xs) (y # ys) \<longleftrightarrow> x \<noteq> y \<or> diverges xs ys"
| "diverges _ _ \<longleftrightarrow> False"

lemma diverges_sym: "diverges xs ys \<longleftrightarrow> diverges ys xs"
  by (induction xs ys rule: diverges.induct) auto

abbreviation path_segments :: "string \<Rightarrow> string list" where
  "path_segments path \<equiv> split_on CHR ''.'' path"

text \<open>The value at a path through singular messages: whether the leaf is present, and what it reads.\<close>

fun value_at :: "'m dyn_api \<Rightarrow> 'm \<Rightarrow> string list \<Rightarrow> (bool \<times> 'm rvalue) option" where
  "value_at api m [] = None"
| "value_at api m (f # rest) =
     (case field_named api m f of
        None \<Rightarrow> None
      | Some fd \<Rightarrow>
          if rest = [] then Some (da_has api m f, da_get api m f)
          else if \<not> is_singular fd then None
          else (case as_message (da_get api m f) of None \<Rightarrow> None | Some s \<Rightarrow> value_at api s rest))"

lemma field_named_name: "da_name api m' = da_name api m \<Longrightarrow> field_named api m' f = field_named api m f"
  by (simp add: field_named_def)

text \<open>What a set field reads as present: setting a present value of the source makes it present.\<close>

definition presence_kept :: "'m dyn_api \<Rightarrow> bool" where
  "presence_kept api \<longleftrightarrow>
     (\<forall>m m' f. da_has api m f \<longrightarrow> da_has api (da_set api f (da_get api m f) m') f)"

lemma value_at_other:
  assumes "da_name api m' = da_name api m" and "da_get api m' g = da_get api m g" and "da_has api m' g = da_has api m g"
  shows "value_at api m' (g # rest) = value_at api m (g # rest)"
  using assms by (simp add: field_named_name [OF assms(1)] split: option.split)

lemma update_named_field_spec:
  assumes laws: "message_laws api" and pres: "presence_kept api"
  shows "value_at api src segs = Some (h, v) \<Longrightarrow> value_at api dst segs \<noteq> None \<Longrightarrow> \<forall>f \<in> set segs. solo api f \<Longrightarrow>
     \<exists>dst'. update_named_field api dst src segs = Some dst' \<and> da_name api dst' = da_name api dst
       \<and> (\<exists>v'. value_at api dst' segs = Some (h, v') \<and> (h \<longrightarrow> v' = v))
       \<and> (\<forall>q. diverges segs q \<longrightarrow> value_at api dst' q = value_at api dst q)"
proof (induction segs arbitrary: dst src)
  case (Cons f rest)
  obtain fd where fd: "field_named api src f = Some fd" using Cons.prems(1) by (auto split: option.splits)
  obtain fd' where fd': "field_named api dst f = Some fd'" using Cons.prems(2) by (auto split: option.splits)
  have solo: "solo api f" using Cons.prems(3) by simp
  show ?case
  proof (cases "rest = []")
    case True
    have frame: "value_at api m q = value_at api dst q"
      if "da_name api m = da_name api dst" "diverges (f # rest) q"
        "\<And>g. g \<noteq> f \<Longrightarrow> da_get api m g = da_get api dst g \<and> da_has api m g = da_has api dst g" for m q
      using that True by (cases q) (auto simp del: value_at.simps intro!: value_at_other)
    show ?thesis
    proof (cases "da_has api src f")
      case has: True
      let ?d = "da_set api f (da_get api src f) dst"
      have "da_has api ?d f" using pres has unfolding presence_kept_def by blast
      moreover have "value_at api ?d q = value_at api dst q" if "diverges (f # rest) q" for q
        using frame [OF _ that] laws_name_set [OF laws] solo_other [OF solo] by blast
      ultimately show ?thesis
        using Cons.prems True fd fd' has laws_get_set [OF laws] laws_name_set [OF laws]
        by (intro exI [of _ ?d]) (auto simp: field_named_name [of api ?d dst])
    next
      case False
      let ?d = "da_clear api f dst"
      have "\<not> da_has api ?d f" using laws_cleared [OF laws] by (auto simp: populated_def)
      moreover have "value_at api ?d q = value_at api dst q" if "diverges (f # rest) q" for q
        using frame [OF _ that] laws_name_clear [OF laws] laws_clear_other [OF laws] by blast
      ultimately show ?thesis
        using Cons.prems True fd fd' False laws_name_clear [OF laws]
        by (intro exI [of _ ?d]) (auto simp: field_named_name [of api ?d dst])
    qed
  next
    case False
    from Cons.prems(1) False fd obtain s where s: "is_singular fd" "da_get api src f = V_Message s"
        "value_at api s rest = Some (h, v)"
      by (auto split: option.splits if_splits)
    from Cons.prems(2) False fd' obtain d where d: "is_singular fd'" "da_get api dst f = V_Message d"
        "value_at api d rest \<noteq> None"
      by (auto split: option.splits if_splits)
    from Cons.IH [OF s(3) d(3)] Cons.prems(3) obtain d' v' where d': "update_named_field api d s rest = Some d'"
        "value_at api d' rest = Some (h, v')" "h \<longrightarrow> v' = v"
        "\<forall>q. diverges rest q \<longrightarrow> value_at api d' q = value_at api d q" by auto
    let ?d = "da_set api f (V_Message d') dst"
    have name: "da_name api ?d = da_name api dst" by (rule laws_name_set [OF laws])
    have "update_named_field api dst src (f # rest) = Some ?d"
      using fd s d(2) d'(1) False by (simp add: is_singular_def as_message_def)
    moreover have inside: "value_at api ?d (f # q) = value_at api d' q" "value_at api dst (f # q) = value_at api d q"
      if "q \<noteq> []" for q
      using fd' d(1,2) that laws_get_set [OF laws] by (simp_all add: field_named_name [OF name] as_message_def)
    have "value_at api ?d q = value_at api dst q" if "diverges (f # rest) q" for q
    proof (cases q)
      case (Cons g q')
      show ?thesis
      proof (cases "g = f")
        case True
        with that Cons have "diverges rest q'" "q' \<noteq> []" by (auto elim: diverges.elims)
        with Cons True inside d'(4) show ?thesis by simp
      next
        case False
        with Cons show ?thesis by (simp only:) (rule value_at_other [OF name solo_other [OF solo False]])
      qed
    qed (use that in simp)
    ultimately show ?thesis using d'(2,3) name inside(1) [OF False] by (intro exI [of _ ?d]) auto
  qed
qed simp

text \<open>A list of paths one after the other, those done before in \<open>before\<close>.\<close>

lemma update_paths_spec:
  assumes laws: "message_laws api" and pres: "presence_kept api"
  shows "(\<forall>p \<in> set paths. value_at api src (path_segments p) \<noteq> None \<and> value_at api dst (path_segments p) \<noteq> None
            \<and> (\<forall>f \<in> set (path_segments p). solo api f)) \<Longrightarrow>
    (\<forall>p \<in> set paths. \<forall>q \<in> set paths. p = q \<or> diverges (path_segments p) (path_segments q)) \<Longrightarrow>
    \<exists>dst'. fold_option (\<lambda>path dst. update_named_field api dst src (path_segments path)) paths dst = Some dst'
      \<and> (\<forall>p \<in> set paths. \<forall>h v. value_at api src (path_segments p) = Some (h, v) \<longrightarrow>
            (\<exists>v'. value_at api dst' (path_segments p) = Some (h, v') \<and> (h \<longrightarrow> v' = v)))
      \<and> (\<forall>q. (\<forall>p \<in> set paths. diverges (path_segments p) q) \<longrightarrow> value_at api dst' q = value_at api dst q)"
proof (induction paths arbitrary: dst)
  case (Cons p paths)
  obtain h v where src: "value_at api src (path_segments p) = Some (h, v)"
    using Cons.prems(1) by (cases "value_at api src (path_segments p)") auto
  have "value_at api dst (path_segments p) \<noteq> None" "\<forall>f \<in> set (path_segments p). solo api f"
    using Cons.prems(1) by simp_all
  from update_named_field_spec [OF laws pres src this] obtain d v' where
    d: "update_named_field api dst src (path_segments p) = Some d"
      "value_at api d (path_segments p) = Some (h, v')" "h \<longrightarrow> v' = v"
      "\<forall>q. diverges (path_segments p) q \<longrightarrow> value_at api d q = value_at api dst q" by blast
  have resolves: "value_at api d (path_segments q) \<noteq> None" if "q \<in> set paths" for q
    using Cons.prems that d(2,4) by (cases "q = p") auto
  obtain dst' where dst': "fold_option (\<lambda>path dst. update_named_field api dst src (path_segments path)) paths d = Some dst'"
      "\<forall>p \<in> set paths. \<forall>h v. value_at api src (path_segments p) = Some (h, v) \<longrightarrow>
            (\<exists>v'. value_at api dst' (path_segments p) = Some (h, v') \<and> (h \<longrightarrow> v' = v))"
      "\<forall>q. (\<forall>p \<in> set paths. diverges (path_segments p) q) \<longrightarrow> value_at api dst' q = value_at api d q"
    using Cons.IH [of d] Cons.prems resolves by auto
  have "\<exists>v'. value_at api dst' (path_segments p) = Some (h, v') \<and> (h \<longrightarrow> v' = v)"
  proof (cases "p \<in> set paths")
    case True
    with dst'(2) src show ?thesis by blast
  next
    case False
    then have "\<forall>q \<in> set paths. diverges (path_segments q) (path_segments p)" using Cons.prems(2) by auto
    with dst'(3) d(2,3) show ?thesis by simp
  qed
  with d(1,4) dst' src show ?case by (intro exI [of _ dst']) auto
qed simp

text \<open>C22: A masked update copies what the mask names and nothing else. For a mask of paths that resolve
  through singular messages in both messages, none on the way to another and no field on them in a oneof,
  the update does not panic; at each of its paths the updated message reads what the source reads,
  presence included (an absent source clears it); and every path that parts from all of them, at the top
  or inside the messages they lead through, reads as before. The mask \<open>*\<close> replaces the message, and
  different types are refused.\<close>

theorem masked_update_copies_path:
  assumes "message_laws api" and "presence_kept api"
    and "da_name api dst = da_name api src" and "fmask \<noteq> []" and "''*'' \<notin> set fmask"
    and "\<forall>p \<in> set fmask. value_at api src (path_segments p) \<noteq> None \<and> value_at api dst (path_segments p) \<noteq> None
            \<and> (\<forall>f \<in> set (path_segments p). solo api f)"
    and "\<forall>p \<in> set fmask. \<forall>q \<in> set fmask. p = q \<or> diverges (path_segments p) (path_segments q)"
  shows "(\<exists>dst'. update_dynamic api fmask dst src = Some (Inr dst')
            \<and> (\<forall>p \<in> set fmask. \<forall>h v. value_at api src (path_segments p) = Some (h, v) \<longrightarrow>
                 (\<exists>v'. value_at api dst' (path_segments p) = Some (h, v') \<and> (h \<longrightarrow> v' = v)))
            \<and> (\<forall>q. (\<forall>p \<in> set fmask. diverges (path_segments p) q) \<longrightarrow> value_at api dst' q = value_at api dst q))
    \<and> update_dynamic api [''*''] dst src = Some (Inr src)
    \<and> (da_name api other \<noteq> da_name api src \<longrightarrow>
         update_dynamic api fmask other src = Some (Inl (MaskTypeMismatch (da_name api other) (da_name api src))))"
proof -
  from update_paths_spec [OF assms(1,2,6,7)] obtain dst' where d:
    "fold_option (\<lambda>path dst. update_named_field api dst src (path_segments path)) fmask dst = Some dst'"
    "\<forall>p \<in> set fmask. \<forall>h v. value_at api src (path_segments p) = Some (h, v) \<longrightarrow>
       (\<exists>v'. value_at api dst' (path_segments p) = Some (h, v') \<and> (h \<longrightarrow> v' = v))"
    "\<forall>q. (\<forall>p \<in> set fmask. diverges (path_segments p) q) \<longrightarrow> value_at api dst' q = value_at api dst q"
    by blast
  have "\<not> is_full_replacement fmask"
    using assms(5) by (cases fmask) (auto simp: is_full_replacement_def WILDCARD_PATH_def)
  with assms(3,4) d(1) have "update_dynamic api fmask dst src = Some (Inr dst')" by (simp add: update_dynamic_def)
  moreover have "update_dynamic api [''*''] dst src = Some (Inr src)"
    using assms(3) by (simp add: update_dynamic_def is_full_replacement_def WILDCARD_PATH_def)
  moreover have "da_name api other \<noteq> da_name api src \<longrightarrow>
         update_dynamic api fmask other src = Some (Inl (MaskTypeMismatch (da_name api other) (da_name api src)))"
    by (simp add: update_dynamic_def)
  ultimately show ?thesis using d(2,3) by blast
qed

theorem masked_update_copies_path_witness:
  "\<exists>dst'. update_dynamic demo_api [''s.a''] (Tree ''M'' [(''r'', V_String ''y'')]) demo_message = Some (Inr dst')
     \<and> value_at demo_api dst' [''s'', ''a''] = Some (True, V_String ''x'')
     \<and> value_at demo_api dst' [''s'', ''r''] = Some (False, V_Bool False)
     \<and> value_at demo_api dst' [''r''] = Some (True, V_String ''y'')"
proof -
  let ?dst = "Tree ''M'' [(''r'', V_String ''y'')]"
  have solo: "solo demo_api f" for f
    unfolding solo_def demo_sel by (simp add: demo_api_def tree_other_field)
  have kept: "presence_kept demo_api"
    unfolding presence_kept_def demo_sel by (simp add: demo_api_def tree_set_present)
  have path: "path_segments ''s.a'' = [''s'', ''a'']" by simp
  have named: "field_named demo_api m f = map_of (demo_fields ''M'') f" for m f
    by (simp add: field_named_def demo_api_def tree_api_def da_name_def demo_fields_def)
  have src: "value_at demo_api demo_message [''s'', ''a''] = Some (True, V_String ''x'')"
    by (simp add: named demo_fields_def is_singular_def is_message_kind_def as_message_def demo_message_def
        demo_inner_def tree_get_def)
  have dst: "value_at demo_api ?dst [''s'', ''a''] \<noteq> None" "value_at demo_api ?dst [''s'', ''r''] = Some (False, V_Bool False)"
    "value_at demo_api ?dst [''r''] = Some (True, V_String ''y'')"
    by (simp_all add: named demo_fields_def is_singular_def is_message_kind_def as_message_def kind_message_def
        tree_get_def tree_default_def)
  have name: "da_name demo_api ?dst = da_name demo_api demo_message" by (simp add: demo_message_def)
  have "\<forall>p \<in> set [''s.a'']. value_at demo_api demo_message (path_segments p) \<noteq> None
      \<and> value_at demo_api ?dst (path_segments p) \<noteq> None \<and> (\<forall>f \<in> set (path_segments p). solo demo_api f)"
    using src dst(1) solo path by simp
  from masked_update_copies_path [OF demo_laws kept name _ _ this] obtain dst' where
    d: "update_dynamic demo_api [''s.a''] ?dst demo_message = Some (Inr dst')"
    "\<exists>v'. value_at demo_api dst' [''s'', ''a''] = Some (True, v') \<and> v' = V_String ''x''"
    "\<forall>q. diverges [''s'', ''a''] q \<longrightarrow> value_at demo_api dst' q = value_at demo_api ?dst q"
    using src path by fastforce
  have "diverges [''s'', ''a''] [''s'', ''r'']" "diverges [''s'', ''a''] [''r'']" by simp_all
  with d(3) have parts: "value_at demo_api dst' [''s'', ''r''] = value_at demo_api ?dst [''s'', ''r'']"
      "value_at demo_api dst' [''r''] = value_at demo_api ?dst [''r'']"
    by blast+
  from d(2) have "value_at demo_api dst' [''s'', ''a''] = Some (True, V_String ''x'')" by blast
  with parts dst(2,3) show ?thesis using d(1) by metis
qed

end
