(* ===== verification/Ordering.thy ===== *)
theory Ordering
  imports Field_Mask
begin

text \<open>
  \<open>crates/aip-ordering/src/lib.rs\<close>: parsing an \<open>order_by\<close> and validating its paths.
\<close>

datatype order_error = Syntax string | UnknownField string

record order_by_field =
  ob_path :: string
  ob_desc :: bool

type_synonym order_by = "order_by_field list"

definition sub_fields :: "order_by_field \<Rightarrow> string list" where
  "sub_fields f = (if ob_path f = [] then [] else split_on CHR ''.'' (ob_path f))"

text \<open>\<open>c.escape_debug()\<close> of a \<open>char\<close>; unlike in a string, a single quote is escaped too.\<close>

definition char_escape_debug :: "unicode_tables \<Rightarrow> nat \<Rightarrow> string" where
  "char_escape_debug u c = (if c = 39 then [CHR 0x5C, CHR 0x27] else escape_debug u c)"

definition order_char :: "nat \<Rightarrow> bool" where
  "order_char c \<longleftrightarrow>
     (65 \<le> c \<and> c \<le> 90) \<or> (97 \<le> c \<and> c \<le> 122) \<or> (48 \<le> c \<and> c \<le> 57)
     \<or> c = 95 \<or> c = 32 \<or> c = 44 \<or> c = 46"

text \<open>\<open>split_whitespace\<close>, for the ASCII text that passed the character check.\<close>

fun split_whitespace_loop :: "string \<Rightarrow> string \<Rightarrow> string list" where
  "split_whitespace_loop word [] = (if word = [] then [] else [word])"
| "split_whitespace_loop word (c # cs) =
     (if byte c < 128 \<and> is_whitespace (byte c)
      then (if word = [] then split_whitespace_loop [] cs else word # split_whitespace_loop [] cs)
      else split_whitespace_loop (word @ [c]) cs)"

definition split_whitespace :: "string \<Rightarrow> string list" where
  "split_whitespace s = split_whitespace_loop [] s"

definition validate_path_segments :: "string \<Rightarrow> order_error + unit" where
  "validate_path_segments path =
     (if list_ex (\<lambda>seg. seg = []) (split_on CHR ''.'' path)
      then Inl (Syntax (''invalid path: '' @ [CHR 0x27] @ path @ [CHR 0x27])) else Inr ())"

definition order_field :: "string \<Rightarrow> order_error + order_by_field" where
  "order_field raw =
     (let invalid = Inl (Syntax (''invalid format for '' @ [CHR 0x27] @ raw @ [CHR 0x27])) in
      case split_whitespace raw of
        [] \<Rightarrow> invalid
      | path # rest \<Rightarrow>
          res_bind (validate_path_segments path) (\<lambda>_.
            case rest of
              [] \<Rightarrow> Inr \<lparr>ob_path = path, ob_desc = False\<rparr>
            | [dir] \<Rightarrow>
                if dir = ''asc'' then Inr \<lparr>ob_path = path, ob_desc = False\<rparr>
                else if dir = ''desc'' then Inr \<lparr>ob_path = path, ob_desc = True\<rparr>
                else invalid
            | _ \<Rightarrow> invalid))"

definition order_by_parse :: "unicode_tables \<Rightarrow> string \<Rightarrow> order_error + order_by" where
  "order_by_parse u s =
     (if s = [] then Inr []
      else
        (case find (\<lambda>c. \<not> order_char c) (chars s) of
           Some c \<Rightarrow>
             Inl (Syntax (''invalid order_by '' @ [CHR 0x27] @ s @ [CHR 0x27] @ '': invalid character ''
                          @ char_escape_debug u c))
         | None \<Rightarrow> try_map order_field (split_on CHR '','' s)))"

definition validate_for_paths :: "string list \<Rightarrow> order_by \<Rightarrow> order_error + unit" where
  "validate_for_paths allowed fs =
     for_each (\<lambda>f. if ob_path f \<notin> set allowed then Inl (UnknownField (ob_path f)) else Inr ()) fs"

definition validate_for_message ::
  "unicode_tables \<Rightarrow> descriptor_pool \<Rightarrow> string \<Rightarrow> order_by \<Rightarrow> order_error + unit" where
  "validate_for_message u pool descriptor fs =
     map_err (\<lambda>err. case err of
         UnknownPath path _ \<Rightarrow> UnknownField path
       | other \<Rightarrow> Syntax (mask_error_display u other))
       (mask_validate pool (map ob_path fs) descriptor)"

text \<open>\<open>parse(request)\<close> reads the request's \<open>order_by\<close>.\<close>

definition order_request_parse :: "unicode_tables \<Rightarrow> ('q \<Rightarrow> string) \<Rightarrow> 'q \<Rightarrow> order_error + order_by" where
  "order_request_parse u order_by_of request = order_by_parse u (order_by_of request)"

fun order_error_display :: "order_error \<Rightarrow> string" where
  "order_error_display (Syntax detail) = ''invalid order_by syntax: '' @ detail"
| "order_error_display (UnknownField field) = ''unknown order_by field: '' @ field"

fun order_error_reason :: "order_error \<Rightarrow> string \<times> (string \<times> string) list \<times> (string \<times> string) list" where
  "order_error_reason (Syntax detail) = (''ORDER_BY_SYNTAX'', [(''detail'', detail)], [])"
| "order_error_reason (UnknownField field) =
     (''ORDER_BY_UNKNOWN_FIELD'', [(''field'', field)], [(field, ''unknown order_by field'')])"

definition order_status :: "order_error \<Rightarrow> status" where
  "order_status err =
     (case order_error_reason err of (reason, metadata, violations) \<Rightarrow>
        detailed_status Code_InvalidArgument (order_error_display err) reason metadata violations)"

interpretation order_err: detailed_mapping order_status
  by unfold_locales (auto simp: order_status_def split: prod.splits)

subsection \<open>What is parsed, and what validation says of it\<close>

definition path_char :: "char \<Rightarrow> bool" where
  "path_char c \<longleftrightarrow> order_char (byte c) \<and> c \<noteq> CHR '' '' \<and> c \<noteq> CHR '',''"

definition order_path :: "string \<Rightarrow> bool" where
  "order_path p \<longleftrightarrow> list_all path_char p \<and> [] \<notin> set (split_on CHR ''.'' p)"

lemma order_path_not_wildcard: "order_path p \<Longrightarrow> p \<noteq> WILDCARD_PATH"
  by (auto simp: order_path_def path_char_def order_char_def WILDCARD_PATH_def)

lemma order_chars_ascii: "list_all order_char cs \<Longrightarrow> list_all (\<lambda>c. c < 128) cs"
  by (auto simp: list_all_iff order_char_def)

lemma split_whitespace_loop_chars:
  assumes "w \<in> set (split_whitespace_loop word s)" and "\<And>c. c \<in> set word \<Longrightarrow> c \<noteq> CHR '' ''"
    and "c \<in> set w"
  shows "c \<in> set word \<union> set s \<and> c \<noteq> CHR '' ''"
  using assms(1,2)
proof (induction s arbitrary: word)
  case (Cons d s)
  show ?case
  proof (cases "byte d < 128 \<and> is_whitespace (byte d)")
    case True
    with Cons.prems show ?thesis
      using Cons.IH [of "[]"] assms(3) by (auto split: if_splits)
  next
    case False
    then have "d \<noteq> CHR '' ''" by (auto simp: is_whitespace_def)
    with Cons.prems False show ?thesis using Cons.IH [of "word @ [d]"] by auto
  qed
qed (auto split: if_splits simp: assms(3))

lemma split_whitespace_chars:
  "w \<in> set (split_whitespace s) \<Longrightarrow> c \<in> set w \<Longrightarrow> c \<in> set s \<and> c \<noteq> CHR '' ''"
  unfolding split_whitespace_def by (drule split_whitespace_loop_chars [where c = c]) auto

lemma validate_path_segments_Inr: "validate_path_segments p = Inr () \<longleftrightarrow> [] \<notin> set (split_on CHR ''.'' p)"
  by (auto simp: validate_path_segments_def list_ex_iff)

lemma order_field_path:
  "order_field raw = Inr f \<Longrightarrow>
     ob_path f \<in> set (split_whitespace raw) \<and> [] \<notin> set (split_on CHR ''.'' (ob_path f))"
  by (auto simp: order_field_def Let_def res_bind_Inr_iff validate_path_segments_Inr
      split: list.splits if_splits)

lemma rust_str_bytes: "ascii s \<Longrightarrow> rust_str (map byte s) = s"
  by (induction s) (simp_all add: rust_str_def encode_char_ascii)

lemma try_map_source: "try_map f xs = Inr ys \<Longrightarrow> y \<in> set ys \<Longrightarrow> \<exists>x \<in> set xs. f x = Inr y"
  by (induction xs arbitrary: ys) (auto split: sum.splits)

lemma order_by_parse_paths:
  assumes cs: "list_all is_scalar cs" and parsed: "order_by_parse u (rust_str cs) = Inr fs"
  shows "\<forall>f \<in> set fs. order_path (ob_path f)"
proof (cases "rust_str cs = []")
  case True
  with parsed show ?thesis by (simp add: order_by_parse_def)
next
  case False
  then have none: "find (\<lambda>c. \<not> order_char c) cs = None"
    and tm: "try_map order_field (split_on CHR '','' (rust_str cs)) = Inr fs"
    using parsed by (auto simp: order_by_parse_def chars_rust_str [OF cs] split: option.splits)
  from none have ok: "list_all order_char cs" by (auto simp: find_None_iff list_all_iff)
  then have s: "rust_str cs = map char_of cs" using order_chars_ascii rust_str_ascii by blast
  have bytes: "order_char (byte c)" if "c \<in> set (rust_str cs)" for c
  proof -
    from that obtain n where n: "n \<in> set cs" "c = char_of n" unfolding s by auto
    then have "order_char n" "n < 256" using ok order_chars_ascii [OF ok] by (auto simp: list_all_iff)
    then show ?thesis using n(2) by simp
  qed
  show ?thesis
  proof
    fix f assume "f \<in> set fs"
    from try_map_source [OF tm this] obtain raw
      where raw: "raw \<in> set (split_on CHR '','' (rust_str cs))" "order_field raw = Inr f" ..
    have "path_char c" if "c \<in> set (ob_path f)" for c
    proof -
      have "c \<in> set raw \<and> c \<noteq> CHR '' ''"
        using conjunct1 [OF order_field_path [OF raw(2)]] that by (rule split_whitespace_chars)
      moreover have "set raw \<subseteq> set (rust_str cs)" "CHR '','' \<notin> set raw"
        using raw(1) split_on_chars split_on_no_delim by auto
      ultimately show ?thesis using bytes by (auto simp: path_char_def)
    qed
    then show "order_path (ob_path f)"
      using order_field_path [OF raw(2)] by (simp add: order_path_def list_all_iff)
  qed
qed

lemma for_each_first:
  "for_each (\<lambda>x. if P x then Inl (e x) else Inr ()) xs
     = (case find P xs of None \<Rightarrow> Inr () | Some x \<Rightarrow> Inl (e x))"
  by (induction xs) auto

lemma find_map: "find P (map f xs) = map_option f (find (P \<circ> f) xs)"
  by (induction xs) auto

text \<open>C37: What parses is what validation expects. Every path of a parsed \<open>order_by\<close> is made of non-empty
  segments of letters, digits and underscores (so it is never the wildcard), and validating it
  against a message or an allow-list accepts exactly when every path resolves or is listed, and
  otherwise reports the first path that does not as the unknown field; it never reports a syntax
  error, the two arms the code keeps defensively.\<close>

theorem parsed_order_by_validates:
  assumes "list_all is_scalar cs" and "order_by_parse u (rust_str cs) = Inr fs"
  shows "(\<forall>f \<in> set fs. order_path (ob_path f))
    \<and> validate_for_message u pool descriptor fs
        = (case find (\<lambda>f. \<not> path_exists pool (ob_path f) descriptor) fs of
             None \<Rightarrow> Inr () | Some f \<Rightarrow> Inl (UnknownField (ob_path f)))
    \<and> validate_for_paths allowed fs
        = (case find (\<lambda>f. ob_path f \<notin> set allowed) fs of
             None \<Rightarrow> Inr () | Some f \<Rightarrow> Inl (UnknownField (ob_path f)))"
proof -
  have paths: "\<forall>f \<in> set fs. order_path (ob_path f)" using order_by_parse_paths [OF assms] .
  then have "\<not> list_ex (\<lambda>p. p = WILDCARD_PATH) (map ob_path fs)"
    using order_path_not_wildcard unfolding list_ex_iff by fastforce
  then have "validate_for_message u pool descriptor fs
        = (case find (\<lambda>f. \<not> path_exists pool (ob_path f) descriptor) fs of
             None \<Rightarrow> Inr () | Some f \<Rightarrow> Inl (UnknownField (ob_path f)))"
    by (simp add: validate_for_message_def mask_validate_def for_each_first find_map comp_def
        split: option.split)
  then show ?thesis using paths by (simp add: validate_for_paths_def for_each_first)
qed

theorem parsed_order_by_validates_witness:
  "order_path ''author.name'' \<and> order_path ''title''
     \<and> validate_for_paths [''title''] [\<lparr>ob_path = ''author.name'', ob_desc = True\<rparr>, \<lparr>ob_path = ''title'', ob_desc = False\<rparr>]
         = Inl (UnknownField ''author.name'')"
proof -
  let ?s = "''author.name desc, title''"
  let ?fs = "[\<lparr>ob_path = ''author.name'', ob_desc = True\<rparr>, \<lparr>ob_path = ''title'', ob_desc = False\<rparr>]"
  have scalar: "list_all is_scalar (map byte ?s)" by (simp add: is_scalar_def)
  have str: "rust_str (map byte ?s) = ?s" by (rule rust_str_bytes) simp
  have "order_by_parse u ?s = Inr ?fs" for u
    by (simp add: order_by_parse_def chars_ascii order_char_def order_field_def split_whitespace_def
        is_whitespace_def validate_path_segments_def)
  then show ?thesis
    using parsed_order_by_validates [OF scalar, of undefined ?fs undefined undefined "[''title'']"]
    unfolding str by simp
qed

end
