(* ===== verification/Sql_Timestamp.thy ===== *)
theory Sql_Timestamp
  imports Prelude
begin

text \<open>
  \<open>crates/aip-sql/src/timestamp.rs\<close>: the RFC 3339 text a timestamp is stored and compared as. The
  \<open>i64\<close> arithmetic stays far from its bounds (the largest product is below \<open>2 ^ 50\<close>), so it is over
  \<open>int\<close>; \<open>div_euclid\<close> by a positive number is \<open>div\<close>.
\<close>

record timestamp =
  ts_seconds :: int
  ts_nanos :: int

definition zero_pad :: "nat \<Rightarrow> int \<Rightarrow> string" where
  "zero_pad w n = replicate (w - length (show_nat (nat n))) CHR ''0'' @ show_nat (nat n)"

text \<open>The year, month and day of a day number (0 is 1970-01-01).\<close>

definition year_of_era :: "int \<Rightarrow> int" where
  "year_of_era doe = (doe - doe div 1460 + doe div 36524 - doe div 146096) div 365"

definition date_of :: "int \<Rightarrow> int \<Rightarrow> int \<times> int \<times> int" where
  "date_of y doy =
     (let mp = (5 * doy + 2) div 153;
          day = doy - (153 * mp + 2) div 5 + 1;
          month = (if mp < 10 then mp + 3 else mp - 9)
      in (y + (if month \<le> 2 then 1 else 0), month, day))"

definition civil_from_days :: "int \<Rightarrow> int \<times> int \<times> int" where
  "civil_from_days days =
     (let z = days + 719468;
          era = z div 146097;
          doe = z - era * 146097;
          yoe = year_of_era doe;
          doy = doe - (365 * yoe + yoe div 4 - yoe div 100)
      in date_of (yoe + era * 400) doy)"

definition format_timestamp :: "timestamp \<Rightarrow> string" where
  "format_timestamp ts =
     (let secs = max (ts_seconds ts) 0;
          days = secs div 86400;
          tod = secs mod 86400;
          hour = tod div 3600; minute = (tod mod 3600) div 60; second = tod mod 60;
          (year, month, day) = civil_from_days days
      in zero_pad 4 year @ ''-'' @ zero_pad 2 month @ ''-'' @ zero_pad 2 day @ ''T''
         @ zero_pad 2 hour @ '':'' @ zero_pad 2 minute @ '':'' @ zero_pad 2 second @ ''Z'')"

subsection \<open>The calendar\<close>

definition leap_year :: "int \<Rightarrow> bool" where
  "leap_year y \<longleftrightarrow> y mod 4 = 0 \<and> (y mod 100 \<noteq> 0 \<or> y mod 400 = 0)"

definition days_in_month :: "int \<Rightarrow> int \<Rightarrow> int" where
  "days_in_month y m =
     (if m = 2 then (if leap_year y then 29 else 28) else if m \<in> {4, 6, 9, 11} then 30 else 31)"

text \<open>The day after a date in the Gregorian calendar.\<close>

fun next_date :: "int \<times> int \<times> int \<Rightarrow> int \<times> int \<times> int" where
  "next_date (y, m, d) =
     (if d < days_in_month y m then (y, m, d + 1) else if m < 12 then (y, m + 1, 1) else (y + 1, 1, 1))"

text \<open>The day number, from 0000-03-01, on which the year that begins in March starts.\<close>

definition year_start :: "int \<Rightarrow> int" where
  "year_start y = 365 * y + y div 4 - y div 100 + y div 400"

definition elapsed :: "int \<Rightarrow> int" where
  "elapsed doe = doe - doe div 1460 + doe div 36524 - doe div 146096"

lemma quarter: "c' = c \<or> c' = c + 1 \<Longrightarrow> c' div 4 - c div 4 \<le> c' - (c::int)"
  by presburger

lemma elapsed_step: "elapsed a \<le> elapsed (a + 1)"
proof -
  have four: "b div 146096 = b div 36524 div 4" for b :: int
    using zdiv_zmult2_eq [of 4 b 36524] by simp
  have "(a + 1) div 36524 = a div 36524 \<or> (a + 1) div 36524 = a div 36524 + 1" by auto
  then have "(a + 1) div 36524 - a div 36524 \<ge> (a + 1) div 36524 div 4 - a div 36524 div 4"
    by (rule quarter)
  moreover have "(a + 1) div 1460 \<le> a div 1460 + 1" by simp
  ultimately show ?thesis unfolding elapsed_def four by linarith
qed

lemma elapsed_mono: "a \<le> b \<Longrightarrow> elapsed a \<le> elapsed b"
proof (induction b rule: int_ge_induct)
  case (step b)
  with elapsed_step [of b] show ?case by simp
qed simp

definition year_bounds_ok :: "int \<Rightarrow> bool" where
  "year_bounds_ok y \<longleftrightarrow> 365 * y \<le> elapsed (year_start y) \<and> elapsed (year_start (y + 1) - 1) < 365 * (y + 1)"

lemma year_bounds_checked: "list_all year_bounds_ok [0..399]"
  by code_simp

lemma year_bounds: "0 \<le> y \<Longrightarrow> y < 400 \<Longrightarrow> year_bounds_ok y"
  using year_bounds_checked by (simp add: list_all_iff)

lemma year_of_era_elapsed: "year_of_era doe = elapsed doe div 365"
  by (simp add: year_of_era_def elapsed_def)

lemma era_year:
  assumes "0 \<le> doe" and "doe < 146097"
  shows "0 \<le> year_of_era doe" and "year_of_era doe < 400"
    and "year_start (year_of_era doe) \<le> doe" and "doe < year_start (year_of_era doe + 1)"
proof -
  let ?y = "year_of_era doe"
  have "0 \<le> elapsed doe" using elapsed_mono [of 0 doe] assms(1) by (simp add: elapsed_def)
  moreover have "elapsed doe \<le> 145999" using elapsed_mono [of doe 146096] assms(2) by (simp add: elapsed_def)
  ultimately show y: "0 \<le> ?y" "?y < 400" by (simp_all add: year_of_era_elapsed)
  have within: "365 * ?y \<le> elapsed doe" "elapsed doe < 365 * (?y + 1)"
    unfolding year_of_era_elapsed by simp_all
  show "year_start ?y \<le> doe"
  proof (rule ccontr)
    assume "\<not> year_start ?y \<le> doe"
    moreover from this assms(1) have "?y \<noteq> 0" by (auto simp: year_start_def)
    ultimately have "elapsed doe \<le> elapsed (year_start (?y - 1 + 1) - 1)" "year_bounds_ok (?y - 1)"
      using y by (simp_all add: elapsed_mono year_bounds)
    with within show False by (simp add: year_bounds_ok_def)
  qed
  show "doe < year_start (?y + 1)"
  proof (rule ccontr)
    assume not: "\<not> doe < year_start (?y + 1)"
    have "?y \<noteq> 399" using not assms(2) by (auto simp: year_start_def)
    with y have "year_bounds_ok (?y + 1)" by (intro year_bounds) auto
    moreover have "elapsed (year_start (?y + 1)) \<le> elapsed doe" using not by (intro elapsed_mono) simp
    ultimately show False using within by (simp add: year_bounds_ok_def)
  qed
qed

definition year_length :: "int \<Rightarrow> int" where
  "year_length y = (if leap_year (y + 1) then 366 else 365)"

lemma div_step: "k > 0 \<Longrightarrow> (a + 1) div k = a div k + (if (a + 1) mod k = 0 then 1 else (0::int))"
proof -
  assume k: "k > 0"
  have a: "a = k * (a div k) + a mod k" by simp
  have r: "0 \<le> a mod k" "a mod k < k" using k by simp_all
  show ?thesis
  proof (cases "a mod k + 1 = k")
    case True
    have e: "a + 1 = k * (a div k + 1) + 0"
      using a True distrib_left [of k "a div k" 1] by linarith
    have "(a + 1) div k = a div k + 1" using k by (intro int_div_pos_eq [OF e]) simp_all
    moreover have "(a + 1) mod k = 0" using k by (intro int_mod_pos_eq [OF e]) simp_all
    ultimately show ?thesis by simp
  next
    case False
    have e: "a + 1 = k * (a div k) + (a mod k + 1)" using a by linarith
    have "(a + 1) div k = a div k" using r False by (intro int_div_pos_eq [OF e]) linarith+
    moreover have "(a + 1) mod k = a mod k + 1" using r False by (intro int_mod_pos_eq [OF e]) linarith+
    ultimately show ?thesis using r(1) by simp
  qed
qed

lemma mod_chain: "a mod (m * k) = 0 \<Longrightarrow> a mod k = (0::int)"
  by auto

lemma leap_sum:
  "(P400 \<longrightarrow> P100) \<Longrightarrow> (P100 \<longrightarrow> P4) \<Longrightarrow>
   365 * (y + 1) + (a + (if P4 then 1 else 0)) - (b + (if P100 then 1 else 0)) + (c + (if P400 then 1 else 0))
     = (365 * y + a - b + c) + (if P4 \<and> (\<not> P100 \<or> P400) then 366 else (365::int))"
  by (cases P4; cases P100; cases P400) simp_all

lemma year_start_Suc: "year_start (y + 1) = year_start y + year_length y"
proof -
  have chain: "(y + 1) mod 400 = 0 \<longrightarrow> (y + 1) mod 100 = 0" "(y + 1) mod 100 = 0 \<longrightarrow> (y + 1) mod 4 = 0"
    using mod_chain [of "y + 1" 4 100] mod_chain [of "y + 1" 25 4] by simp_all
  have steps: "(y + 1) div 4 = y div 4 + (if (y + 1) mod 4 = 0 then 1 else 0)"
    "(y + 1) div 100 = y div 100 + (if (y + 1) mod 100 = 0 then 1 else 0)"
    "(y + 1) div 400 = y div 400 + (if (y + 1) mod 400 = 0 then 1 else 0)"
    by (rule div_step, simp)+
  show ?thesis
    unfolding year_start_def year_length_def leap_year_def steps by (rule leap_sum [OF chain])
qed

lemma year_start_mono: "a \<le> b \<Longrightarrow> year_start a \<le> year_start b"
proof (induction b rule: int_ge_induct)
  case (step b)
  then show ?case by (simp add: year_start_Suc year_length_def)
qed simp

lemma year_start_era: "year_start (y + e * 400) = year_start y + e * 146097"
proof -
  have "(y + e * 400) div 4 = y div 4 + e * 100" using div_mult_self1 [of 4 y "e * 100"] by simp
  moreover have "(y + e * 400) div 100 = y div 100 + e * 4" using div_mult_self1 [of 100 y "e * 4"] by simp
  moreover have "(y + e * 400) div 400 = y div 400 + e" using div_mult_self1 [of 400 y e] by simp
  ultimately show ?thesis by (simp add: year_start_def)
qed

text \<open>The algorithm finds the year whose days contain the given one.\<close>

lemma civil_from_days_in_year:
  assumes "year_start y \<le> z" and "z < year_start (y + 1)"
  shows "civil_from_days (z - 719468) = date_of y (z - year_start y)"
proof -
  define era doe where "era = z div 146097" and "doe = z mod 146097"
  let ?yoe = "year_of_era doe"
  have era: "z - era * 146097 = doe" by (simp add: era_def doe_def minus_div_mult_eq_mod)
  have yoe: "0 \<le> ?yoe" "?yoe < 400" "year_start ?yoe \<le> doe" "doe < year_start (?yoe + 1)"
    by (rule era_year; simp add: doe_def)+
  have z: "z = doe + era * 146097" by (simp add: era_def doe_def)
  have shift: "?yoe + era * 400 + 1 = (?yoe + 1) + era * 400" by simp
  have "year_start (?yoe + era * 400) \<le> z" "z < year_start (?yoe + era * 400 + 1)"
    unfolding shift year_start_era using yoe(3,4) z by linarith+
  with assms have year: "?yoe + era * 400 = y"
    using year_start_mono [of "?yoe + era * 400 + 1" y] year_start_mono [of "y + 1" "?yoe + era * 400"]
    by fastforce
  have "doe - (365 * ?yoe + ?yoe div 4 - ?yoe div 100) = doe - year_start ?yoe"
    using yoe(1,2) by (simp add: year_start_def)
  also have "\<dots> = z - year_start y"
    using z year_start_era [of ?yoe era] unfolding year by linarith
  finally show ?thesis
    unfolding civil_from_days_def Let_def diff_add_cancel era_def [symmetric] era year by simp
qed

text \<open>The day after, with the length of February given; in a year counted from March it is the last month.\<close>

fun next_in :: "int \<Rightarrow> int \<times> int \<times> int \<Rightarrow> int \<times> int \<times> int" where
  "next_in feb (y, m, d) =
     (if d < (if m = 2 then feb else days_in_month 1 m) then (y, m, d + 1)
      else if m < 12 then (y, m + 1, 1) else (y + 1, 1, 1))"

definition day_ok :: "int \<Rightarrow> int \<Rightarrow> bool" where
  "day_ok len doy \<longleftrightarrow>
     next_in (len - 337) (date_of 0 doy) = (if doy + 1 < len then date_of 0 (doy + 1) else date_of 1 0)
     \<and> (case date_of 0 doy of (y, m, d) \<Rightarrow> 1 \<le> m \<and> m \<le> 12 \<and> 1 \<le> d \<and> d \<le> 31 \<and> 0 \<le> y
          \<and> (m = 2 \<longrightarrow> y = 1))"

lemma days_checked: "list_all (day_ok 365) [0..364]" "list_all (day_ok 366) [0..365]"
  by code_simp+

lemma day_ok: "0 \<le> doy \<Longrightarrow> doy < year_length y \<Longrightarrow> day_ok (year_length y) doy"
  using days_checked by (auto simp: list_all_iff year_length_def)

lemma date_of_shift: "date_of y doy = (case date_of 0 doy of (a, m, d) \<Rightarrow> (y + a, m, d))"
  by (simp add: date_of_def Let_def)

lemma next_date_in_year:
  assumes "0 \<le> doy" and "doy < year_length y"
  shows "next_date (date_of y doy)
       = (if doy + 1 < year_length y then date_of y (doy + 1) else date_of (y + 1) 0)"
proof -
  obtain a m d where date: "date_of 0 doy = (a, m, d)" by (cases "date_of 0 doy")
  with day_ok [OF assms] have feb: "m = 2 \<longrightarrow> a = 1" by (simp add: day_ok_def)
  have "next_date (date_of y doy) = (case next_in (year_length y - 337) (date_of 0 doy) of (a, m, d) \<Rightarrow> (y + a, m, d))"
    using feb by (auto simp: date_of_shift [of y] date days_in_month_def year_length_def)
  also have "next_in (year_length y - 337) (date_of 0 doy)
      = (if doy + 1 < year_length y then date_of 0 (doy + 1) else date_of 1 0)"
    using day_ok [OF assms] by (simp add: day_ok_def)
  finally show ?thesis
    by (simp add: date_of_shift [of y] date_of_shift [of "y + 1"] date_of_shift [of 1] split: prod.splits)
qed

text \<open>Every day number lies in one year; the next day number is the next date.\<close>

lemma in_some_year: "\<exists>y. year_start y \<le> z \<and> z < year_start (y + 1)"
proof -
  define era doe where "era = z div 146097" and "doe = z mod 146097"
  have z: "z = doe + era * 146097" and doe: "0 \<le> doe" "doe < 146097"
    by (simp_all add: era_def doe_def)
  have "year_of_era doe + era * 400 + 1 = (year_of_era doe + 1) + era * 400" by simp
  then show ?thesis
    using era_year(3,4) [OF doe] z
    by (intro exI [of _ "year_of_era doe + era * 400"]) (simp only: year_start_era, linarith)
qed

lemma civil_next: "civil_from_days (n + 1) = next_date (civil_from_days n)"
proof -
  obtain y where y: "year_start y \<le> n + 719468" "n + 719468 < year_start (y + 1)"
    using in_some_year [of "n + 719468"] by auto
  have now: "civil_from_days n = date_of y (n + 719468 - year_start y)"
    using civil_from_days_in_year [OF y] by simp
  have within: "0 \<le> n + 719468 - year_start y" "n + 719468 - year_start y < year_length y"
    using y by (simp_all add: year_start_Suc)
  show ?thesis
  proof (cases "n + 719468 - year_start y + 1 < year_length y")
    case True
    have "civil_from_days (n + 1 + 719468 - 719468) = date_of y (n + 1 + 719468 - year_start y)"
      using y True by (intro civil_from_days_in_year) (simp_all add: year_start_Suc)
    with now next_date_in_year [OF within] True show ?thesis by (simp add: algebra_simps)
  next
    case False
    then have first: "n + 1 + 719468 = year_start (y + 1)" using y by (simp add: year_start_Suc)
    then have day: "n + 1 = year_start (y + 1) - 719468" by simp
    have "civil_from_days (n + 1) = date_of (y + 1) 0"
      unfolding day using civil_from_days_in_year [of "y + 1" "year_start (y + 1)"] year_start_Suc [of "y + 1"]
      by (simp add: year_length_def)
    with now next_date_in_year [OF within] False show ?thesis by simp
  qed
qed

definition plausible :: "int \<times> int \<times> int \<Rightarrow> bool" where
  "plausible date \<longleftrightarrow> (case date of (y, m, d) \<Rightarrow> 1 \<le> m \<and> m \<le> 12 \<and> 1 \<le> d \<and> d \<le> 31)"

lemma civil_plausible: "plausible (civil_from_days n)"
proof -
  obtain y where y: "year_start y \<le> n + 719468" "n + 719468 < year_start (y + 1)"
    using in_some_year [of "n + 719468"] by auto
  then have "day_ok (year_length y) (n + 719468 - year_start y)"
    by (intro day_ok) (simp_all add: year_start_Suc)
  then show ?thesis
    using civil_from_days_in_year [OF y] by (auto simp: day_ok_def plausible_def date_of_shift [of y] split: prod.splits)
qed

text \<open>A number that orders dates.\<close>

fun date_rank :: "int \<times> int \<times> int \<Rightarrow> int" where
  "date_rank (y, m, d) = (y * 12 + (m - 1)) * 31 + (d - 1)"

lemma next_date_rank: "plausible date \<Longrightarrow> date_rank date < date_rank (next_date date)"
  by (cases date) (auto simp: plausible_def)

lemma civil_rank: "a < b \<Longrightarrow> date_rank (civil_from_days a) < date_rank (civil_from_days b)"
proof (induction b rule: int_gr_induct)
  case base
  then show ?case using next_date_rank [OF civil_plausible] by (simp add: civil_next)
next
  case (step b)
  then show ?case using next_date_rank [OF civil_plausible, of b] by (simp add: civil_next)
qed

lemma rank_cases:
  assumes "date_rank (y, m, d) < date_rank (y', m', d')" and "plausible (y, m, d)" and "plausible (y', m', d')"
  shows "y < y' \<or> y = y' \<and> (m < m' \<or> m = m' \<and> d < d')"
  using assms by (auto simp: plausible_def)

subsection \<open>The text\<close>

text \<open>The last \<open>w\<close> digits of a number.\<close>

fun digits_of :: "nat \<Rightarrow> nat \<Rightarrow> string" where
  "digits_of 0 n = []"
| "digits_of (Suc w) n = digits_of w (n div 10) @ [digit_char (n mod 10)]"

lemma length_digits_of [simp]: "length (digits_of w n) = w"
  by (induction w n rule: digits_of.induct) simp_all

lemma digits_of_zero: "digits_of w 0 = replicate w CHR ''0''"
proof -
  have "digit_char 0 = CHR ''0''" by code_simp
  then show ?thesis by (induction w) (simp_all add: replicate_append_same)
qed

lemma padded_digits:
  "n < 10 ^ w \<Longrightarrow> w > 0 \<Longrightarrow> replicate (w - length (show_nat n)) CHR ''0'' @ show_nat n = digits_of w n"
proof (induction w n rule: digits_of.induct)
  case (2 w n)
  show ?case
  proof (cases "n < 10")
    case True
    then show ?thesis by (simp add: show_nat.simps [of n] digits_of_zero)
  next
    case False
    then have "w > 0" using 2(2) by (cases w) auto
    with 2 False show ?thesis by (simp add: show_nat.simps [of n])
  qed
qed simp

lemma zero_pad_digits: "0 \<le> n \<Longrightarrow> n < 10 ^ w \<Longrightarrow> w > 0 \<Longrightarrow> zero_pad w n = digits_of w (nat n)"
  unfolding zero_pad_def by (rule padded_digits) (simp_all add: nat_less_iff)

lemma lex_append: "length a = length b \<Longrightarrow> a @ x < b @ y \<longleftrightarrow> a < b \<or> a = b \<and> x < (y :: 'a::linorder list)"
  by (induction a b rule: list_induct2) auto

lemma digit_char_less: "a < b \<Longrightarrow> b < 10 \<Longrightarrow> digit_char a < digit_char b"
  by (simp add: digit_char_def less_char_def)

lemma digits_of_less: "m < n \<Longrightarrow> n < 10 ^ w \<Longrightarrow> digits_of w m < digits_of w n"
proof (induction w arbitrary: m n)
  case (Suc w)
  show ?case
  proof (cases "m div 10 < n div 10")
    case True
    moreover have "n div 10 < 10 ^ w" using Suc.prems(2) by (simp add: less_mult_imp_div_less mult.commute)
    ultimately have "digits_of w (m div 10) < digits_of w (n div 10)" by (rule Suc.IH)
    then show ?thesis by (simp add: lex_append)
  next
    case False
    then have q: "m div 10 = n div 10" using div_le_mono [of m n 10] Suc.prems(1) by simp
    then have "m mod 10 < n mod 10"
      using Suc.prems(1) mult_div_mod_eq [of 10 m] mult_div_mod_eq [of 10 n] by linarith
    with q show ?thesis using digit_char_less [of "m mod 10" "n mod 10"] by (simp add: lex_append)
  qed
qed simp

lemma zero_pad_less: "0 \<le> m \<Longrightarrow> m < n \<Longrightarrow> n < 10 ^ w \<Longrightarrow> w > 0 \<Longrightarrow> zero_pad w m < zero_pad w n"
  using zero_pad_digits [of m w] zero_pad_digits [of n w] digits_of_less [of "nat m" "nat n" w]
  by (simp add: nat_less_iff)

text \<open>Fixed-width fields compare as their numbers, in turn.\<close>

lemma field_less:
  assumes "0 \<le> m" "m < 10 ^ w" "0 \<le> n" "n < 10 ^ w" "w > 0" and "m < n \<or> m = n \<and> x < y"
  shows "zero_pad w m @ x < zero_pad w n @ y"
proof -
  have "length (zero_pad w m) = length (zero_pad w n)" using assms by (simp add: zero_pad_digits)
  with assms zero_pad_less [of m n w] show ?thesis by (auto simp: lex_append)
qed

lemma civil_from_epoch: "civil_from_days (int n) = (next_date ^^ n) (1970, 1, 1)"
proof (induction n)
  case 0
  show ?case by code_simp
next
  case (Suc n)
  then show ?case using civil_next [of "int n"] by (simp add: add.commute)
qed

lemma civil_rank_le: "a \<le> b \<Longrightarrow> date_rank (civil_from_days a) \<le> date_rank (civil_from_days b)"
  using civil_rank [of a b] by (cases "a = b") auto

lemma civil_year_range:
  assumes "0 \<le> n" and "n \<le> 2932896" and "civil_from_days n = (y, m, d)"
  shows "0 \<le> y" and "y < 10000"
proof -
  have ends: "civil_from_days 0 = (1970, 1, 1)" "civil_from_days 2932896 = (9999, 12, 31)" by code_simp+
  have "plausible (y, m, d)" using civil_plausible [of n] assms(3) by simp
  then show "0 \<le> y" "y < 10000"
    using civil_rank_le [OF assms(1)] civil_rank_le [OF assms(2)] assms(3) ends
    by (auto simp: plausible_def)
qed

lemma div_mod_less:
  assumes "k > 0" and "a < b"
  shows "a div k < b div k \<or> a div k = b div k \<and> a mod k < b mod (k::int)"
proof -
  have "a div k \<le> b div k" using assms by (intro zdiv_mono1) auto
  moreover have "a mod k < b mod k" if "a div k = b div k"
    using that assms(2) mult_div_mod_eq [of k a] mult_div_mod_eq [of k b] by (metis add_less_cancel_left)
  ultimately show ?thesis by linarith
qed

lemma time_of_day_less:
  assumes "a < b"
  shows "a div 3600 < b div 3600
    \<or> a div 3600 = b div 3600 \<and> (a mod 3600 div 60 < b mod 3600 div 60
        \<or> a mod 3600 div 60 = b mod 3600 div 60 \<and> a mod 60 < b mod (60::int))"
proof -
  have sixty: "t mod 60 = t mod 3600 mod 60" for t :: int by (simp add: mod_mod_cancel)
  from assms have "a div 3600 < b div 3600 \<or> a div 3600 = b div 3600 \<and> a mod 3600 < b mod 3600"
    by (intro div_mod_less) auto
  moreover have "a mod 3600 < b mod 3600 \<Longrightarrow> a mod 3600 div 60 < b mod 3600 div 60
      \<or> a mod 3600 div 60 = b mod 3600 div 60 \<and> a mod 3600 mod 60 < b mod 3600 mod 60"
    by (intro div_mod_less) auto
  ultimately show ?thesis unfolding sixty [of a] sixty [of b] by blast
qed

lemma pad2_less:
  assumes "0 \<le> m" "m < 100" "0 \<le> n" "n < 100" and "m < n \<or> m = n \<and> x < y"
  shows "zero_pad 2 m @ c # x < zero_pad 2 n @ c # y"
  using assms by (intro field_less) auto

lemma pad4_less:
  assumes "0 \<le> m" "m < 10000" "0 \<le> n" "n < 10000" and "m < n \<or> m = n \<and> x < y"
  shows "zero_pad 4 m @ c # x < zero_pad 4 n @ c # y"
  using assms by (intro field_less) auto

lemma text_less:
  assumes "0 \<le> y" "y < 10000" "0 \<le> y'" "y' < 10000"
    and "0 \<le> m" "m < 100" "0 \<le> d" "d < 100" "0 \<le> m'" "m' < 100" "0 \<le> d'" "d' < 100"
    and "0 \<le> h" "h < 100" "0 \<le> i" "i < 100" "0 \<le> s" "s < 100"
    and "0 \<le> h'" "h' < 100" "0 \<le> i'" "i' < 100" "0 \<le> s'" "s' < 100"
    and order: "y < y' \<or> y = y' \<and> (m < m' \<or> m = m' \<and> (d < d' \<or> d = d' \<and>
      (h < h' \<or> h = h' \<and> (i < i' \<or> i = i' \<and> s < s'))))"
  shows "zero_pad 4 y @ CHR ''-'' # zero_pad 2 m @ CHR ''-'' # zero_pad 2 d @ CHR ''T'' # zero_pad 2 h
      @ CHR '':'' # zero_pad 2 i @ CHR '':'' # zero_pad 2 s @ ''Z''
    < zero_pad 4 y' @ CHR ''-'' # zero_pad 2 m' @ CHR ''-'' # zero_pad 2 d' @ CHR ''T'' # zero_pad 2 h'
      @ CHR '':'' # zero_pad 2 i' @ CHR '':'' # zero_pad 2 s' @ ''Z''"
proof -
  have s: "zero_pad 2 s @ ''Z'' < zero_pad 2 s' @ ''Z''" if "s < s'"
    using that zero_pad_less [of s s' 2] zero_pad_digits [of s 2] zero_pad_digits [of s' 2] assms(17,18,23,24)
    by (simp add: lex_append)
  let ?S = "zero_pad 2 s @ ''Z''" and ?S' = "zero_pad 2 s' @ ''Z''"
  have i: "zero_pad 2 i @ CHR '':'' # ?S < zero_pad 2 i' @ CHR '':'' # ?S'" if "i < i' \<or> i = i' \<and> s < s'"
    by (rule pad2_less [OF assms(15,16,21,22)]) (use that s in blast)
  let ?I = "zero_pad 2 i @ CHR '':'' # ?S" and ?I' = "zero_pad 2 i' @ CHR '':'' # ?S'"
  have h: "zero_pad 2 h @ CHR '':'' # ?I < zero_pad 2 h' @ CHR '':'' # ?I'"
    if "h < h' \<or> h = h' \<and> (i < i' \<or> i = i' \<and> s < s')"
    by (rule pad2_less [OF assms(13,14,19,20)]) (use that i in blast)
  let ?H = "zero_pad 2 h @ CHR '':'' # ?I" and ?H' = "zero_pad 2 h' @ CHR '':'' # ?I'"
  have d: "zero_pad 2 d @ CHR ''T'' # ?H < zero_pad 2 d' @ CHR ''T'' # ?H'"
    if "d < d' \<or> d = d' \<and> (h < h' \<or> h = h' \<and> (i < i' \<or> i = i' \<and> s < s'))"
    by (rule pad2_less [OF assms(7,8,11,12)]) (use that h in blast)
  let ?D = "zero_pad 2 d @ CHR ''T'' # ?H" and ?D' = "zero_pad 2 d' @ CHR ''T'' # ?H'"
  have m: "zero_pad 2 m @ CHR ''-'' # ?D < zero_pad 2 m' @ CHR ''-'' # ?D'"
    if "m < m' \<or> m = m' \<and> (d < d' \<or> d = d' \<and> (h < h' \<or> h = h' \<and> (i < i' \<or> i = i' \<and> s < s')))"
    by (rule pad2_less [OF assms(5,6,9,10)]) (use that d in blast)
  show ?thesis
    by (rule pad4_less [OF assms(1-4)]) (use order m in blast)
qed

text \<open>C29: Timestamps sort as text in the order of time. Every second from the epoch to the end of the
  year 9999 is written with the date of the Gregorian calendar, and of two such seconds the earlier
  one has the lexicographically smaller text, so comparing stored columns and bound literals as
  text compares them as times.\<close>

theorem timestamps_sort_chronologically:
  assumes "0 \<le> ts_seconds a" and "ts_seconds a < ts_seconds b" and "ts_seconds b \<le> 253402300799"
  shows "format_timestamp a < format_timestamp b
    \<and> civil_from_days (ts_seconds a div 86400) = (next_date ^^ nat (ts_seconds a div 86400)) (1970, 1, 1)"
proof -
  let ?m = "ts_seconds a div 86400" and ?n = "ts_seconds b div 86400"
  let ?s = "ts_seconds a mod 86400" and ?t = "ts_seconds b mod 86400"
  obtain y m d where p: "civil_from_days ?m = (y, m, d)" by (cases "civil_from_days ?m")
  obtain y' m' d' where q: "civil_from_days ?n = (y', m', d')" by (cases "civil_from_days ?n")
  have days: "0 \<le> ?m" "?m \<le> ?n" "?n \<le> 2932896"
    using assms zdiv_mono1 [of "ts_seconds a" "ts_seconds b" 86400]
      zdiv_mono1 [of "ts_seconds b" 253402300799 86400]
    by (simp_all add: pos_imp_zdiv_nonneg_iff)
  have plausible: "plausible (y, m, d)" "plausible (y', m', d')"
    using civil_plausible [of ?m] civil_plausible [of ?n] p q by simp_all
  then have range: "0 \<le> m" "m < 100" "0 \<le> d" "d < 100" "0 \<le> m'" "m' < 100" "0 \<le> d'" "d' < 100"
    by (simp_all add: plausible_def)
  have years: "0 \<le> y" "y < 10000" "0 \<le> y'" "y' < 10000"
    using civil_year_range [OF _ _ p] civil_year_range [OF _ _ q] days by simp_all
  have tod: "0 \<le> ?s" "?s < 86400" "0 \<le> ?t" "?t < 86400" by simp_all
  have "?m < ?n \<or> ?m = ?n \<and> ?s < ?t" using assms(2) by (intro div_mod_less) auto
  then have order: "y < y' \<or> y = y' \<and> (m < m' \<or> m = m' \<and> (d < d' \<or> d = d' \<and>
      (?s div 3600 < ?t div 3600 \<or> ?s div 3600 = ?t div 3600 \<and>
        (?s mod 3600 div 60 < ?t mod 3600 div 60 \<or> ?s mod 3600 div 60 = ?t mod 3600 div 60 \<and>
          ?s mod 60 < ?t mod 60))))"
  proof
    assume "?m < ?n"
    then show ?thesis using civil_rank [of ?m ?n] rank_cases [OF _ plausible] p q by auto
  next
    assume "?m = ?n \<and> ?s < ?t"
    then show ?thesis using time_of_day_less [of ?s ?t] p q by auto
  qed
  have hours: "0 \<le> t div 3600" "t div 3600 < 100" "0 \<le> t mod 3600 div 60" "t mod 3600 div 60 < 100"
      "0 \<le> t mod 60" "t mod 60 < 100" if "0 \<le> t" "t < 86400" for t :: int
    using that pos_mod_bound [of 3600 t] pos_mod_sign [of 3600 t] pos_mod_bound [of 60 t] pos_mod_sign [of 60 t]
    by (simp_all add: pos_imp_zdiv_nonneg_iff div_less_iff_less_mult)
  note bounds = range years hours [OF tod(1,2)] hours [OF tod(3,4)]
  have "format_timestamp a < format_timestamp b"
    unfolding format_timestamp_def Let_def using text_less [OF years range bounds(13-24) order] assms p q
    by simp
  then show ?thesis using civil_from_epoch [of "nat ?m"] days(1) by simp
qed

theorem timestamps_sort_chronologically_witness:
  "format_timestamp \<lparr>ts_seconds = 0, ts_nanos = 0\<rparr> < format_timestamp \<lparr>ts_seconds = 1710502496, ts_nanos = 0\<rparr>"
  using timestamps_sort_chronologically [of "\<lparr>ts_seconds = 0, ts_nanos = 0\<rparr>" "\<lparr>ts_seconds = 1710502496, ts_nanos = 0\<rparr>"]
  by simp

end
