(* ===== verification/Sql_Predicate.thy ===== *)
theory Sql_Predicate
  imports F64
begin

text \<open>
  \<open>crates/aip-sql/src/predicate.rs\<close>: bound values, comparison leaves and composable predicates. What
  a predicate means is stated against an engine, the database the SQL is sent to: it compares
  values by a sort key and answers in SQL's three-valued logic, \<open>None\<close> being \<open>NULL\<close>.
\<close>

subsection \<open>Predicates\<close>

datatype sql_value =
  S_Null | S_Bool bool | S_Int int | S_Double f64 | S_Text string | S_Bytes string

datatype cmp_op = Op_Eq | Op_Ne | Op_Lt | Op_Le | Op_Gt | Op_Ge

fun cmp_sql :: "cmp_op \<Rightarrow> string" where
  "cmp_sql Op_Eq = ''=''"
| "cmp_sql Op_Ne = ''!=''"
| "cmp_sql Op_Lt = ''<''"
| "cmp_sql Op_Le = ''<=''"
| "cmp_sql Op_Gt = ''>''"
| "cmp_sql Op_Ge = ''>=''"

fun mirror :: "cmp_op \<Rightarrow> cmp_op" where
  "mirror Op_Eq = Op_Eq"
| "mirror Op_Ne = Op_Ne"
| "mirror Op_Lt = Op_Gt"
| "mirror Op_Le = Op_Ge"
| "mirror Op_Gt = Op_Lt"
| "mirror Op_Ge = Op_Le"

datatype direction = Dir_Asc | Dir_Desc

definition is_descending :: "direction \<Rightarrow> bool" where
  "is_descending d \<longleftrightarrow> d = Dir_Desc"

datatype sql_column = Col_Plain string | Col_MapMember string string

datatype has_test = Has_Substring string | Has_Key string | Has_Element string | Has_Present

datatype predicate =
  P_All "predicate list"
| P_Any "predicate list"
| P_Not predicate
| P_Compare sql_column cmp_op sql_value
| P_Has string has_test
| P_IsNull string
| P_TupleGt "string list" "sql_value list"
| P_Raw string

definition pred_eq :: "string \<Rightarrow> sql_value \<Rightarrow> predicate" where
  "pred_eq column v = P_Compare (Col_Plain column) Op_Eq v"

definition tuple_gt :: "string list \<Rightarrow> sql_value list \<Rightarrow> predicate" where
  "tuple_gt columns vals = P_TupleGt columns vals"

type_synonym seek_item = "string \<times> direction \<times> sql_value"

text \<open>One branch of the lexicographic expansion: equality before position \<open>i\<close>, strict at it.\<close>

definition seek_branch :: "seek_item list \<Rightarrow> nat \<Rightarrow> predicate" where
  "seek_branch items i =
     P_All (map (\<lambda>(column, _, v). pred_eq column v) (take i items)
            @ [case items ! i of (column, dir, v) \<Rightarrow>
                 P_Compare (Col_Plain column) (if is_descending dir then Op_Lt else Op_Gt) v])"

definition keyset_seek :: "seek_item list \<Rightarrow> predicate" where
  "keyset_seek items =
     (if items = [] then P_All []
      else if list_all (\<lambda>(_, dir, _). \<not> is_descending dir) items
      then tuple_gt (map (\<lambda>(column, _, _). column) items) (map (\<lambda>(_, _, v). v) items)
      else P_Any (map (seek_branch items) [0..<length items]))"

fun precedence :: "predicate \<Rightarrow> nat" where
  "precedence (P_Compare _ _ _) = 4"
| "precedence (P_Has _ _) = 4"
| "precedence (P_IsNull _) = 4"
| "precedence (P_TupleGt _ _) = 4"
| "precedence (P_Not _) = 3"
| "precedence (P_All _) = 2"
| "precedence (P_Any _) = 1"
| "precedence (P_Raw _) = 0"

subsection \<open>What a predicate means\<close>

text \<open>A row as the engine sees it: its columns, members of JSON maps, and the leaves it decides.\<close>

record ('r, 'k) engine =
  en_key :: "sql_value \<Rightarrow> 'k"
  en_column :: "'r \<Rightarrow> string \<Rightarrow> sql_value"
  en_member :: "'r \<Rightarrow> string \<Rightarrow> string \<Rightarrow> sql_value"
  en_has :: "'r \<Rightarrow> string \<Rightarrow> has_test \<Rightarrow> bool option"
  en_raw :: "'r \<Rightarrow> string \<Rightarrow> bool option"

definition and3 :: "bool option \<Rightarrow> bool option \<Rightarrow> bool option" where
  "and3 a b = (if a = Some False \<or> b = Some False then Some False
               else if a = Some True \<and> b = Some True then Some True else None)"

definition or3 :: "bool option \<Rightarrow> bool option \<Rightarrow> bool option" where
  "or3 a b = (if a = Some True \<or> b = Some True then Some True
              else if a = Some False \<and> b = Some False then Some False else None)"

definition not3 :: "bool option \<Rightarrow> bool option" where
  "not3 = map_option Not"

definition all3 :: "bool option list \<Rightarrow> bool option" where
  "all3 bs = foldr and3 bs (Some True)"

definition any3 :: "bool option list \<Rightarrow> bool option" where
  "any3 bs = foldr or3 bs (Some False)"

fun op_holds :: "cmp_op \<Rightarrow> 'k::linorder \<Rightarrow> 'k \<Rightarrow> bool" where
  "op_holds Op_Eq a b = (a = b)"
| "op_holds Op_Ne a b = (a \<noteq> b)"
| "op_holds Op_Lt a b = (a < b)"
| "op_holds Op_Le a b = (a \<le> b)"
| "op_holds Op_Gt a b = (a > b)"
| "op_holds Op_Ge a b = (a \<ge> b)"

definition compare3 :: "('r, 'k::linorder) engine \<Rightarrow> cmp_op \<Rightarrow> sql_value \<Rightarrow> sql_value \<Rightarrow> bool option" where
  "compare3 eng op a b =
     (if a = S_Null \<or> b = S_Null then None else Some (op_holds op (en_key eng a) (en_key eng b)))"

text \<open>The row-value comparison \<open>(a, \<dots>) > (b, \<dots>)\<close>.\<close>

fun tuple3 :: "('r, 'k::linorder) engine \<Rightarrow> sql_value list \<Rightarrow> sql_value list \<Rightarrow> bool option" where
  "tuple3 eng [] [] = Some False"
| "tuple3 eng (a # as) (b # bs) =
     or3 (compare3 eng Op_Gt a b) (and3 (compare3 eng Op_Eq a b) (tuple3 eng as bs))"
| "tuple3 eng _ _ = None"

fun column_value :: "('r, 'k) engine \<Rightarrow> 'r \<Rightarrow> sql_column \<Rightarrow> sql_value" where
  "column_value eng r (Col_Plain c) = en_column eng r c"
| "column_value eng r (Col_MapMember c key) = en_member eng r c key"

fun sat :: "('r, 'k::linorder) engine \<Rightarrow> 'r \<Rightarrow> predicate \<Rightarrow> bool option" where
  "sat eng r (P_All ps) = all3 (map (sat eng r) ps)"
| "sat eng r (P_Any ps) = any3 (map (sat eng r) ps)"
| "sat eng r (P_Not p) = not3 (sat eng r p)"
| "sat eng r (P_Compare c op v) = compare3 eng op (column_value eng r c) v"
| "sat eng r (P_Has c t) = en_has eng r c t"
| "sat eng r (P_IsNull c) = Some (en_column eng r c = S_Null)"
| "sat eng r (P_TupleGt cs vs) = tuple3 eng (map (en_column eng r) cs) vs"
| "sat eng r (P_Raw s) = en_raw eng r s"

lemma and3_simps [simp]:
  "and3 (Some True) b = b" "and3 b (Some True) = b"
  "and3 (Some False) b = Some False" "and3 b (Some False) = Some False"
  by (cases b; simp add: and3_def)+

lemma or3_simps [simp]:
  "or3 (Some False) b = b" "or3 b (Some False) = b"
  "or3 (Some True) b = Some True" "or3 b (Some True) = Some True"
  by (cases b; simp add: or3_def)+

lemma and3_Some: "and3 (Some a) (Some b) = Some (a \<and> b)"
  by (simp add: and3_def)

lemma or3_Some: "or3 (Some a) (Some b) = Some (a \<or> b)"
  by (simp add: or3_def)

lemma and3_assoc: "and3 (and3 a b) c = and3 a (and3 b c)"
  by (simp add: and3_def)

lemma or3_assoc: "or3 (or3 a b) c = or3 a (or3 b c)"
  by (simp add: or3_def)

lemma mirror_compare: "compare3 eng (mirror op) b a = compare3 eng op a b"
  by (cases op) (auto simp: compare3_def)

lemma all3_Some: "all3 (map Some bs) = Some (list_all id bs)"
  by (induction bs) (auto simp: all3_def and3_def)

lemma any3_Some: "any3 (map Some bs) = Some (list_ex id bs)"
  by (induction bs) (auto simp: any3_def or3_def)

subsection \<open>Seeking past a row\<close>

text \<open>Whether a row comes strictly after the cursor, column by column in priority order.\<close>

fun follows :: "('r, 'k::linorder) engine \<Rightarrow> 'r \<Rightarrow> seek_item list \<Rightarrow> bool" where
  "follows eng r [] = False"
| "follows eng r ((c, dir, v) # rest) =
     (let a = en_key eng (en_column eng r c); b = en_key eng v in
      if a = b then follows eng r rest else if is_descending dir then a < b else b < a)"

definition no_nulls :: "('r, 'k) engine \<Rightarrow> 'r \<Rightarrow> seek_item list \<Rightarrow> bool" where
  "no_nulls eng r items \<longleftrightarrow> list_all (\<lambda>(c, _, v). en_column eng r c \<noteq> S_Null \<and> v \<noteq> S_Null) items"

lemma no_nullsD:
  "no_nulls eng r items \<Longrightarrow> (c, dir, v) \<in> set items \<Longrightarrow> en_column eng r c \<noteq> S_Null \<and> v \<noteq> S_Null"
  by (auto simp: no_nulls_def list_all_iff)

lemma tuple_follows:
  "list_all (\<lambda>(_, dir, _). \<not> is_descending dir) items \<Longrightarrow> no_nulls eng r items \<Longrightarrow>
   tuple3 eng (map (en_column eng r) (map (\<lambda>(c, _, _). c) items)) (map (\<lambda>(_, _, v). v) items)
     = Some (follows eng r items)"
  by (induction eng r items rule: follows.induct)
    (auto simp: no_nulls_def compare3_def or3_Some and3_Some Let_def)

definition branch_holds :: "('r, 'k::linorder) engine \<Rightarrow> 'r \<Rightarrow> seek_item list \<Rightarrow> nat \<Rightarrow> bool" where
  "branch_holds eng r items i \<longleftrightarrow>
     list_all (\<lambda>(c, _, v). en_key eng (en_column eng r c) = en_key eng v) (take i items)
     \<and> (case items ! i of (c, dir, v) \<Rightarrow>
          if is_descending dir then en_key eng (en_column eng r c) < en_key eng v
          else en_key eng v < en_key eng (en_column eng r c))"

lemma follows_branches: "follows eng r items \<longleftrightarrow> (\<exists>i < length items. branch_holds eng r items i)"
proof (induction eng r items rule: follows.induct)
  case (2 eng r c dir v rest)
  have split: "(\<exists>i < length ((c, dir, v) # rest). branch_holds eng r ((c, dir, v) # rest) i)
      \<longleftrightarrow> branch_holds eng r ((c, dir, v) # rest) 0
          \<or> (\<exists>i < length rest. branch_holds eng r ((c, dir, v) # rest) (Suc i))"
    using less_Suc_eq_0_disj by auto
  show ?case
    unfolding split using 2 by (auto simp: branch_holds_def Let_def)
qed simp

lemma sat_branch:
  assumes "i < length items" and "no_nulls eng r items"
  shows "sat eng r (seek_branch items i) = Some (branch_holds eng r items i)"
proof -
  have eqs: "map (sat eng r) (map (\<lambda>(c, _, v). pred_eq c v) (take i items))
      = map Some (map (\<lambda>(c, _, v). en_key eng (en_column eng r c) = en_key eng v) (take i items))"
    using no_nullsD [OF assms(2)] by (auto simp: pred_eq_def compare3_def dest!: in_set_takeD)
  obtain c dir v where at: "items ! i = (c, dir, v)" by (cases "items ! i")
  then have "en_column eng r c \<noteq> S_Null" "v \<noteq> S_Null"
    using assms by (auto simp: no_nulls_def list_all_length)
  with at have last: "sat eng r (case items ! i of (c, dir, v) \<Rightarrow>
        P_Compare (Col_Plain c) (if is_descending dir then Op_Lt else Op_Gt) v)
      = Some (if is_descending dir then en_key eng (en_column eng r c) < en_key eng v
          else en_key eng v < en_key eng (en_column eng r c))"
    by (simp add: compare3_def)
  have "sat eng r (seek_branch items i)
      = all3 (map Some (map (\<lambda>(c, _, v). en_key eng (en_column eng r c) = en_key eng v) (take i items)
          @ [if is_descending dir then en_key eng (en_column eng r c) < en_key eng v
             else en_key eng v < en_key eng (en_column eng r c)]))"
    unfolding seek_branch_def sat.simps map_append eqs using last by simp
  then show ?thesis unfolding all3_Some by (auto simp: branch_holds_def at list_all_iff)
qed

lemma sat_keyset_seek:
  assumes "items \<noteq> []" and "no_nulls eng r items"
  shows "sat eng r (keyset_seek items) = Some (follows eng r items)"
proof (cases "list_all (\<lambda>(_, dir, _). \<not> is_descending dir) items")
  case True
  with assms show ?thesis by (simp add: keyset_seek_def tuple_gt_def tuple_follows del: map_map)
next
  case False
  have "map (sat eng r) (map (seek_branch items) [0..<length items])
      = map Some (map (branch_holds eng r items) [0..<length items])"
    using assms(2) by (simp add: sat_branch)
  then have "sat eng r (keyset_seek items)
      = any3 (map Some (map (branch_holds eng r items) [0..<length items]))"
    using assms(1) False by (simp add: keyset_seek_def del: map_map)
  then show ?thesis
    unfolding any3_Some follows_branches by (auto simp: list_ex_iff)
qed

text \<open>The order of an \<open>ORDER BY\<close>, and the cursor a row leaves.\<close>

type_synonym sort_key = "(string \<times> direction) list"

definition cursor_items :: "('r, 'k) engine \<Rightarrow> sort_key \<Rightarrow> 'r \<Rightarrow> seek_item list" where
  "cursor_items eng key cur = map (\<lambda>(c, dir). (c, dir, en_column eng cur c)) key"

definition sorted_before :: "('r, 'k::linorder) engine \<Rightarrow> sort_key \<Rightarrow> 'r \<Rightarrow> 'r \<Rightarrow> bool" where
  "sorted_before eng key r s = follows eng s (cursor_items eng key r)"

lemma sorted_before_irrefl: "\<not> sorted_before eng key r r"
  unfolding sorted_before_def cursor_items_def by (induction key) (auto simp: Let_def)

lemma sorted_before_trans:
  "sorted_before eng key r s \<Longrightarrow> sorted_before eng key s t \<Longrightarrow> sorted_before eng key r t"
  unfolding sorted_before_def cursor_items_def
  by (induction key) (auto simp: Let_def split: if_splits)

text \<open>C2: A keyset seek resumes a listing exactly where the cursor row left it. Over rows sorted by an
  \<open>ORDER BY\<close> in any mix of directions, with no \<open>NULL\<close> in a sort column, the predicate built from the
  values of a row selects the rows after it and no other, whichever of the two forms (row-value
  comparison or lexicographic expansion) is emitted; it never selects the cursor row itself.\<close>

theorem keyset_seek_resumes:
  fixes eng :: "('r, 'k::linorder) engine"
  assumes "key \<noteq> []" and "sorted_wrt (sorted_before eng key) rows" and "i < length rows"
    and "\<forall>r \<in> set rows. \<forall>(c, dir) \<in> set key. en_column eng r c \<noteq> S_Null"
  shows "filter (\<lambda>r. sat eng r (keyset_seek (cursor_items eng key (rows ! i))) = Some True) rows
       = drop (Suc i) rows"
proof -
  let ?seek = "\<lambda>r. sat eng r (keyset_seek (cursor_items eng key (rows ! i))) = Some True"
  have seek: "?seek r \<longleftrightarrow> sorted_before eng key (rows ! i) r" if "r \<in> set rows" for r
  proof -
    have "no_nulls eng r (cursor_items eng key (rows ! i))"
      using assms(3,4) that by (fastforce simp: no_nulls_def cursor_items_def list_all_iff)
    moreover have "cursor_items eng key (rows ! i) \<noteq> []" using assms(1) by (simp add: cursor_items_def)
    ultimately show ?thesis by (simp add: sat_keyset_seek sorted_before_def)
  qed
  have "\<not> sorted_before eng key (rows ! i) r" if r: "r \<in> set (take (Suc i) rows)" for r
  proof -
    obtain j where "j \<le> i" "r = rows ! j" using r assms(3) by (auto simp: in_set_conv_nth less_Suc_eq_le)
    then have "r = rows ! i \<or> sorted_before eng key r (rows ! i)"
      using sorted_wrt_nth_less [OF assms(2), of j i] assms(3) by (cases "j = i") auto
    then show ?thesis using sorted_before_irrefl sorted_before_trans by metis
  qed
  then have before: "filter ?seek (take (Suc i) rows) = []"
    using seek by (auto simp: filter_empty_conv dest: in_set_takeD)
  have "sorted_before eng key (rows ! i) r" if "r \<in> set (drop (Suc i) rows)" for r
    using that sorted_wrt_nth_less [OF assms(2), of i] by (auto simp: in_set_conv_nth)
  then have after: "filter ?seek (drop (Suc i) rows) = drop (Suc i) rows"
    using seek by (auto simp: filter_id_conv dest: in_set_dropD)
  have "filter ?seek rows = filter ?seek (take (Suc i) rows) @ filter ?seek (drop (Suc i) rows)"
    by (metis append_take_drop_id filter_append)
  then show ?thesis unfolding before after by simp
qed

text \<open>Three rows sorted by \<open>size desc, name\<close>.\<close>

definition demo_key :: "sql_value \<Rightarrow> int" where
  "demo_key v = (case v of S_Int i \<Rightarrow> i | _ \<Rightarrow> 0)"

definition demo_engine :: "(int \<times> int, int) engine" where
  "demo_engine = \<lparr>en_key = demo_key, en_column = (\<lambda>(s, n) c. S_Int (if c = ''size'' then s else n)),
     en_member = (\<lambda>_ _ _. S_Null), en_has = (\<lambda>_ _ _. None), en_raw = (\<lambda>_ _. None)\<rparr>"

theorem keyset_seek_resumes_witness:
  "filter (\<lambda>r. sat demo_engine r
        (keyset_seek (cursor_items demo_engine [(''size'', Dir_Desc), (''name'', Dir_Asc)] (7, 1))) = Some True)
      [(7, 1), (7, 2), (3, 0)]
     = [(7, 2), (3, 0)]"
proof -
  let ?key = "[(''size'', Dir_Desc), (''name'', Dir_Asc)]"
  let ?rows = "[(7, 1), (7, 2), (3, 0)] :: (int \<times> int) list"
  have "sorted_wrt (sorted_before demo_engine ?key) ?rows"
    by (simp add: sorted_before_def cursor_items_def demo_engine_def demo_key_def is_descending_def Let_def)
  moreover have "\<forall>r \<in> set ?rows. \<forall>(c, dir) \<in> set ?key. en_column demo_engine r c \<noteq> S_Null"
    by (simp add: demo_engine_def)
  ultimately show ?thesis using keyset_seek_resumes [of ?key demo_engine ?rows 0] by simp
qed

end
