(* ===== verification/Sql_Dialect.thy ===== *)
theory Sql_Dialect
  imports Sql_Predicate
begin

text \<open>
  \<open>crates/aip-sql/src/dialect.rs\<close>: one pass that writes a predicate as SQL text and collects its bound
  values, the SQLite dialect, and what the text means: a grammar of the emitted SQL with its usual
  precedences, read against the bound values.
\<close>

subsection \<open>Rendering\<close>

record dialect =
  placeholder :: "nat \<Rightarrow> string"
  render_has :: "string \<Rightarrow> has_test \<Rightarrow> nat \<Rightarrow> string \<times> sql_value list"

text \<open>The \<open>&mut String\<close> and \<open>&mut Vec<Value>\<close> of the pass.\<close>

type_synonym sql_out = "string \<times> sql_value list"

definition push_str :: "string \<Rightarrow> sql_out \<Rightarrow> sql_out" where
  "push_str s out = (fst out @ s, snd out)"

definition push_bind :: "dialect \<Rightarrow> sql_value \<Rightarrow> sql_out \<Rightarrow> sql_out" where
  "push_bind d v out = (fst out @ placeholder d (length (snd out) + 1), snd out @ [v])"

definition write_column :: "dialect \<Rightarrow> sql_column \<Rightarrow> sql_out \<Rightarrow> sql_out" where
  "write_column d c out =
     (case c of
        Col_Plain name \<Rightarrow> push_str name out
      | Col_MapMember column key \<Rightarrow>
          push_bind d (S_Text key) (push_str '' ->> '' (push_str column out)))"

definition write_child :: "(predicate \<Rightarrow> sql_out \<Rightarrow> sql_out) \<Rightarrow> predicate \<Rightarrow> nat \<Rightarrow> sql_out \<Rightarrow> sql_out" where
  "write_child write child parent_precedence out =
     (if precedence child < parent_precedence
      then push_str '')'' (write child (push_str ''('' out))
      else write child out)"

fun write_parts ::
  "(predicate \<Rightarrow> sql_out \<Rightarrow> sql_out) \<Rightarrow> bool \<Rightarrow> predicate list \<Rightarrow> string \<Rightarrow> nat \<Rightarrow> sql_out \<Rightarrow> sql_out" where
  "write_parts write first [] separator prec out = out"
| "write_parts write first (child # parts) separator prec out =
     write_parts write False parts separator prec
       (write_child write child prec (if first then out else push_str separator out))"

definition write_join ::
  "(predicate \<Rightarrow> sql_out \<Rightarrow> sql_out) \<Rightarrow> predicate list \<Rightarrow> string \<Rightarrow> nat \<Rightarrow> string \<Rightarrow> sql_out \<Rightarrow> sql_out" where
  "write_join write parts separator prec when_empty out =
     (if parts = [] then push_str when_empty out
      else write_parts write True parts separator prec out)"

lemma write_child_cong [fundef_cong]:
  "c = c' \<Longrightarrow> p = p' \<Longrightarrow> out = out' \<Longrightarrow> (\<And>o1. w c' o1 = w' c' o1) \<Longrightarrow>
   write_child w c p out = write_child w' c' p' out'"
  by (simp add: write_child_def)

lemma write_parts_cong:
  "(\<And>c o1. c \<in> set parts \<Longrightarrow> w c o1 = w' c o1) \<Longrightarrow>
   write_parts w first parts sep prec out = write_parts w' first parts sep prec out"
proof (induction parts arbitrary: first out)
  case (Cons c parts)
  then have "write_child w c prec o1 = write_child w' c prec o1" for o1
    by (intro write_child_cong) auto
  with Cons show ?case by simp
qed simp

lemma write_join_cong [fundef_cong]:
  "parts = parts' \<Longrightarrow> sep = sep' \<Longrightarrow> prec = prec' \<Longrightarrow> e = e' \<Longrightarrow> out = out' \<Longrightarrow>
   (\<And>c o1. c \<in> set parts' \<Longrightarrow> w c o1 = w' c o1) \<Longrightarrow>
   write_join w parts sep prec e out = write_join w' parts' sep' prec' e' out'"
  using write_parts_cong [of parts' w w'] by (simp add: write_join_def)

text \<open>The values of a row-value comparison, separated by commas.\<close>

fun write_values :: "dialect \<Rightarrow> bool \<Rightarrow> sql_value list \<Rightarrow> sql_out \<Rightarrow> sql_out" where
  "write_values d first [] out = out"
| "write_values d first (v # vs) out =
     write_values d False vs (push_bind d v (if first then out else push_str '', '' out))"

fun write_node :: "dialect \<Rightarrow> predicate \<Rightarrow> sql_out \<Rightarrow> sql_out" where
  "write_node d (P_Compare column op v) out =
     push_bind d v (push_str '' '' (push_str (cmp_sql op) (push_str '' '' (write_column d column out))))"
| "write_node d (P_Has column test) out =
     (case render_has d column test (length (snd out) + 1) of
        (leaf_sql, leaf_binds) \<Rightarrow> (fst out @ leaf_sql, snd out @ leaf_binds))"
| "write_node d (P_IsNull column) out = push_str '' IS NULL'' (push_str column out)"
| "write_node d (P_TupleGt columns vals) out =
     push_str '')'' (write_values d True vals
       (push_str '') > ('' (push_str (join '', '' columns) (push_str ''('' out))))"
| "write_node d (P_Raw fragment) out = push_str fragment out"
| "write_node d (P_Not inner) out =
     write_child (write_node d) inner (precedence (P_Not inner)) (push_str ''NOT '' out)"
| "write_node d (P_All parts) out =
     write_join (write_node d) parts '' AND '' (precedence (P_All parts)) ''1 = 1'' out"
| "write_node d (P_Any parts) out =
     write_join (write_node d) parts '' OR '' (precedence (P_Any parts)) ''1 = 0'' out"

definition render :: "dialect \<Rightarrow> predicate \<Rightarrow> string \<times> sql_value list" where
  "render d p = write_node d p ([], [])"

subsection \<open>SQLite\<close>

definition escape_like :: "string \<Rightarrow> string" where
  "escape_like s =
     concat (map (\<lambda>ch. if ch \<in> {CHR 0x5C, CHR 0x25, CHR ''_''} then [CHR 0x5C, ch] else [ch]) s)"

definition sqlite_placeholder :: "nat \<Rightarrow> string" where
  "sqlite_placeholder n = ''?'' @ show_nat n"

definition sqlite_render_has :: "string \<Rightarrow> has_test \<Rightarrow> nat \<Rightarrow> string \<times> sql_value list" where
  "sqlite_render_has column test next_bind =
     (let p = sqlite_placeholder next_bind in
      case test of
        Has_Substring v \<Rightarrow>
          (column @ '' LIKE '' @ p @ '' ESCAPE '' @ [CHR 0x27, CHR 0x5C, CHR 0x27],
           [S_Text (CHR 0x25 # escape_like v @ [CHR 0x25])])
      | Has_Key key \<Rightarrow>
          (''EXISTS (SELECT 1 FROM json_each('' @ column @ '') WHERE key = '' @ p @ '')'', [S_Text key])
      | Has_Element v \<Rightarrow>
          (''EXISTS (SELECT 1 FROM json_each('' @ column @ '') WHERE value = '' @ p @ '')'', [S_Text v])
      | Has_Present \<Rightarrow> (column @ '' IS NOT NULL'', []))"

definition Sqlite :: dialect where
  "Sqlite = \<lparr>placeholder = sqlite_placeholder, render_has = sqlite_render_has\<rparr>"

subsection \<open>No value reaches the text\<close>

fun has_skeleton :: "has_test \<Rightarrow> has_test" where
  "has_skeleton (Has_Substring _) = Has_Substring []"
| "has_skeleton (Has_Key _) = Has_Key []"
| "has_skeleton (Has_Element _) = Has_Element []"
| "has_skeleton Has_Present = Has_Present"

fun column_skeleton :: "sql_column \<Rightarrow> sql_column" where
  "column_skeleton (Col_Plain c) = Col_Plain c"
| "column_skeleton (Col_MapMember c _) = Col_MapMember c []"

fun skeleton :: "predicate \<Rightarrow> predicate" where
  "skeleton (P_All ps) = P_All (map skeleton ps)"
| "skeleton (P_Any ps) = P_Any (map skeleton ps)"
| "skeleton (P_Not p) = P_Not (skeleton p)"
| "skeleton (P_Compare c op _) = P_Compare (column_skeleton c) op S_Null"
| "skeleton (P_Has c t) = P_Has c (has_skeleton t)"
| "skeleton (P_IsNull c) = P_IsNull c"
| "skeleton (P_TupleGt cs vs) = P_TupleGt cs (map (\<lambda>_. S_Null) vs)"
| "skeleton (P_Raw s) = P_Raw s"

lemma precedence_skeleton [simp]: "precedence (skeleton p) = precedence p"
  by (cases p) auto

text \<open>Two outputs that differ in bound values only.\<close>

definition same_text :: "sql_out \<Rightarrow> sql_out \<Rightarrow> bool" where
  "same_text a b \<longleftrightarrow> fst a = fst b \<and> length (snd a) = length (snd b)"

lemma same_text_push [simp]: "same_text a b \<Longrightarrow> same_text (push_str s a) (push_str s b)"
  by (simp add: same_text_def push_str_def)

lemma same_text_bind [simp]: "same_text a b \<Longrightarrow> same_text (push_bind d v a) (push_bind d w b)"
  by (simp add: same_text_def push_bind_def)

lemma same_text_column [simp]: "same_text a b \<Longrightarrow> same_text (write_column d c a) (write_column d (column_skeleton c) b)"
  by (cases c) (simp_all add: write_column_def)

lemma same_text_values [simp]:
  "same_text a b \<Longrightarrow> same_text (write_values d first vs a) (write_values d first (map (\<lambda>_. S_Null) vs) b)"
  by (induction vs arbitrary: first a b) simp_all

lemma same_text_child:
  assumes "\<And>a b. same_text a b \<Longrightarrow> same_text (write_node d c a) (write_node d (skeleton c) b)"
    and "same_text a b"
  shows "same_text (write_child (write_node d) c prec a) (write_child (write_node d) (skeleton c) prec b)"
  using assms by (simp add: write_child_def)

lemma same_text_parts:
  assumes "\<And>c a b. c \<in> set ps \<Longrightarrow> same_text a b \<Longrightarrow> same_text (write_node d c a) (write_node d (skeleton c) b)"
    and "same_text a b"
  shows "same_text (write_parts (write_node d) first ps sep prec a)
           (write_parts (write_node d) first (map skeleton ps) sep prec b)"
  using assms
proof (induction ps arbitrary: first a b)
  case (Cons p ps)
  have "same_text (write_child (write_node d) p prec (if first then a else push_str sep a))
      (write_child (write_node d) (skeleton p) prec (if first then b else push_str sep b))"
    by (rule same_text_child) (use Cons.prems in simp_all)
  with Cons show ?case by simp
qed simp

lemma same_text_join:
  assumes "\<And>c a b. c \<in> set ps \<Longrightarrow> same_text a b \<Longrightarrow> same_text (write_node d c a) (write_node d (skeleton c) b)"
    and "same_text a b"
  shows "same_text (write_join (write_node d) ps sep prec e a)
           (write_join (write_node d) (map skeleton ps) sep prec e b)"
  using same_text_parts [of ps d a b True sep prec, OF assms] assms(2) by (simp add: write_join_def)

text \<open>What an engine's spelling of the has operator must not do: let the value into the text.\<close>

locale sql_dialect =
  fixes d :: dialect
  assumes has_blind: "same_text (render_has d c t n) (render_has d c (has_skeleton t) n)"
begin

lemma write_node_blind: "same_text a b \<Longrightarrow> same_text (write_node d p a) (write_node d (skeleton p) b)"
proof (induction p arbitrary: a b)
  case (P_Has c t)
  then show ?case using has_blind [of c t "length (snd b) + 1"]
    by (auto simp: same_text_def split: prod.splits)
next
  case (P_Compare c op v)
  then show ?case by simp
next
  case (P_TupleGt cs vs)
  then show ?case by simp
qed (simp_all add: same_text_join same_text_child)

lemma render_blind: "same_text (render d p) (render d (skeleton p))"
  unfolding render_def by (rule write_node_blind) (simp add: same_text_def)

lemma render_same_skeleton: "skeleton p = skeleton q \<Longrightarrow> fst (render d p) = fst (render d q)"
  using render_blind [of p] render_blind [of q] by (simp add: same_text_def)

end

interpretation sqlite: sql_dialect Sqlite
proof
  show "same_text (render_has Sqlite c t n) (render_has Sqlite c (has_skeleton t) n)" for c t n
    by (cases t) (simp_all add: same_text_def Sqlite_def sqlite_render_has_def Let_def)
qed

subsection \<open>What the text means\<close>

text \<open>
  SQL conditions with their usual precedences, read against the bound values: a condition is a
  chain of conjunctions joined by \<open>OR\<close>, a conjunction a chain of units joined by \<open>AND\<close>, a unit a leaf, a
  negated unit or a condition in parentheses. Each derivation carries the truth value it denotes.
\<close>

inductive sql_unit :: "dialect \<Rightarrow> ('r, 'k::linorder) engine \<Rightarrow> sql_value list \<Rightarrow> string
    \<Rightarrow> ('r \<Rightarrow> bool option) \<Rightarrow> bool"
  and sql_and :: "dialect \<Rightarrow> ('r, 'k::linorder) engine \<Rightarrow> sql_value list \<Rightarrow> string
    \<Rightarrow> ('r \<Rightarrow> bool option) \<Rightarrow> bool"
  and sql_or :: "dialect \<Rightarrow> ('r, 'k::linorder) engine \<Rightarrow> sql_value list \<Rightarrow> string
    \<Rightarrow> ('r \<Rightarrow> bool option) \<Rightarrow> bool"
  for d :: dialect and eng :: "('r, 'k::linorder) engine" and bs :: "sql_value list" where
  plain: "n < length bs \<Longrightarrow>
     sql_unit d eng bs (c @ '' '' @ cmp_sql op @ '' '' @ placeholder d (n + 1))
       (\<lambda>r. compare3 eng op (en_column eng r c) (bs ! n))"
| member: "k < length bs \<Longrightarrow> bs ! k = S_Text key \<Longrightarrow> n < length bs \<Longrightarrow>
     sql_unit d eng bs (c @ '' ->> '' @ placeholder d (k + 1) @ '' '' @ cmp_sql op @ '' '' @ placeholder d (n + 1))
       (\<lambda>r. compare3 eng op (en_member eng r c key) (bs ! n))"
| has: "render_has d c t (n + 1) = (text, vs) \<Longrightarrow> take (length vs) (drop n bs) = vs \<Longrightarrow>
     sql_unit d eng bs text (\<lambda>r. en_has eng r c t)"
| is_null: "sql_unit d eng bs (c @ '' IS NULL'') (\<lambda>r. Some (en_column eng r c = S_Null))"
| tuple: "list_all (\<lambda>i. i < length bs) ns \<Longrightarrow>
     sql_unit d eng bs
       (''('' @ join '', '' cs @ '') > ('' @ join '', '' (map (\<lambda>i. placeholder d (i + 1)) ns) @ '')'')
       (\<lambda>r. tuple3 eng (map (en_column eng r) cs) (map ((!) bs) ns))"
| always: "sql_unit d eng bs ''1 = 1'' (\<lambda>r. Some True)"
| never: "sql_unit d eng bs ''1 = 0'' (\<lambda>r. Some False)"
| negation: "sql_unit d eng bs t f \<Longrightarrow> sql_unit d eng bs (''NOT '' @ t) (\<lambda>r. not3 (f r))"
| paren: "sql_or d eng bs t f \<Longrightarrow> sql_unit d eng bs (''('' @ t @ '')'') f"
| paren_raw: "sql_unit d eng bs (''('' @ s @ '')'') (\<lambda>r. en_raw eng r s)"
| and_one: "sql_unit d eng bs t f \<Longrightarrow> sql_and d eng bs t f"
| and_more: "sql_and d eng bs s f \<Longrightarrow> sql_unit d eng bs t g \<Longrightarrow>
     sql_and d eng bs (s @ '' AND '' @ t) (\<lambda>r. and3 (f r) (g r))"
| or_one: "sql_and d eng bs t f \<Longrightarrow> sql_or d eng bs t f"
| or_more: "sql_or d eng bs s f \<Longrightarrow> sql_and d eng bs t g \<Longrightarrow>
     sql_or d eng bs (s @ '' OR '' @ t) (\<lambda>r. or3 (f r) (g r))"

lemmas sql_one = and_one or_one

lemma sql_append:
  shows "sql_unit d eng bs t0 g0 \<Longrightarrow> True"
    and sql_and_append: "sql_and d eng bs t g \<Longrightarrow> sql_and d eng bs s f \<Longrightarrow>
      sql_and d eng bs (s @ '' AND '' @ t) (\<lambda>r. and3 (f r) (g r))"
    and sql_or_append: "sql_or d eng bs u h \<Longrightarrow> sql_or d eng bs s' f' \<Longrightarrow>
      sql_or d eng bs (s' @ '' OR '' @ u) (\<lambda>r. or3 (f' r) (h r))"
proof (induction rule: sql_unit_sql_and_sql_or.inducts)
  case (and_more t1 g1 t2 g2)
  from sql_unit_sql_and_sql_or.and_more [OF and_more(2) [OF and_more(5)] and_more(3)]
  show ?case by (simp add: and3_assoc)
next
  case (or_more t1 g1 t2 g2)
  from sql_unit_sql_and_sql_or.or_more [OF or_more(2) [OF or_more(5)] or_more(3)]
  show ?case by (simp add: or3_assoc)
next
  case (and_one t f)
  then show ?case by (blast intro: sql_unit_sql_and_sql_or.and_more)
next
  case (or_one t f)
  then show ?case by (blast intro: sql_unit_sql_and_sql_or.or_more)
qed simp_all

text \<open>The category the renderer gives a child under a parent of the given precedence.\<close>

definition sql_at :: "nat \<Rightarrow> dialect \<Rightarrow> ('r, 'k::linorder) engine \<Rightarrow> sql_value list \<Rightarrow> string
    \<Rightarrow> ('r \<Rightarrow> bool option) \<Rightarrow> bool" where
  "sql_at k d eng bs t f \<longleftrightarrow>
     (if k \<ge> 3 then sql_unit d eng bs t f else if k = 2 then sql_and d eng bs t f
      else if k = 1 then sql_or d eng bs t f else f = (\<lambda>r. en_raw eng r t))"

lemma sql_at_or: "sql_at k d eng bs t f \<Longrightarrow> k \<ge> 1 \<Longrightarrow> sql_or d eng bs t f"
  by (auto simp: sql_at_def intro: and_one or_one split: if_splits)

lemma sql_at_weaken: "sql_at k d eng bs t f \<Longrightarrow> j \<le> k \<Longrightarrow> j \<ge> 1 \<Longrightarrow> sql_at j d eng bs t f"
  by (auto simp: sql_at_def intro: and_one or_one split: if_splits)

lemma sql_at_paren: "sql_at k d eng bs t f \<Longrightarrow> j \<ge> 1 \<Longrightarrow> sql_at j d eng bs (''('' @ t @ '')'') f"
proof -
  assume at: "sql_at k d eng bs t f" and j: "j \<ge> 1"
  have "sql_unit d eng bs (''('' @ t @ '')'') f"
  proof (cases "k = 0")
    case True
    with at show ?thesis by (simp add: sql_at_def) (metis append_Cons append_Nil paren_raw)
  next
    case False
    with at have "sql_or d eng bs t f" by (intro sql_at_or) auto
    then show ?thesis by (rule paren)
  qed
  then show ?thesis using j by (intro sql_at_weaken [of "max 3 j" _ _ _ _ _ j]) (auto simp: sql_at_def)
qed

text \<open>A writer that appends text and values, and whose text means \<open>f\<close> at level \<open>k\<close>.\<close>

definition writes ::
  "(sql_out \<Rightarrow> sql_out) \<Rightarrow> nat \<Rightarrow> dialect \<Rightarrow> ('r, 'k::linorder) engine \<Rightarrow> ('r \<Rightarrow> bool option) \<Rightarrow> bool" where
  "writes w k d eng f \<longleftrightarrow>
     (\<forall>sql vs. \<exists>t us. w (sql, vs) = (sql @ t, vs @ us) \<and> (\<forall>rest. sql_at k d eng (vs @ us @ rest) t f))"

lemma writesE:
  assumes "writes w k d eng f"
  obtains t us where "w (sql, vs) = (sql @ t, vs @ us)" and "\<And>rest. sql_at k d eng (vs @ us @ rest) t f"
  using assms unfolding writes_def by blast

lemma writes_child:
  assumes "writes (write c) (precedence c) d eng f" and "j \<ge> 1"
  shows "writes (write_child write c j) j d eng f"
  unfolding writes_def
proof (intro allI)
  fix sql vs
  show "\<exists>t us. write_child write c j (sql, vs) = (sql @ t, vs @ us)
      \<and> (\<forall>rest. sql_at j d eng (vs @ us @ rest) t f)"
  proof (cases "precedence c < j")
    case True
    from assms(1) obtain t us where w: "write c (sql @ ''('', vs) = (sql @ ''('' @ t, vs @ us)"
        "\<And>rest. sql_at (precedence c) d eng (vs @ us @ rest) t f"
      by (rule writesE [of _ _ _ _ _ "sql @ ''(''" vs]) simp
    from w(2) assms(2) have "sql_at j d eng (vs @ us @ rest) (''('' @ t @ '')'') f" for rest
      by (rule sql_at_paren)
    moreover have "write_child write c j (sql, vs) = (sql @ ''('' @ t @ '')'', vs @ us)"
      using True w(1) by (simp add: write_child_def push_str_def)
    ultimately show ?thesis by blast
  next
    case False
    from assms(1) obtain t us where w: "write c (sql, vs) = (sql @ t, vs @ us)"
        "\<And>rest. sql_at (precedence c) d eng (vs @ us @ rest) t f"
      unfolding writes_def by blast
    have "sql_at j d eng (vs @ us @ rest) t f" for rest
      using sql_at_weaken [OF w(2), of j] False assms(2) by simp
    with w(1) False show ?thesis by (auto simp: write_child_def)
  qed
qed

definition chain :: "nat \<Rightarrow> string \<Rightarrow> (bool option \<Rightarrow> bool option \<Rightarrow> bool option) \<Rightarrow> bool" where
  "chain k sep comb \<longleftrightarrow> k = 2 \<and> sep = '' AND '' \<and> comb = and3 \<or> k = 1 \<and> sep = '' OR '' \<and> comb = or3"

lemma chain_append:
  "chain k sep comb \<Longrightarrow> sql_at k d eng bs s f \<Longrightarrow> sql_at k d eng bs t g \<Longrightarrow>
   sql_at k d eng bs (s @ sep @ t) (\<lambda>r. comb (f r) (g r))"
  using sql_and_append sql_or_append by (fastforce simp: chain_def sql_at_def)

lemma chain_ge: "chain k sep comb \<Longrightarrow> k \<ge> 1"
  by (auto simp: chain_def)

lemma chain_assoc: "chain k sep comb \<Longrightarrow> comb (comb a b) c = comb a (comb b c)"
  by (auto simp: chain_def and3_assoc or3_assoc)

text \<open>The rest of a chain, after some text that already has a meaning.\<close>

lemma writes_rest:
  assumes "chain k sep comb"
    and "\<And>p. p \<in> set ps \<Longrightarrow> writes (write p) (precedence p) d eng (f p)"
  shows "\<exists>t us. write_parts write False ps sep k (sql, vs) = (sql @ t, vs @ us)
     \<and> (\<forall>s g rest. sql_at k d eng (vs @ us @ rest) s g \<longrightarrow>
          sql_at k d eng (vs @ us @ rest) (s @ t) (\<lambda>r. foldl comb (g r) (map (\<lambda>p. f p r) ps)))"
  using assms(2)
proof (induction ps arbitrary: sql vs)
  case (Cons p ps)
  have "writes (write_child write p k) k d eng (f p)"
    using Cons.prems chain_ge [OF assms(1)] by (intro writes_child) auto
  then obtain t us where one: "write_child write p k (sql @ sep, vs) = ((sql @ sep) @ t, vs @ us)"
      "\<And>rest. sql_at k d eng (vs @ us @ rest) t (f p)"
    unfolding writes_def by blast
  obtain t' us' where more: "write_parts write False ps sep k ((sql @ sep) @ t, vs @ us)
        = (((sql @ sep) @ t) @ t', (vs @ us) @ us')"
      "\<forall>s g rest. sql_at k d eng ((vs @ us) @ us' @ rest) s g \<longrightarrow>
          sql_at k d eng ((vs @ us) @ us' @ rest) (s @ t') (\<lambda>r. foldl comb (g r) (map (\<lambda>p. f p r) ps))"
    using Cons.IH [OF Cons.prems, of "(sql @ sep) @ t" "vs @ us"] by auto
  have "sql_at k d eng (vs @ (us @ us') @ rest) (s @ sep @ t @ t')
      (\<lambda>r. foldl comb (g r) (map (\<lambda>p. f p r) (p # ps)))"
    if "sql_at k d eng (vs @ (us @ us') @ rest) s g" for s g rest
  proof -
    have "sql_at k d eng ((vs @ us) @ us' @ rest) (s @ sep @ t) (\<lambda>r. comb (g r) (f p r))"
      using chain_append [OF assms(1) that, of t "f p"] one(2) [of "us' @ rest"] by simp
    from more(2) [rule_format, OF this] show ?thesis by simp
  qed
  with one(1) more(1) show ?case
    by (intro exI [of _ "sep @ t @ t'"] exI [of _ "us @ us'"]) (simp add: push_str_def)
qed (auto intro!: exI [of _ "[]"])

lemma foldl_and3: "foldl and3 a bs = and3 a (all3 bs)"
  by (induction bs arbitrary: a) (simp_all add: all3_def and3_assoc)

lemma foldl_or3: "foldl or3 a bs = or3 a (any3 bs)"
  by (induction bs arbitrary: a) (simp_all add: any3_def or3_assoc)

lemma writes_parts:
  assumes "chain k sep comb" and "ps = p # qs"
    and "\<And>p. p \<in> set ps \<Longrightarrow> writes (write p) (precedence p) d eng (f p)"
  shows "writes (write_join write ps sep k e) k d eng (\<lambda>r. foldl comb (f p r) (map (\<lambda>p. f p r) qs))"
  unfolding writes_def
proof (intro allI)
  fix sql vs
  have "writes (write_child write p k) k d eng (f p)"
    using assms chain_ge [OF assms(1)] by (intro writes_child) auto
  then obtain t us where one: "write_child write p k (sql, vs) = (sql @ t, vs @ us)"
      "\<And>rest. sql_at k d eng (vs @ us @ rest) t (f p)"
    unfolding writes_def by blast
  obtain t' us' where more: "write_parts write False qs sep k (sql @ t, vs @ us)
        = ((sql @ t) @ t', (vs @ us) @ us')"
      "\<forall>s g rest. sql_at k d eng ((vs @ us) @ us' @ rest) s g \<longrightarrow>
          sql_at k d eng ((vs @ us) @ us' @ rest) (s @ t') (\<lambda>r. foldl comb (g r) (map (\<lambda>p. f p r) qs))"
    using writes_rest [of k sep comb qs "write" d eng f "sql @ t" "vs @ us", OF assms(1)] assms(2,3) by auto
  have "sql_at k d eng (vs @ (us @ us') @ rest) (t @ t') (\<lambda>r. foldl comb (f p r) (map (\<lambda>p. f p r) qs))" for rest
    using more(2) [rule_format, of rest t "f p"] one(2) [of "us' @ rest"] by simp
  moreover have "write_join write ps sep k e (sql, vs) = (sql @ t @ t', vs @ us @ us')"
    using one(1) more(1) assms(2) by (simp add: write_join_def)
  ultimately show "\<exists>t us. write_join write ps sep k e (sql, vs) = (sql @ t, vs @ us)
      \<and> (\<forall>rest. sql_at k d eng (vs @ us @ rest) t (\<lambda>r. foldl comb (f p r) (map (\<lambda>p. f p r) qs)))"
    by blast
qed

lemma write_values_text:
  "vals \<noteq> [] \<Longrightarrow> write_values d True vals (sql, vs)
     = (sql @ join '', '' (map (\<lambda>i. placeholder d (i + 1)) [length vs..<length vs + length vals]), vs @ vals)"
proof (induction vals arbitrary: sql vs)
  case (Cons v vals)
  have rest: "write_values d False vals (push_bind d v (sql, vs))
      = (if vals = [] then push_bind d v (sql, vs)
         else write_values d True vals (push_str '', '' (push_bind d v (sql, vs))))"
    by (cases vals) simp_all
  have upt: "[length vs..<length vs + length (v # vals)]
      = length vs # [length (vs @ [v])..<length (vs @ [v]) + length vals]"
    by (subst upt_conv_Cons) simp_all
  show ?case
  proof (cases "vals = []")
    case True
    then show ?thesis by (simp add: push_bind_def)
  next
    case False
    then show ?thesis
      using Cons.IH [OF False, of "sql @ placeholder d (length vs + 1) @ '', ''" "vs @ [v]"]
      unfolding upt write_values.simps if_True rest
      by (simp add: push_bind_def push_str_def join_Cons del: upt_Suc)
  qed
qed simp

lemma writes_compare: "writes (write_node d (P_Compare c op v)) 4 d eng (\<lambda>r. sat eng r (P_Compare c op v))"
proof (cases c)
  case (Col_Plain name)
  have "sql_unit d eng (vs @ [v] @ rest) (name @ '' '' @ cmp_sql op @ '' '' @ placeholder d (length vs + 1))
      (\<lambda>r. compare3 eng op (en_column eng r name) v)" for vs rest
    using plain [of "length vs" "vs @ [v] @ rest" d eng name op] by simp
  with Col_Plain show ?thesis
    unfolding writes_def sql_at_def by (simp add: push_str_def push_bind_def write_column_def)
next
  case (Col_MapMember m key)
  have "sql_unit d eng (vs @ [S_Text key, v] @ rest)
      (m @ '' ->> '' @ placeholder d (length vs + 1) @ '' '' @ cmp_sql op @ '' '' @ placeholder d (length vs + 2))
      (\<lambda>r. compare3 eng op (en_member eng r m key) v)" for vs rest
    using member [of "length vs" "vs @ [S_Text key, v] @ rest" key "length vs + 1" d eng m op] by (simp add: nth_append)
  with Col_MapMember show ?thesis
    unfolding writes_def sql_at_def by (simp add: push_str_def push_bind_def write_column_def)
qed

lemma writes_tuple: "writes (write_node d (P_TupleGt cs vals)) 4 d eng (\<lambda>r. sat eng r (P_TupleGt cs vals))"
  unfolding writes_def
proof (intro allI)
  fix sql :: string and vs :: "sql_value list"
  define ns where "ns = [length vs..<length vs + length vals]"
  have written: "write_node d (P_TupleGt cs vals) (sql, vs)
      = (sql @ ''('' @ join '', '' cs @ '') > ('' @ join '', '' (map (\<lambda>i. placeholder d (i + 1)) ns) @ '')'', vs @ vals)"
    by (cases "vals = []") (simp_all add: push_str_def write_values_text ns_def)
  have "map ((!) (vs @ vals @ rest)) ns = vals" "list_all (\<lambda>i. i < length (vs @ vals @ rest)) ns" for rest
    by (auto simp: ns_def list_all_iff nth_append intro!: nth_equalityI)
  then have "sql_at 4 d eng (vs @ vals @ rest)
      (''('' @ join '', '' cs @ '') > ('' @ join '', '' (map (\<lambda>i. placeholder d (i + 1)) ns) @ '')'')
      (\<lambda>r. sat eng r (P_TupleGt cs vals))" for rest
    using tuple [of "vs @ vals @ rest" ns d eng cs] by (simp add: sql_at_def)
  with written show "\<exists>t us. write_node d (P_TupleGt cs vals) (sql, vs) = (sql @ t, vs @ us)
      \<and> (\<forall>rest. sql_at 4 d eng (vs @ us @ rest) t (\<lambda>r. sat eng r (P_TupleGt cs vals)))" by blast
qed

lemma writes_has: "writes (write_node d (P_Has c t)) 4 d eng (\<lambda>r. sat eng r (P_Has c t))"
  unfolding writes_def
proof (intro allI)
  fix sql :: string and vs :: "sql_value list"
  obtain leaf us where h: "render_has d c t (length vs + 1) = (leaf, us)" by fastforce
  have "sql_at 4 d eng (vs @ us @ rest) leaf (\<lambda>r. sat eng r (P_Has c t))" for rest
    using has [OF h, of "vs @ us @ rest" eng] by (simp add: sql_at_def)
  with h show "\<exists>leaf us. write_node d (P_Has c t) (sql, vs) = (sql @ leaf, vs @ us)
      \<and> (\<forall>rest. sql_at 4 d eng (vs @ us @ rest) leaf (\<lambda>r. sat eng r (P_Has c t)))" by auto
qed

lemma writes_join:
  assumes "chain k sep comb"
    and "\<And>p. p \<in> set ps \<Longrightarrow> writes (write p) (precedence p) d eng (\<lambda>r. sat eng r p)"
    and "\<And>rest. ps = [] \<Longrightarrow> sql_unit d eng rest e (\<lambda>r. g r [])"
    and "\<And>r b bs. g r (b # bs) = foldl comb b bs"
  shows "writes (write_join write ps sep k e) k d eng (\<lambda>r. g r (map (sat eng r) ps))"
proof (cases ps)
  case Nil
  have "sql_at k d eng bs e (\<lambda>r. g r [])" for bs
    using assms(1,3) Nil by (auto simp: chain_def sql_at_def intro: and_one or_one)
  then show ?thesis using Nil by (simp add: writes_def write_join_def push_str_def)
next
  case (Cons p qs)
  from writes_parts [of k sep comb ps p qs "write" d eng "\<lambda>p r. sat eng r p", OF assms(1) Cons assms(2)]
  show ?thesis using assms(4) Cons by (simp add: map_map comp_def)
qed

lemma writes_node: "writes (write_node d p) (precedence p) d eng (\<lambda>r. sat eng r p)"
proof (induction p)
  case (P_All ps)
  have "writes (write_join (write_node d) ps '' AND '' 2 ''1 = 1'') 2 d eng (\<lambda>r. all3 (map (sat eng r) ps))"
    using P_All
    by (intro writes_join [where comb = and3 and g = "\<lambda>r. all3"])
      (auto simp: chain_def all3_def foldl_and3 [unfolded all3_def] intro: always)
  then show ?case by (simp add: writes_def)
next
  case (P_Any ps)
  have "writes (write_join (write_node d) ps '' OR '' 1 ''1 = 0'') 1 d eng (\<lambda>r. any3 (map (sat eng r) ps))"
    using P_Any
    by (intro writes_join [where comb = or3 and g = "\<lambda>r. any3"])
      (auto simp: chain_def any3_def foldl_or3 [unfolded any3_def] intro: never)
  then show ?case by (simp add: writes_def)
next
  case (P_Not p)
  have child: "writes (write_child (write_node d) p 3) 3 d eng (\<lambda>r. sat eng r p)"
    using P_Not by (intro writes_child) auto
  have "\<exists>t us. write_node d (P_Not p) (sql, vs) = (sql @ t, vs @ us)
      \<and> (\<forall>rest. sql_at 3 d eng (vs @ us @ rest) t (\<lambda>r. not3 (sat eng r p)))" for sql vs
  proof -
    obtain t us where c: "write_child (write_node d) p 3 (sql @ ''NOT '', vs) = ((sql @ ''NOT '') @ t, vs @ us)"
        "\<And>rest. sql_at 3 d eng (vs @ us @ rest) t (\<lambda>r. sat eng r p)"
      using child unfolding writes_def by blast
    have "sql_at 3 d eng (vs @ us @ rest) (''NOT '' @ t) (\<lambda>r. not3 (sat eng r p))" for rest
      using c(2) [of rest] negation by (auto simp: sql_at_def)
    with c(1) show ?thesis by (intro exI [of _ "''NOT '' @ t"] exI [of _ us]) (simp add: push_str_def)
  qed
  then show ?case by (simp add: writes_def)
next
  case (P_IsNull c)
  have "sql_unit d eng bs (c @ '' IS NULL'') (\<lambda>r. sat eng r (P_IsNull c))" for bs
    using is_null [of d eng bs c] by simp
  then show ?case by (simp add: writes_def push_str_def sql_at_def)
next
  case (P_Raw s)
  then show ?case by (simp add: writes_def push_str_def sql_at_def)
qed (simp_all only: precedence.simps writes_compare writes_has writes_tuple)

text \<open>C4: The rendered SQL means the predicate. Read with SQL's precedences (\<open>NOT\<close>, then \<open>AND\<close>, then
  \<open>OR\<close>), each placeholder standing for the bound value of its number, the text of any predicate but a
  bare fragment denotes in every engine what the predicate denotes: the parentheses that are
  written are enough, and every placeholder is numbered for its own value.\<close>

theorem rendered_sql_means_predicate:
  fixes eng :: "('r, 'k::linorder) engine"
  assumes "precedence p \<noteq> 0"
  shows "sql_or d eng (snd (render d p)) (fst (render d p)) (\<lambda>r. sat eng r p)"
proof -
  from writes_node [of d p eng] obtain t us where
    "write_node d p ([], []) = ([] @ t, [] @ us)" "\<forall>rest. sql_at (precedence p) d eng ([] @ us @ rest) t (\<lambda>r. sat eng r p)"
    unfolding writes_def by blast
  then have "render d p = (t, us)" "sql_at (precedence p) d eng us t (\<lambda>r. sat eng r p)"
    by (simp_all add: render_def) (metis append_Nil2)
  with assms show ?thesis by (simp add: sql_at_or)
qed

theorem rendered_sql_means_predicate_witness:
  "sql_or Sqlite demo_engine [S_Int 1, S_Int 2] ''(a = ?1 OR b = ?2) AND (x)''
     (\<lambda>r. sat demo_engine r (P_All [P_Any [pred_eq ''a'' (S_Int 1), pred_eq ''b'' (S_Int 2)], P_Raw ''x'']))"
proof -
  let ?p = "P_All [P_Any [pred_eq ''a'' (S_Int 1), pred_eq ''b'' (S_Int 2)], P_Raw ''x'']"
  have "show_nat (Suc 0) = ''1''" "show_nat (Suc (Suc 0)) = ''2''"
    by code_simp+
  then have "render Sqlite ?p = (''(a = ?1 OR b = ?2) AND (x)'', [S_Int 1, S_Int 2])"
    by (simp add: render_def pred_eq_def write_join_def write_child_def push_str_def push_bind_def
        write_column_def Sqlite_def sqlite_placeholder_def digit_char_def)
  with rendered_sql_means_predicate [of ?p Sqlite demo_engine] show ?thesis by simp
qed

end
