(* ===== verification/Sql_Schema.thy ===== *)
theory Sql_Schema
  imports Sql_Predicate Sql_Dialect F_Checker Ordering "HOL-Library.AList"
begin

text \<open>
  \<open>crates/aip-sql/src/lib.rs\<close> (errors), \<open>schema.rs\<close>, \<open>order.rs\<close> and \<open>query.rs\<close>: which identifiers are
  columns, the \<open>ORDER BY\<close> of a parsed \<open>order_by\<close>, and the clause tail of a list query. A hash map is
  the list of its entries, one per key, in iteration order; code that iterates one is modelled for
  an arbitrary such order.
\<close>

subsection \<open>Errors\<close>

datatype sql_error = Unsupported string | UnknownIdentifier string | InvalidDuration string

fun sql_error_display :: "sql_error \<Rightarrow> string" where
  "sql_error_display (Unsupported detail) = ''unsupported filter construct: '' @ detail"
| "sql_error_display (UnknownIdentifier name) =
     ''filter identifier `'' @ name @ ''` is not a filterable column''"
| "sql_error_display (InvalidDuration literal) =
     ''invalid duration literal `'' @ literal @ ''`: expected a number of seconds like `3600s`''"

definition sql_status :: "sql_error \<Rightarrow> status" where
  "sql_status err =
     (case err of
        Unsupported detail \<Rightarrow>
          detailed_status Code_InvalidArgument (sql_error_display err) ''FILTER_UNSUPPORTED''
            [(''detail'', detail)] []
      | InvalidDuration literal \<Rightarrow>
          detailed_status Code_InvalidArgument (sql_error_display err) ''FILTER_INVALID_DURATION''
            [(''literal'', literal)] []
      | UnknownIdentifier _ \<Rightarrow> plain_status Code_Internal (sql_error_display err))"

interpretation sql_err: error_mapping sql_status
  by unfold_locales (auto simp: sql_status_def split: sql_error.splits)

subsection \<open>The column schema\<close>

record schema =
  sch_columns :: "(string \<times> string) list"
  sch_sortable :: "string list"
  sch_types :: "(string \<times> ftype) list"

record schema_builder =
  sb_columns :: "(string \<times> string) list"
  sb_sortable :: "string list"
  sb_types :: "(string \<times> ftype) list"

definition schema_builder_new :: schema_builder where
  "schema_builder_new = \<lparr>sb_columns = [], sb_sortable = [], sb_types = []\<rparr>"

definition is_sortable_type :: "ftype \<Rightarrow> bool" where
  "is_sortable_type ty \<longleftrightarrow> ty \<in> {TString, TInt, TUint, TDouble, TBool, TTimestamp}"

text \<open>\<open>None\<close> is the panic of \<open>field_paths\<close>, which built declarations never reach.\<close>

definition add_declared :: "string \<times> ftype \<Rightarrow> schema_builder \<Rightarrow> schema_builder" where
  "add_declared decl b =
     (case decl of (path, ty) \<Rightarrow>
        (let b = b\<lparr>sb_columns := AList.update path path (sb_columns b),
                   sb_types := AList.update path ty (sb_types b)\<rparr>
         in if is_sortable_type ty then b\<lparr>sb_sortable := List.insert path (sb_sortable b)\<rparr> else b))"

definition for_declarations :: "declarations \<Rightarrow> schema_builder option" where
  "for_declarations d =
     (case field_paths d of
        None \<Rightarrow> None
      | Some paths \<Rightarrow> Some (fold add_declared paths schema_builder_new))"

definition sb_column :: "string \<Rightarrow> string \<Rightarrow> schema_builder \<Rightarrow> schema_builder" where
  "sb_column identifier column b =
     b\<lparr>sb_columns := AList.update identifier column (sb_columns b),
       sb_sortable := List.insert identifier (sb_sortable b)\<rparr>"

definition sb_sort_only :: "string \<Rightarrow> string \<Rightarrow> schema_builder \<Rightarrow> schema_builder" where
  "sb_sort_only identifier column b =
     b\<lparr>sb_columns := AList.update identifier column (sb_columns b),
       sb_sortable := List.insert identifier (sb_sortable b)\<rparr>"

definition schema_build :: "schema_builder \<Rightarrow> schema" where
  "schema_build b =
     \<lparr>sch_columns = sb_columns b, sch_sortable = sb_sortable b,
      sch_types = fold (\<lambda>(path, column) types.
          case map_of (sb_types b) path of
            Some ty \<Rightarrow> AList.update column ty types | None \<Rightarrow> types) (sb_columns b) []\<rparr>"

definition schema_column :: "schema \<Rightarrow> string \<Rightarrow> string option" where
  "schema_column s identifier = map_of (sch_columns s) identifier"

definition column_type :: "schema \<Rightarrow> string \<Rightarrow> ftype option" where
  "column_type s column = map_of (sch_types s) column"

definition sortable_paths :: "schema \<Rightarrow> string list" where
  "sortable_paths s = sort (sch_sortable s)"

subsection \<open>\<open>ORDER BY\<close>\<close>

record seek_column =
  sk_column :: string
  sk_field_path :: string
  sk_type :: ftype

record sql_order =
  so_column :: string
  so_desc :: bool

definition order_asc :: "string \<Rightarrow> sql_order" where
  "order_asc column = \<lparr>so_column = column, so_desc = False\<rparr>"

definition order_desc :: "string \<Rightarrow> sql_order" where
  "order_desc column = \<lparr>so_column = column, so_desc = True\<rparr>"

definition order_direction :: "sql_order \<Rightarrow> direction" where
  "order_direction ord = (if so_desc ord then Dir_Desc else Dir_Asc)"

definition order_item :: "schema \<Rightarrow> order_by_field \<Rightarrow> sql_error + seek_column \<times> sql_order" where
  "order_item s field =
     (case schema_column s (ob_path field) of
        None \<Rightarrow> Inl (UnknownIdentifier (ob_path field))
      | Some column \<Rightarrow>
          Inr (\<lparr>sk_column = column, sk_field_path = ob_path field,
                sk_type = (case column_type s column of Some ty \<Rightarrow> ty | None \<Rightarrow> TString)\<rparr>,
               \<lparr>so_column = column, so_desc = ob_desc field\<rparr>))"

definition add_key :: "string \<Rightarrow> seek_column list \<times> sql_order list \<Rightarrow> seek_column list \<times> sql_order list" where
  "add_key key acc =
     (case acc of (columns, orders) \<Rightarrow>
        if list_ex (\<lambda>ord. so_column ord = key) orders then (columns, orders)
        else (columns @ [\<lparr>sk_column = key, sk_field_path = key, sk_type = TString\<rparr>],
              orders @ [order_asc key]))"

definition transpile_order_by ::
  "order_by \<Rightarrow> schema \<Rightarrow> string list \<Rightarrow> sql_error + seek_column list \<times> sql_order list" where
  "transpile_order_by fs s key_columns =
     res_bind (try_map (order_item s) fs) (\<lambda>items.
       Inr (fold add_key key_columns (map fst items, map snd items)))"

definition render_order_by :: "sql_order list \<Rightarrow> string" where
  "render_order_by items =
     join '', '' (map (\<lambda>ord. so_column ord @ '' '' @ (if so_desc ord then ''DESC'' else ''ASC'')) items)"

subsection \<open>The clause tail\<close>

record query =
  q_filter :: "predicate option"
  q_order :: "sql_order list"
  q_limit :: "nat option"
  q_offset :: "nat option"

definition query_new :: query where
  "query_new = \<lparr>q_filter = None, q_order = [], q_limit = None, q_offset = None\<rparr>"

definition query_filter :: "predicate \<Rightarrow> query \<Rightarrow> query" where
  "query_filter p q = q\<lparr>q_filter := Some p\<rparr>"

definition query_order_by :: "sql_order list \<Rightarrow> query \<Rightarrow> query" where
  "query_order_by items q = q\<lparr>q_order := items\<rparr>"

definition query_limit :: "nat \<Rightarrow> query \<Rightarrow> query" where
  "query_limit n q = q\<lparr>q_limit := Some n\<rparr>"

definition query_offset :: "nat \<Rightarrow> query \<Rightarrow> query" where
  "query_offset n q = q\<lparr>q_offset := Some n\<rparr>"

definition query_render :: "dialect \<Rightarrow> query \<Rightarrow> string \<times> sql_value list" where
  "query_render d q =
     (let (where_clause, binds) =
            (case q_filter q of
               Some f \<Rightarrow> (case render d f of (where_sql, where_binds) \<Rightarrow> ([''WHERE '' @ where_sql], where_binds))
             | None \<Rightarrow> ([], []));
          clauses = where_clause
            @ (if q_order q \<noteq> [] then [''ORDER BY '' @ render_order_by (q_order q)] else [])
            @ (case q_limit q of Some n \<Rightarrow> [''LIMIT '' @ show_nat n] | None \<Rightarrow> [])
            @ (case q_offset q of Some n \<Rightarrow> [''OFFSET '' @ show_nat n] | None \<Rightarrow> [])
      in (join '' '' clauses, binds))"

subsection \<open>The order is total\<close>

definition order_key :: "sql_order list \<Rightarrow> sort_key" where
  "order_key orders = map (\<lambda>ord. (so_column ord, order_direction ord)) orders"

lemma add_key_columns:
  "map sk_column cols = map so_column ords \<Longrightarrow>
   (case add_key k (cols, ords) of (cols', ords') \<Rightarrow>
      map sk_column cols' = map so_column ords' \<and> set (map so_column ords') = insert k (set (map so_column ords))
      \<and> (\<exists>more. ords' = ords @ more \<and> list_all (\<lambda>ord. \<not> so_desc ord) more))"
  by (auto simp: add_key_def order_asc_def list_ex_iff)

lemma add_keys_columns:
  "map sk_column cols = map so_column ords \<Longrightarrow> fold add_key keys (cols, ords) = (cols', ords') \<Longrightarrow>
   map sk_column cols' = map so_column ords' \<and> set (map so_column ords') = set keys \<union> set (map so_column ords)
   \<and> (\<exists>more. ords' = ords @ more \<and> list_all (\<lambda>ord. \<not> so_desc ord) more)"
proof (induction keys arbitrary: cols ords)
  case (Cons k keys)
  obtain cols1 ords1 where one: "add_key k (cols, ords) = (cols1, ords1)" by fastforce
  with add_key_columns [OF Cons.prems(1), of k] obtain more where step:
    "map sk_column cols1 = map so_column ords1" "set (map so_column ords1) = insert k (set (map so_column ords))"
    "ords1 = ords @ more" "list_all (\<lambda>ord. \<not> so_desc ord) more" by (auto simp only: prod.case)
  from Cons.prems(2) one have "fold add_key keys (cols1, ords1) = (cols', ords')" by simp
  from Cons.IH [OF step(1) this] step show ?case by auto
qed auto

lemma order_items:
  "try_map (order_item s) fs = Inr items \<Longrightarrow>
   map sk_column (map fst items) = map so_column (map snd items)
   \<and> list_all2 (\<lambda>f ord. schema_column s (ob_path f) = Some (so_column ord) \<and> so_desc ord = ob_desc f) fs (map snd items)"
  by (induction fs arbitrary: items) (auto simp: order_item_def split: sum.splits option.splits)

lemma follows_total:
  fixes eng :: "('r, 'k::linorder) engine"
  assumes "(c, dir) \<in> set key" and "en_key eng (en_column eng r c) \<noteq> en_key eng (en_column eng s c)"
  shows "sorted_before eng key r s \<or> sorted_before eng key s r"
  using assms(1)
proof (induction key)
  case (Cons p key)
  obtain c' dir' where p: "p = (c', dir')" by (cases p)
  show ?case
  proof (cases "en_key eng (en_column eng r c') = en_key eng (en_column eng s c')")
    case True
    with Cons.prems assms(2) p have "(c, dir) \<in> set key" by auto
    from Cons.IH [OF this] True show ?thesis
      by (simp add: sorted_before_def cursor_items_def p)
  next
    case False
    then show ?thesis by (auto simp: sorted_before_def cursor_items_def p Let_def)
  qed
qed simp

text \<open>C28: A transpiled \<open>order_by\<close> is a total order over its own seek columns. The columns a cursor is
  read from are, position by position, the columns sorted by; the clause begins with the requested
  fields, each mapped to its column in its direction, and only adds ascending key columns; every key
  column is in it, so in any engine two rows that differ in a key column are never tied. A field
  without a column is refused.\<close>

theorem transpiled_order_is_total:
  fixes eng :: "('r, 'k::linorder) engine"
  assumes "transpile_order_by fs s keys = Inr (columns, orders)"
  shows "map sk_column columns = map so_column orders
    \<and> list_all2 (\<lambda>f ord. schema_column s (ob_path f) = Some (so_column ord) \<and> so_desc ord = ob_desc f)
         fs (take (length fs) orders)
    \<and> list_all (\<lambda>ord. \<not> so_desc ord) (drop (length fs) orders)
    \<and> set keys \<subseteq> set (map so_column orders)
    \<and> ((\<exists>k \<in> set keys. en_key eng (en_column eng r k) \<noteq> en_key eng (en_column eng r' k)) \<longrightarrow>
         sorted_before eng (order_key orders) r r' \<or> sorted_before eng (order_key orders) r' r)"
proof -
  from assms obtain items where items: "try_map (order_item s) fs = Inr items"
    and keys: "fold add_key keys (map fst items, map snd items) = (columns, orders)"
    by (auto simp: transpile_order_by_def res_bind_Inr_iff)
  from add_keys_columns [OF conjunct1 [OF order_items [OF items]] keys] obtain more where more:
    "map sk_column columns = map so_column orders"
    "set (map so_column orders) = set keys \<union> set (map so_column (map snd items))"
    "orders = map snd items @ more" "list_all (\<lambda>ord. \<not> so_desc ord) more" by blast
  have fields: "list_all2 (\<lambda>f ord. schema_column s (ob_path f) = Some (so_column ord) \<and> so_desc ord = ob_desc f)
      fs (map snd items)"
    using order_items [OF items] by blast
  then have "length fs = length items" by (auto dest: list_all2_lengthD)
  then have "take (length fs) orders = map snd items" "drop (length fs) orders = more"
    using more(3) by simp_all
  moreover have "sorted_before eng (order_key orders) r r' \<or> sorted_before eng (order_key orders) r' r"
    if "k \<in> set keys" "en_key eng (en_column eng r k) \<noteq> en_key eng (en_column eng r' k)" for k
  proof -
    have "k \<in> so_column ` set orders" using that(1) more(2) by auto
    then obtain dir where "(k, dir) \<in> set (order_key orders)" by (auto simp: order_key_def)
    then show ?thesis using that(2) by (rule follows_total)
  qed
  ultimately show ?thesis using more(1,2,4) fields by auto
qed

theorem transpiled_order_is_total_witness:
  "transpile_order_by [\<lparr>ob_path = ''size'', ob_desc = True\<rparr>]
       \<lparr>sch_columns = [(''size'', ''size'')], sch_sortable = [''size''], sch_types = [(''size'', TInt)]\<rparr> [''name'']
     = Inr ([\<lparr>sk_column = ''size'', sk_field_path = ''size'', sk_type = TInt\<rparr>,
             \<lparr>sk_column = ''name'', sk_field_path = ''name'', sk_type = TString\<rparr>],
            [order_desc ''size'', order_asc ''name''])
   \<and> (sorted_before demo_engine (order_key [order_desc ''size'', order_asc ''name'']) (7, 1) (7, 2)
      \<or> sorted_before demo_engine (order_key [order_desc ''size'', order_asc ''name'']) (7, 2) (7, 1))"
proof -
  let ?fs = "[\<lparr>ob_path = ''size'', ob_desc = True\<rparr>]"
  let ?s = "\<lparr>sch_columns = [(''size'', ''size'')], sch_sortable = [''size''], sch_types = [(''size'', TInt)]\<rparr>"
  have run: "transpile_order_by ?fs ?s [''name'']
     = Inr ([\<lparr>sk_column = ''size'', sk_field_path = ''size'', sk_type = TInt\<rparr>,
             \<lparr>sk_column = ''name'', sk_field_path = ''name'', sk_type = TString\<rparr>],
            [order_desc ''size'', order_asc ''name''])"
    by (simp add: transpile_order_by_def order_item_def schema_column_def column_type_def add_key_def
        order_asc_def order_desc_def)
  have "en_key demo_engine (en_column demo_engine (7, 1) ''name'')
      \<noteq> en_key demo_engine (en_column demo_engine (7, 2) ''name'')"
    by (simp add: demo_engine_def demo_key_def)
  with transpiled_order_is_total [OF run, of demo_engine "(7, 1)" "(7, 2)"] run show ?thesis by simp
qed

end
