(* ===== verification/F64_Text.thy ===== *)
theory F64_Text
  imports F64
begin

text \<open>
  The text forms of \<open>f64\<close> in Rust's standard library that the crates use: \<open>str::parse::<f64>\<close> with
  its whole grammar, and \<open>{:?}\<close>.
\<close>

definition ascii_lower :: "char \<Rightarrow> char" where
  "ascii_lower c = (if is_upper c then char_of (of_char c + 32 :: nat) else c)"

text \<open>The exponent after \<open>e\<close>: an optional sign and at least one digit, to the end of the text.\<close>

definition parse_scientific :: "string \<Rightarrow> int option" where
  "parse_scientific s =
     (let negative = (case s of c # _ \<Rightarrow> c = CHR ''-'' | [] \<Rightarrow> False);
          s = (case s of c # t \<Rightarrow> if c = CHR ''-'' \<or> c = CHR ''+'' then t else s | [] \<Rightarrow> s);
          n = foldl (\<lambda>n c. if n < 65536 then 10 * n + int (digit_value c) else n) 0 s
      in if s \<noteq> [] \<and> list_all is_digit s then Some (if negative then - n else n) else None)"

text \<open>The decimal mantissa and exponent of a number without its sign.\<close>

definition parse_number :: "string \<Rightarrow> (nat \<times> int) option" where
  "parse_number s =
     (let ip = takeWhile is_digit s;
          rest = dropWhile is_digit s;
          (fp, rest) = (case rest of
                          c # t \<Rightarrow> if c = CHR ''.'' then (takeWhile is_digit t, dropWhile is_digit t) else ([], rest)
                        | [] \<Rightarrow> ([], []))
      in if ip @ fp = [] then None
         else (case rest of
                 [] \<Rightarrow> Some (decimal (ip @ fp), - int (length fp))
               | c # t \<Rightarrow>
                   if ascii_lower c = CHR ''e''
                   then map_option (\<lambda>e. (decimal (ip @ fp), e - int (length fp))) (parse_scientific t)
                   else None))"

definition f64_of_decimal :: "bool \<Rightarrow> nat \<Rightarrow> int \<Rightarrow> f64" where
  "f64_of_decimal neg m e =
     (if e \<ge> 0 then f64_of_fraction neg (m * 10 ^ nat e) 1 else f64_of_fraction neg m (10 ^ nat (- e)))"

definition f64_from_str :: "string \<Rightarrow> f64 option" where
  "f64_from_str s =
     (let negative = (case s of c # _ \<Rightarrow> c = CHR ''-'' | [] \<Rightarrow> False);
          s = (case s of c # t \<Rightarrow> if c = CHR ''-'' \<or> c = CHR ''+'' then t else s | [] \<Rightarrow> s)
      in case parse_number s of
           Some (m, e) \<Rightarrow> Some (f64_of_decimal negative m e)
         | None \<Rightarrow>
             (let w = map ascii_lower s in
              if w = ''nan'' then Some NaN
              else if w = ''inf'' \<or> w = ''infinity'' then Some (Inf negative)
              else None))"

text \<open>\<open>{:?}\<close>: the shortest digits that read back as the number, the closer of two such.\<close>

definition below_power :: "nat \<Rightarrow> nat \<Rightarrow> int \<Rightarrow> bool" where
  "below_power n d k \<longleftrightarrow> (if k \<ge> 0 then n < d * 10 ^ nat k else n * 10 ^ nat (- k) < d)"

definition digits_at :: "nat \<Rightarrow> int \<Rightarrow> int \<Rightarrow> nat \<Rightarrow> nat option" where
  "digits_at m e k len =
     (let (n, d) = (if e \<ge> 0 then (m * 2 ^ nat e, 1) else (m, 2 ^ nat (- e)));
          x = int len - k;
          (n, d) = (if x \<ge> 0 then (n * 10 ^ nat x, d) else (n, d * 10 ^ nat (- x)));
          q = n div d;
          reads = (\<lambda>c. f64_of_decimal False c (- x) = Fin False m e)
      in if reads q \<and> (2 * (n mod d) \<le> d \<or> \<not> reads (q + 1)) then Some q
         else if reads (q + 1) then Some (q + 1) else None)"

text \<open>The digits and the decimal exponent \<open>k\<close>, for the number \<open>0.digits * 10 ^ k\<close>.\<close>

definition shortest :: "nat \<Rightarrow> int \<Rightarrow> string \<times> int" where
  "shortest m e =
     (let (n, d) = (if e \<ge> 0 then (m * 2 ^ nat e, 1) else (m, 2 ^ nat (- e)));
          k = (case find (below_power n d) [- 330..310] of Some k \<Rightarrow> k | None \<Rightarrow> 0)
      in case find (\<lambda>len. digits_at m e k len \<noteq> None) [1..<18] of
           Some len \<Rightarrow>
             (let s = show_nat (the (digits_at m e k len)) in
              (rev (dropWhile (\<lambda>x. x = CHR ''0'') (rev s)), if length s > len then k + 1 else k))
         | None \<Rightarrow> ([], k))"

definition f64_debug :: "f64 \<Rightarrow> string" where
  "f64_debug x =
     (case x of
        NaN \<Rightarrow> ''NaN''
      | Inf neg \<Rightarrow> (if neg then ''-inf'' else ''inf'')
      | Fin neg m e \<Rightarrow>
          (if neg then ''-'' else []) @
          (if m = 0 then ''0.0''
           else
             (let (ds, k) = shortest m e; len = int (length ds) in
              if k < - 3 \<or> k > 16 then
                [hd ds] @ (if len = 1 then [] else ''.'' @ tl ds) @ ''e'' @ show_int (k - 1)
              else if k \<le> 0 then ''0.'' @ replicate (nat (- k)) CHR ''0'' @ ds
              else if len \<le> k then ds @ replicate (nat (k - len)) CHR ''0'' @ ''.0''
              else take (nat k) ds @ ''.'' @ drop (nat k) ds)))"

end
