(* ===== verification/F_Debug.thy ===== *)
theory F_Debug
  imports F_Checker F64_Text
begin

text \<open>The \<open>{:?}\<close> text of a filter expression, which two error messages contain.\<close>

subsection \<open>The derived \<open>{:?}\<close> of an expression\<close>

fun const_debug :: "unicode_tables \<Rightarrow> const \<Rightarrow> string" where
  "const_debug u (CInt i) = ''Int('' @ show_int i @ '')''"
| "const_debug u (CUint n) = ''Uint('' @ show_nat n @ '')''"
| "const_debug u (CDouble d) = ''Double('' @ f64_debug d @ '')''"
| "const_debug u (CBool b) = ''Bool('' @ (if b then ''true'' else ''false'') @ '')''"
| "const_debug u (CString s) = ''String('' @ str_debug u s @ '')''"
| "const_debug u (CBytes bs) =
     ''Bytes(['' @ join '', '' (map (\<lambda>b. show_nat (of_char b)) bs) @ ''])''"

fun expr_debug :: "unicode_tables \<Rightarrow> fexpr \<Rightarrow> string" where
  "expr_debug u (Const c) = ''Const('' @ const_debug u c @ '')''"
| "expr_debug u (Ident name) = ''Ident('' @ str_debug u name @ '')''"
| "expr_debug u (Select operand field) =
     ''Select { operand: '' @ expr_debug u operand @ '', field: '' @ str_debug u field @ '' }''"
| "expr_debug u (Call fn args) =
     ''Call { function: '' @ str_debug u fn @ '', args: ['' @ join '', '' (map (expr_debug u) args) @ ''] }''"

end
