(* ===== verification/Sql_Transpile.thy ===== *)
theory Sql_Transpile
  imports Sql_Schema F_Debug
begin

text \<open>
  \<open>crates/aip-sql/src/transpile.rs\<close>: lowering a checked filter to a predicate. What a filter means is
  stated directly on the filter's syntax tree; the predicate means the same, and no literal of the
  filter is in the SQL text.
\<close>

subsection \<open>Operands\<close>

datatype operand = Operand_Column sql_column | Operand_Value sql_value

text \<open>\<open>*u as i64\<close> wraps.\<close>

definition uint_as_i64 :: "nat \<Rightarrow> int" where
  "uint_as_i64 n = (if n < 2 ^ 63 then int n else int n - 2 ^ 64)"

fun to_value :: "const \<Rightarrow> sql_value" where
  "to_value (CInt i) = S_Int i"
| "to_value (CUint n) = S_Int (uint_as_i64 n)"
| "to_value (CDouble d) = S_Double d"
| "to_value (CBool b) = S_Bool b"
| "to_value (CString s) = S_Text s"
| "to_value (CBytes bs) = S_Bytes bs"

definition parse_duration_seconds :: "string \<Rightarrow> sql_error + f64" where
  "parse_duration_seconds literal =
     ok_or (InvalidDuration literal) (Option.bind (strip_suffix ''s'' literal) f64_from_str)"

definition classify_constructor :: "string \<Rightarrow> fexpr list \<Rightarrow> sql_error + operand" where
  "classify_constructor name args =
     (let invalid = Inl (Unsupported (''`'' @ name @ ''` is not valid in comparison operand position'')) in
      case args of
        [Const (CString t)] \<Rightarrow>
          if name = ''timestamp'' then Inr (Operand_Value (S_Text t))
          else if name = ''duration''
          then res_bind (parse_duration_seconds t) (\<lambda>secs. Inr (Operand_Value (S_Double secs)))
          else invalid
      | _ \<Rightarrow> invalid)"

definition classify_select :: "schema \<Rightarrow> fexpr \<Rightarrow> sql_error + operand" where
  "classify_select s expr =
     (case (case qualified_name expr of None \<Rightarrow> None | Some qualified \<Rightarrow> schema_column s qualified) of
        Some column \<Rightarrow> Inr (Operand_Column (Col_Plain column))
      | None \<Rightarrow>
          (case (case expr of
                   Select (Ident base) field \<Rightarrow>
                     map_option (\<lambda>column. Col_MapMember column field) (schema_column s base)
                 | _ \<Rightarrow> None) of
             Some member \<Rightarrow> Inr (Operand_Column member)
           | None \<Rightarrow>
               Inl (UnknownIdentifier (case qualified_name expr of Some q \<Rightarrow> q | None \<Rightarrow> ''<member>''))))"

definition classify :: "declarations \<Rightarrow> schema \<Rightarrow> fexpr \<Rightarrow> sql_error + operand" where
  "classify d s expr =
     (case expr of
        Ident name \<Rightarrow>
          (case schema_column s name of
             Some column \<Rightarrow> Inr (Operand_Column (Col_Plain column))
           | None \<Rightarrow>
               (case ident_type d name of
                  Some (TEnum _) \<Rightarrow> Inr (Operand_Value (S_Text name))
                | _ \<Rightarrow> Inl (UnknownIdentifier name)))
      | Const c \<Rightarrow> Inr (Operand_Value (to_value c))
      | Call fn args \<Rightarrow> classify_constructor fn args
      | Select _ _ \<Rightarrow> classify_select s expr)"

subsection \<open>Leaves and calls\<close>

definition transpile_compare ::
  "declarations \<Rightarrow> schema \<Rightarrow> cmp_op \<Rightarrow> fexpr \<Rightarrow> fexpr \<Rightarrow> sql_error + predicate" where
  "transpile_compare d s op left right =
     res_bind (classify d s left) (\<lambda>l.
       res_bind (classify d s right) (\<lambda>r.
         case (l, r) of
           (Operand_Column column, Operand_Value v) \<Rightarrow> Inr (P_Compare column op v)
         | (Operand_Value v, Operand_Column column) \<Rightarrow> Inr (P_Compare column (mirror op) v)
         | (Operand_Column _, Operand_Column _) \<Rightarrow>
             Inl (Unsupported ''a comparison between two columns is not supported'')
         | (Operand_Value _, Operand_Value _) \<Rightarrow>
             Inl (Unsupported ''a comparison must reference a filterable column'')))"

definition has_test_for :: "unicode_tables \<Rightarrow> ftype \<Rightarrow> string \<Rightarrow> sql_error + has_test" where
  "has_test_for u ty arg =
     (case ty of
        TString \<Rightarrow> Inr (Has_Substring arg)
      | TMap _ _ \<Rightarrow> Inr (Has_Key arg)
      | TList _ \<Rightarrow> Inr (Has_Element arg)
      | TTimestamp \<Rightarrow> Inr Has_Present
      | other \<Rightarrow> Inl (Unsupported (''the has operator does not apply to a '' @ type_debug u other @ '' column'')))"

definition transpile_has ::
  "unicode_tables \<Rightarrow> declarations \<Rightarrow> schema \<Rightarrow> fexpr \<Rightarrow> fexpr \<Rightarrow> sql_error + predicate" where
  "transpile_has u d s left right =
     (case right of
        Const (CString arg) \<Rightarrow>
          res_bind (ok_or (Unsupported (''the has operator'' @ [CHR 0x27] @ ''s left operand must be a filterable column''))
                     (qualified_name left)) (\<lambda>name.
            res_bind (ok_or (UnknownIdentifier name) (schema_column s name)) (\<lambda>column.
              res_bind (ok_or (UnknownIdentifier name) (ident_type d name)) (\<lambda>ty.
                res_bind (has_test_for u ty arg) (\<lambda>test. Inr (P_Has column test)))))
      | _ \<Rightarrow> Inl (Unsupported (''the has operator'' @ [CHR 0x27] @ ''s right operand must be a string value'')))"

definition comparison_of :: "string \<Rightarrow> cmp_op option" where
  "comparison_of name =
     map_of [(''='', Op_Eq), (''!='', Op_Ne), (''<'', Op_Lt), (''<='', Op_Le), (''>'', Op_Gt), (''>='', Op_Ge)] name"

text \<open>The arms of \<open>transpile_call\<close> for a name or an arity no other arm takes.\<close>

definition call_error :: "string \<Rightarrow> nat \<Rightarrow> sql_error" where
  "call_error name n =
     (if name = fn_AND \<or> name = fn_OR \<or> comparison_of name \<noteq> None \<or> name = '':''
      then Unsupported (''`'' @ name @ ''` expects two operands, found '' @ show_nat n)
      else if name = fn_NOT then Unsupported (''`NOT` expects one operand, found '' @ show_nat n)
      else Unsupported (''operator `'' @ name @ ''`''))"

fun transpile_expr :: "unicode_tables \<Rightarrow> declarations \<Rightarrow> schema \<Rightarrow> fexpr \<Rightarrow> sql_error + predicate" where
  "transpile_expr u d s (Call name args) =
     (case args of
        [left, right] \<Rightarrow>
          if name = fn_AND then
            res_bind (transpile_expr u d s left) (\<lambda>l.
              res_bind (transpile_expr u d s right) (\<lambda>r. Inr (P_All [l, r])))
          else if name = fn_OR then
            res_bind (transpile_expr u d s left) (\<lambda>l.
              res_bind (transpile_expr u d s right) (\<lambda>r. Inr (P_Any [l, r])))
          else (case comparison_of name of
                  Some op \<Rightarrow> transpile_compare d s op left right
                | None \<Rightarrow>
                    if name = '':'' then transpile_has u d s left right
                    else Inl (call_error name (length args)))
      | [inner] \<Rightarrow>
          if name = fn_NOT then res_bind (transpile_expr u d s inner) (\<lambda>p. Inr (P_Not p))
          else Inl (call_error name (length args))
      | _ \<Rightarrow> Inl (call_error name (length args)))"
| "transpile_expr u d s other =
     Inl (Unsupported (''expected a boolean expression, found '' @ expr_debug u other))"

definition transpile_filter ::
  "unicode_tables \<Rightarrow> filter_ \<Rightarrow> declarations \<Rightarrow> schema \<Rightarrow> sql_error + predicate" where
  "transpile_filter u filtr d s = transpile_expr u d s (flt_expr filtr)"

subsection \<open>What a filter means\<close>

text \<open>The value of an operand in a row; a path declared as one column wins over a map member.\<close>

fun operand_value ::
  "('r, 'k) engine \<Rightarrow> declarations \<Rightarrow> schema \<Rightarrow> 'r \<Rightarrow> fexpr \<Rightarrow> sql_value option" where
  "operand_value eng d s r (Const c) = Some (to_value c)"
| "operand_value eng d s r (Ident name) =
     (case schema_column s name of
        Some column \<Rightarrow> Some (en_column eng r column)
      | None \<Rightarrow> if \<exists>e. ident_type d name = Some (TEnum e) then Some (S_Text name) else None)"
| "operand_value eng d s r (Select e field) =
     (case Option.bind (qualified_name (Select e field)) (schema_column s) of
        Some column \<Rightarrow> Some (en_column eng r column)
      | None \<Rightarrow>
          (case e of
             Ident base \<Rightarrow> map_option (\<lambda>column. en_member eng r column field) (schema_column s base)
           | _ \<Rightarrow> None))"
| "operand_value eng d s r (Call name args) =
     (case args of
        [Const (CString t)] \<Rightarrow>
          if name = ''timestamp'' then Some (S_Text t)
          else if name = ''duration''
          then map_option S_Double (Option.bind (strip_suffix ''s'' t) f64_from_str)
          else None
      | _ \<Rightarrow> None)"

definition has_holds ::
  "unicode_tables \<Rightarrow> ('r, 'k) engine \<Rightarrow> declarations \<Rightarrow> schema \<Rightarrow> 'r \<Rightarrow> fexpr \<Rightarrow> string \<Rightarrow> bool option" where
  "has_holds u eng d s r left arg =
     (case qualified_name left of
        None \<Rightarrow> None
      | Some name \<Rightarrow>
          (case (schema_column s name, ident_type d name) of
             (Some column, Some TString) \<Rightarrow> en_has eng r column (Has_Substring arg)
           | (Some column, Some (TMap _ _)) \<Rightarrow> en_has eng r column (Has_Key arg)
           | (Some column, Some (TList _)) \<Rightarrow> en_has eng r column (Has_Element arg)
           | (Some column, Some TTimestamp) \<Rightarrow> en_has eng r column Has_Present
           | _ \<Rightarrow> None))"

fun filter_holds ::
  "unicode_tables \<Rightarrow> ('r, 'k::linorder) engine \<Rightarrow> declarations \<Rightarrow> schema \<Rightarrow> 'r \<Rightarrow> fexpr \<Rightarrow> bool option" where
  "filter_holds u eng d s r (Call name args) =
     (case args of
        [a, b] \<Rightarrow>
          if name = ''AND'' then and3 (filter_holds u eng d s r a) (filter_holds u eng d s r b)
          else if name = ''OR'' then or3 (filter_holds u eng d s r a) (filter_holds u eng d s r b)
          else (case comparison_of name of
                  Some op \<Rightarrow>
                    (case (operand_value eng d s r a, operand_value eng d s r b) of
                       (Some x, Some y) \<Rightarrow> compare3 eng op x y
                     | _ \<Rightarrow> None)
                | None \<Rightarrow> (case b of Const (CString arg) \<Rightarrow> has_holds u eng d s r a arg | _ \<Rightarrow> None))
      | [a] \<Rightarrow> not3 (filter_holds u eng d s r a)
      | _ \<Rightarrow> None)"
| "filter_holds u eng d s r e = None"

definition operand_meaning :: "('r, 'k) engine \<Rightarrow> 'r \<Rightarrow> operand \<Rightarrow> sql_value" where
  "operand_meaning eng r x = (case x of Operand_Column c \<Rightarrow> column_value eng r c | Operand_Value v \<Rightarrow> v)"

lemma constructor_meaning:
  "classify_constructor name args = Inr x \<Longrightarrow>
   operand_value eng d s r (Call name args) = Some (operand_meaning eng r x)"
  by (auto simp: classify_constructor_def Let_def operand_meaning_def parse_duration_seconds_def
      res_bind_Inr_iff ok_or_def split: list.splits fexpr.splits const.splits if_splits option.splits)

lemma select_meaning:
  "classify_select s (Select e field) = Inr x \<Longrightarrow>
   operand_value eng d s r (Select e field) = Some (operand_meaning eng r x)"
  by (cases "qualified_name e"; cases e)
    (auto simp: classify_select_def operand_meaning_def split: option.splits)

lemma classify_meaning:
  "classify d s e = Inr x \<Longrightarrow> operand_value eng d s r e = Some (operand_meaning eng r x)"
proof (cases e)
  case (Ident n)
  assume "classify d s e = Inr x"
  with Ident show ?thesis
    by (auto simp: classify_def operand_meaning_def split: option.splits ftype.splits)
next
  case (Select e' f)
  assume "classify d s e = Inr x"
  with Select show ?thesis by (simp only: select_meaning classify_def fexpr.case)
next
  case (Call fn args)
  assume "classify d s e = Inr x"
  with Call show ?thesis by (simp only: constructor_meaning classify_def fexpr.case)
qed (auto simp: classify_def operand_meaning_def)

lemma compare_meaning:
  assumes "transpile_compare d s op a b = Inr p"
  shows "\<exists>x y. operand_value eng d s r a = Some x \<and> operand_value eng d s r b = Some y
    \<and> sat eng r p = compare3 eng op x y"
proof -
  from assms obtain l r' where c: "classify d s a = Inr l" "classify d s b = Inr r'"
    by (auto simp: transpile_compare_def res_bind_Inr_iff)
  have "sat eng r p = compare3 eng op (operand_meaning eng r l) (operand_meaning eng r r')"
    using assms unfolding transpile_compare_def c res_bind_simps
    by (cases l; cases r') (auto simp: operand_meaning_def mirror_compare)
  with classify_meaning [OF c(1), of eng r] classify_meaning [OF c(2), of eng r] show ?thesis by simp
qed

lemma has_meaning:
  assumes "transpile_has u d s a b = Inr p"
  shows "\<exists>arg. b = Const (CString arg) \<and> sat eng r p = has_holds u eng d s r a arg"
  using assms
  by (auto simp: transpile_has_def has_test_for_def has_holds_def res_bind_Inr_iff ok_or_def
      split: fexpr.splits const.splits option.splits ftype.splits)

lemma transpile_expr_meaning:
  "transpile_expr u d s e = Inr p \<Longrightarrow> sat eng r p = filter_holds u eng d s r e"
proof (induction u d s e arbitrary: p rule: transpile_expr.induct)
  case (1 u d s name args)
  consider (two) a b where "args = [a, b]" | (one) a where "args = [a]"
    | (other) "\<nexists>a b. args = [a, b]" "\<nexists>a. args = [a]" by blast
  then show ?case
  proof cases
    case two
    show ?thesis
    proof (cases "name = fn_AND \<or> name = fn_OR")
      case True
      then show ?thesis using 1 two
        by (auto simp: res_bind_Inr_iff all3_def any3_def function_names)
    next
      case False
      show ?thesis
      proof (cases "comparison_of name")
        case None
        with "1.prems" two False have "transpile_has u d s a b = Inr p" by (simp split: if_splits)
        with has_meaning [OF this, of eng r] None two False show ?thesis by (auto simp: function_names)
      next
        case (Some op)
        with "1.prems" two False have "transpile_compare d s op a b = Inr p" by simp
        with compare_meaning [OF this, of eng r] Some two False show ?thesis by (auto simp: function_names)
      qed
    qed
  next
    case one
    with 1 show ?thesis by (auto simp: res_bind_Inr_iff split: if_splits)
  next
    case other
    then show ?thesis using "1.prems" by (auto split: list.splits)
  qed
qed simp_all

subsection \<open>No literal reaches the text\<close>

text \<open>
  The shape of a filter: its operators and the columns it names. Constants, enum value names
  (identifiers that are no column) and the keys of map members are left out.
\<close>

datatype shape = Sh_Value | Sh_Column string | Sh_Member string | Sh_Call string "shape list"

definition column_name :: "schema \<Rightarrow> fexpr \<Rightarrow> string option" where
  "column_name s e =
     (case qualified_name e of
        None \<Rightarrow> None
      | Some q \<Rightarrow> if schema_column s q = None then None else Some q)"

fun shape_of :: "schema \<Rightarrow> fexpr \<Rightarrow> shape" where
  "shape_of s (Const c) = Sh_Value"
| "shape_of s (Ident name) =
     (case column_name s (Ident name) of Some q \<Rightarrow> Sh_Column q | None \<Rightarrow> Sh_Value)"
| "shape_of s (Select e field) =
     (case column_name s (Select e field) of
        Some q \<Rightarrow> Sh_Column q
      | None \<Rightarrow> (case column_name s e of Some b \<Rightarrow> Sh_Member b | None \<Rightarrow> Sh_Value))"
| "shape_of s (Call name args) = Sh_Call name (map (shape_of s) args)"

fun operand_skeleton :: "operand \<Rightarrow> operand" where
  "operand_skeleton (Operand_Column c) = Operand_Column (column_skeleton c)"
| "operand_skeleton (Operand_Value _) = Operand_Value S_Null"

fun shape_operand :: "schema \<Rightarrow> shape \<Rightarrow> operand" where
  "shape_operand s (Sh_Column q) = Operand_Column (Col_Plain (the (schema_column s q)))"
| "shape_operand s (Sh_Member b) = Operand_Column (Col_MapMember (the (schema_column s b)) [])"
| "shape_operand s _ = Operand_Value S_Null"

lemma classify_shape: "classify d s e = Inr x \<Longrightarrow> operand_skeleton x = shape_operand s (shape_of s e)"
proof (cases e)
  case (Ident n)
  assume "classify d s e = Inr x"
  with Ident show ?thesis
    by (auto simp: classify_def column_name_def split: option.splits ftype.splits)
next
  case (Call fn args)
  assume "classify d s e = Inr x"
  with Call show ?thesis
    by (auto simp: classify_def classify_constructor_def Let_def res_bind_Inr_iff
        split: list.splits fexpr.splits const.splits if_splits)
next
  case (Select b f)
  assume "classify d s e = Inr x"
  with Select show ?thesis
    by (cases "qualified_name b"; cases b)
      (auto simp: classify_def classify_select_def column_name_def split: option.splits)
qed (auto simp: classify_def)

fun compare_shape :: "cmp_op \<Rightarrow> operand \<Rightarrow> operand \<Rightarrow> predicate" where
  "compare_shape op (Operand_Column c) _ = P_Compare c op S_Null"
| "compare_shape op (Operand_Value _) (Operand_Column c) = P_Compare c (mirror op) S_Null"
| "compare_shape op _ _ = P_All []"

lemma compare_skeleton:
  assumes "transpile_compare d s op a b = Inr p"
  shows "skeleton p = compare_shape op (shape_operand s (shape_of s a)) (shape_operand s (shape_of s b))"
proof -
  from assms obtain l r where c: "classify d s a = Inr l" "classify d s b = Inr r"
    by (auto simp: transpile_compare_def res_bind_Inr_iff)
  have "skeleton p = compare_shape op (operand_skeleton l) (operand_skeleton r)"
    using assms unfolding transpile_compare_def c res_bind_simps by (cases l; cases r) auto
  then show ?thesis using classify_shape [OF c(1)] classify_shape [OF c(2)] by simp
qed

lemma has_resolved:
  assumes "transpile_has u d s e b = Inr p"
  obtains q ty arg test where "shape_of s e = Sh_Column q" "ident_type d q = Some ty"
    "has_test_for u ty arg = Inr test" "p = P_Has (the (schema_column s q)) test"
proof -
  from assms obtain arg q column ty test where
    q: "qualified_name e = Some q" "schema_column s q = Some column" "ident_type d q = Some ty"
    "has_test_for u ty arg = Inr test" "p = P_Has column test"
    by (auto simp: transpile_has_def res_bind_Inr_iff ok_or_def
        split: fexpr.splits const.splits option.splits)
  have "shape_of s e = Sh_Column q"
    using q(1,2) by (cases e) (auto simp: column_name_def split: option.splits)
  with q show ?thesis by (intro that [of q ty arg test]) simp_all
qed

lemma has_test_skeleton:
  "has_test_for u ty arg = Inr test \<Longrightarrow> has_test_for u ty arg' = Inr test' \<Longrightarrow>
   has_skeleton test = has_skeleton test'"
  by (auto simp: has_test_for_def split: ftype.splits)

lemma has_skeleton_eq:
  assumes "transpile_has u d s a b = Inr p" and "transpile_has u d s a' b' = Inr p'"
    and "shape_of s a = shape_of s a'"
  shows "skeleton p = skeleton p'"
proof -
  obtain q ty arg test where one: "shape_of s a = Sh_Column q" "ident_type d q = Some ty"
    "has_test_for u ty arg = Inr test" "p = P_Has (the (schema_column s q)) test"
    using has_resolved [OF assms(1)] .
  obtain q' ty' arg' test' where two: "shape_of s a' = Sh_Column q'" "ident_type d q' = Some ty'"
    "has_test_for u ty' arg' = Inr test'" "p' = P_Has (the (schema_column s q')) test'"
    using has_resolved [OF assms(2)] .
  have q: "q' = q" using one(1) two(1) assms(3) by simp
  then have "ty' = ty" using one(2) two(2) by simp
  then have "has_skeleton test = has_skeleton test'"
    using has_test_skeleton one(3) two(3) by metis
  then show ?thesis by (simp add: one(4) two(4) q)
qed

lemma transpile_skeleton:
  assumes "transpile_expr u d s e = Inr p" and "transpile_expr u d s e' = Inr p'"
    and "shape_of s e = shape_of s e'"
  shows "skeleton p = skeleton p'"
  using assms
proof (induction e arbitrary: p e' p')
  case (Call name args)
  from Call.prems(2,3) obtain args' where e': "e' = Call name args'" "map (shape_of s) args = map (shape_of s) args'"
    by (cases e') (auto split: option.splits)
  note runs = Call.prems(1) Call.prems(2) [unfolded e'(1)]
  consider (two) a b where "args = [a, b]" | (one) a where "args = [a]"
    | (other) "\<nexists>a b. args = [a, b]" "\<nexists>a. args = [a]" by blast
  then show ?case
  proof cases
    case two
    then obtain a' b' where two': "args' = [a', b']" "shape_of s a = shape_of s a'" "shape_of s b = shape_of s b'"
      using e'(2) by auto
    note IH = Call.IH [of a, OF _ _ _ two'(2)] Call.IH [of b, OF _ _ _ two'(3)]
    show ?thesis
    proof (cases "name = fn_AND \<or> name = fn_OR")
      case True
      from True runs two two'(1) obtain l r l' r' where sub:
        "transpile_expr u d s a = Inr l" "transpile_expr u d s b = Inr r"
        "transpile_expr u d s a' = Inr l'" "transpile_expr u d s b' = Inr r'"
        "(p, p') = (if name = fn_AND then (P_All [l, r], P_All [l', r']) else (P_Any [l, r], P_Any [l', r']))"
        by (auto simp: res_bind_Inr_iff split: if_splits)
      then show ?thesis using IH(1) [OF _ sub(1,3)] IH(2) [OF _ sub(2,4)] two by (auto split: if_splits)
    next
      case False
      show ?thesis
      proof (cases "comparison_of name")
        case None
        with runs two two'(1) False
        have "transpile_has u d s a b = Inr p" "transpile_has u d s a' b' = Inr p'" by (simp_all split: if_splits)
        then show ?thesis using two'(2) by (rule has_skeleton_eq)
      next
        case (Some op)
        with runs two two'(1) False
        have "transpile_compare d s op a b = Inr p" "transpile_compare d s op a' b' = Inr p'" by simp_all
        then show ?thesis using two'(2,3) by (simp add: compare_skeleton)
      qed
    qed
  next
    case one
    then obtain a' where one': "args' = [a']" "shape_of s a = shape_of s a'" using e'(2) by auto
    from runs one one'(1) obtain q q' where sub: "transpile_expr u d s a = Inr q" "transpile_expr u d s a' = Inr q'"
      "p = P_Not q" "p' = P_Not q'"
      by (auto simp: res_bind_Inr_iff split: if_splits)
    then show ?thesis using Call.IH [OF _ sub(1,2) one'(2)] one by simp
  next
    case other
    then show ?thesis using Call.prems(1) by (auto split: list.splits)
  qed
qed simp_all

subsection \<open>Checked filters and their SQL\<close>

text \<open>C5: A transpiled filter means the filter. In every engine and for every row, the predicate has the
  three-valued truth the filter's own syntax tree has: connectives as written, each comparison in the
  order it was written (though the SQL always has the column on the left), member access, enum
  values, timestamps and durations by value, and the has operator by the type of its column.\<close>

theorem transpiled_filter_means_filter:
  assumes "transpile_filter u f d s = Inr p"
  shows "sat eng r p = filter_holds u eng d s r (flt_expr f)"
  using assms unfolding transpile_filter_def by (rule transpile_expr_meaning)

text \<open>Declarations of a map column, with the standard functions.\<close>

definition labels_decls :: declarations where
  "labels_decls =
     \<lparr>d_idents = [''labels'' \<mapsto> TMap TString TString, ''size'' \<mapsto> TInt],
      d_functions = bd_functions (standard_functions declarations_builder),
      d_field_paths = [''labels'', ''size'']\<rparr>"

definition labels_schema :: schema where
  "labels_schema =
     \<lparr>sch_columns = [(''labels'', ''labels''), (''size'', ''size'')], sch_sortable = [''size''],
      sch_types = [(''labels'', TMap TString TString), (''size'', TInt)]\<rparr>"

lemma labels_schema_derived: "map_option schema_build (for_declarations labels_decls) = Some labels_schema"
  by (simp add: for_declarations_def field_paths_def labels_decls_def schema_builder_new_def add_declared_def
      is_sortable_type_def schema_build_def labels_schema_def)

theorem transpiled_filter_means_filter_witness:
  "filter_holds ascii_tables demo_engine labels_decls labels_schema (5, 1)
     (Call ''<'' [Const (CInt 3), Ident ''size'']) = Some True"
proof -
  let ?e = "Call ''<'' [Const (CInt 3), Ident ''size'']"
  have run: "transpile_filter ascii_tables \<lparr>flt_expr = ?e\<rparr> labels_decls labels_schema
      = Inr (P_Compare (Col_Plain ''size'') Op_Gt (S_Int 3))"
    by (simp add: transpile_filter_def transpile_compare_def classify_def schema_column_def labels_schema_def
        comparison_of_def function_names)
  show ?thesis
    using transpiled_filter_means_filter [OF run, of demo_engine "(5, 1)"]
    by (simp add: compare3_def demo_engine_def demo_key_def)
qed

text \<open>C12: Parameterized, never interpolated. The SQL of a list query depends on its filter only
  through the operators and the declared columns it names: two filters of the same shape, whatever
  their strings, numbers, enum names and map keys, render to the same text with every dialect that
  keeps the has operator's value out of its text (SQLite's does).\<close>

theorem filter_literals_stay_out_of_sql:
  assumes "transpile_filter u f d s = Inr p" and "transpile_filter u f' d s = Inr p'"
    and "shape_of s (flt_expr f) = shape_of s (flt_expr f')"
  shows "fst (query_render Sqlite (query_filter p q)) = fst (query_render Sqlite (query_filter p' q))
    \<and> length (snd (query_render Sqlite (query_filter p q))) = length (snd (query_render Sqlite (query_filter p' q)))"
proof -
  have "skeleton p = skeleton p'"
    using assms unfolding transpile_filter_def by (rule transpile_skeleton)
  then have "same_text (render Sqlite p) (render Sqlite p')"
    using sqlite.render_blind [of p] sqlite.render_blind [of p'] by (simp add: same_text_def)
  then show ?thesis
    by (cases "render Sqlite p"; cases "render Sqlite p'")
      (simp add: same_text_def query_render_def query_filter_def Let_def)
qed

theorem filter_literals_stay_out_of_sql_witness:
  "fst (query_render Sqlite (query_filter
        (P_Compare (Col_MapMember ''labels'' ''env'') Op_Eq (S_Text ''prod'')) query_new))
   = fst (query_render Sqlite (query_filter
        (P_Compare (Col_MapMember ''labels'' ''x = 1'') Op_Eq (S_Text [CHR 0x27, CHR '';''])) query_new))"
proof -
  let ?e = "\<lambda>k v. Call ''='' [Select (Ident ''labels'') k, Const (CString v)]"
  have run: "transpile_filter ascii_tables \<lparr>flt_expr = ?e k v\<rparr> labels_decls labels_schema
      = Inr (P_Compare (Col_MapMember ''labels'' k) Op_Eq (S_Text v))" for k v
    by (simp add: transpile_filter_def transpile_compare_def classify_def classify_select_def schema_column_def
        labels_schema_def comparison_of_def function_names)
  have "shape_of labels_schema (?e ''env'' v) = shape_of labels_schema (?e ''x = 1'' v')" for v v'
    by (simp add: column_name_def schema_column_def labels_schema_def)
  then show ?thesis
    using filter_literals_stay_out_of_sql [OF run [of "''env''" "''prod''"] run [of "''x = 1''" "[CHR 0x27, CHR '';'']"],
        where q = query_new] by simp
qed

text \<open>
  The checker gives a map member the type of the map's values, so \<open>labels.env:x\<close> is a checked filter;
  the transpiler has no column for \<open>labels.env\<close> and answers with the error meant for a server whose
  schema lags its declarations.
\<close>

theorem has_on_map_member_is_internal:
  "checker_check ascii_tables (Call '':'' [Select (Ident ''labels'') ''env'', Const (CString ''x'')]) labels_decls = Inr ()
   \<and> transpile_filter ascii_tables
        \<lparr>flt_expr = Call '':'' [Select (Ident ''labels'') ''env'', Const (CString ''x'')]\<rparr> labels_decls labels_schema
      = Inl (UnknownIdentifier ''labels.env'')
   \<and> st_code (sql_status (UnknownIdentifier ''labels.env'')) = Code_Internal"
proof -
  have "bd_functions (standard_functions declarations_builder) '':'' = Some has_overloads"
    by (simp add: standard_functions_def declarations_builder_def declare_function_def)
  then show ?thesis
    by (simp add: checker_check_def labels_decls_def ident_type_def lookup_function_def lookup_def resolve_call_def
        bad_presence_def has_overloads_def overload_new_def transpile_filter_def transpile_has_def
        function_names comparison_of_def schema_column_def labels_schema_def sql_status_def)
qed

end
