(* ===== verification/Cel_Proto.thy ===== *)
theory Cel_Proto
  imports F_Checker
begin

text \<open>
  \<open>crates/aip-filtering/src/cel_proto.rs\<close>: the native syntax tree and the CEL protos of
  \<open>google.api.expr.v1alpha1\<close>. The node ids of one tree stay far below 2^63 and are integers; the
  generated reference, type and source annotations of a checked expression, always empty here, are
  type parameters.
\<close>

subsection \<open>The CEL protos\<close>

datatype cel_constant_kind =
  NullValue int
| BoolValue bool
| Int64Value int
| Uint64Value nat
| DoubleValue f64
| StringValue string
| BytesValue string
| DurationValue "int \<times> int"
| TimestampValue "int \<times> int"

type_synonym cel_constant = "cel_constant_kind option"

datatype cel_expr = Cel_Expr int "cel_expr_kind option"
and cel_expr_kind =
  ConstExpr cel_constant
| IdentExpr string
| SelectExpr "cel_expr option" string bool
| CallExpr "cel_expr option" string "cel_expr list"
| ListExpr "cel_expr list" "int list"
| StructExpr string "cel_entry list"
| ComprehensionExpr string string "cel_expr option" string "cel_expr option" "cel_expr option"
    "cel_expr option" "cel_expr option"
and cel_entry = Cel_Entry int "cel_expr option" bool "cel_key_kind option"
and cel_key_kind = FieldKey string | MapKey cel_expr

record ('reference, 'type, 'source) cel_checked_expr =
  ce_reference_map :: "(int \<times> 'reference) list"
  ce_type_map :: "(int \<times> 'type) list"
  ce_source_info :: "'source option"
  ce_expr_version :: string
  ce_expr :: "cel_expr option"

datatype conversion_error =
  UnsupportedExpr string
| UnsupportedConstant string
| MissingField string

fun conversion_error_display :: "conversion_error \<Rightarrow> string" where
  "conversion_error_display (UnsupportedExpr k) = ''unsupported CEL expression kind: '' @ k"
| "conversion_error_display (UnsupportedConstant k) = ''unsupported CEL constant kind: '' @ k"
| "conversion_error_display (MissingField f) = ''malformed CEL proto: missing '' @ f"

subsection \<open>Native to CEL\<close>

fun cel_of_constant :: "const \<Rightarrow> cel_constant" where
  "cel_of_constant (CInt v) = Some (Int64Value v)"
| "cel_of_constant (CUint v) = Some (Uint64Value v)"
| "cel_of_constant (CDouble v) = Some (DoubleValue v)"
| "cel_of_constant (CBool v) = Some (BoolValue v)"
| "cel_of_constant (CString v) = Some (StringValue v)"
| "cel_of_constant (CBytes v) = Some (BytesValue v)"

text \<open>The id counter is threaded through the arguments in order; \<open>build_cel_args\<close> is the closure.\<close>

fun build_cel_expr :: "fexpr \<Rightarrow> int \<Rightarrow> cel_expr \<times> int"
and build_cel_args :: "fexpr list \<Rightarrow> int \<Rightarrow> cel_expr list \<times> int" where
  "build_cel_expr (Const c) n = (Cel_Expr n (Some (ConstExpr (cel_of_constant c))), n + 1)"
| "build_cel_expr (Ident name) n = (Cel_Expr n (Some (IdentExpr name)), n + 1)"
| "build_cel_expr (Select operand field) n =
     (let (c, m) = build_cel_expr operand (n + 1)
      in (Cel_Expr n (Some (SelectExpr (Some c) field False)), m))"
| "build_cel_expr (Call fn args) n =
     (let (cs, m) = build_cel_args args (n + 1)
      in (Cel_Expr n (Some (CallExpr None fn cs)), m))"
| "build_cel_args [] n = ([], n)"
| "build_cel_args (e # es) n =
     (let (c, m) = build_cel_expr e n; (cs, k) = build_cel_args es m in (c # cs, k))"

definition cel_of_expr :: "fexpr \<Rightarrow> cel_expr" where
  "cel_of_expr e = fst (build_cel_expr e 1)"

definition cel_of_filter :: "filter_ \<Rightarrow> ('r, 't, 's) cel_checked_expr" where
  "cel_of_filter f =
     \<lparr>ce_reference_map = [], ce_type_map = [], ce_source_info = None, ce_expr_version = [],
      ce_expr = Some (cel_of_expr (flt_expr f))\<rparr>"

subsection \<open>CEL to native\<close>

fun constant_try_from :: "cel_constant \<Rightarrow> conversion_error + const" where
  "constant_try_from (Some (BoolValue v)) = Inr (CBool v)"
| "constant_try_from (Some (Int64Value v)) = Inr (CInt v)"
| "constant_try_from (Some (Uint64Value v)) = Inr (CUint v)"
| "constant_try_from (Some (DoubleValue v)) = Inr (CDouble v)"
| "constant_try_from (Some (StringValue v)) = Inr (CString v)"
| "constant_try_from (Some (BytesValue v)) = Inr (CBytes v)"
| "constant_try_from (Some (NullValue _)) = Inl (UnsupportedConstant ''null'')"
| "constant_try_from (Some (DurationValue _)) = Inl (UnsupportedConstant ''duration'')"
| "constant_try_from (Some (TimestampValue _)) = Inl (UnsupportedConstant ''timestamp'')"
| "constant_try_from None = Inl (MissingField ''constant kind'')"

fun expr_try_from :: "cel_expr \<Rightarrow> conversion_error + fexpr" where
  "expr_try_from (Cel_Expr _ (Some (ConstExpr c))) =
     res_bind (constant_try_from c) (\<lambda>k. Inr (Const k))"
| "expr_try_from (Cel_Expr _ (Some (IdentExpr name))) = Inr (Ident name)"
| "expr_try_from (Cel_Expr _ (Some (SelectExpr operand field test_only))) =
     (if test_only then Inl (UnsupportedExpr ''presence-test select'')
      else (case operand of
              None \<Rightarrow> Inl (MissingField ''select operand'')
            | Some c \<Rightarrow> res_bind (expr_try_from c) (\<lambda>e. Inr (Select e field))))"
| "expr_try_from (Cel_Expr _ (Some (CallExpr target fn args))) =
     (if target \<noteq> None then Inl (UnsupportedExpr ''method-style call'')
      else res_bind (try_map expr_try_from args) (\<lambda>es. Inr (Call fn es)))"
| "expr_try_from (Cel_Expr _ (Some (ListExpr _ _))) = Inl (UnsupportedExpr ''list creation'')"
| "expr_try_from (Cel_Expr _ (Some (StructExpr _ _))) = Inl (UnsupportedExpr ''struct creation'')"
| "expr_try_from (Cel_Expr _ (Some (ComprehensionExpr _ _ _ _ _ _ _ _))) =
     Inl (UnsupportedExpr ''comprehension'')"
| "expr_try_from (Cel_Expr _ None) = Inl (MissingField ''expression kind'')"

definition filter_try_from :: "('r, 't, 's) cel_checked_expr \<Rightarrow> conversion_error + filter_" where
  "filter_try_from checked =
     res_bind (ok_or (MissingField ''checked expr'') (ce_expr checked)) (\<lambda>c.
       res_bind (expr_try_from c) (\<lambda>e. Inr \<lparr>flt_expr = e\<rparr>))"

subsection \<open>The native part of CEL\<close>

text \<open>The expressions built of constants, names, plain selections and function-style calls.\<close>

fun native_constant :: "cel_constant \<Rightarrow> bool" where
  "native_constant None \<longleftrightarrow> False"
| "native_constant (Some (NullValue _)) \<longleftrightarrow> False"
| "native_constant (Some (DurationValue _)) \<longleftrightarrow> False"
| "native_constant (Some (TimestampValue _)) \<longleftrightarrow> False"
| "native_constant _ \<longleftrightarrow> True"

fun native :: "cel_expr \<Rightarrow> bool" where
  "native (Cel_Expr _ (Some (ConstExpr c))) \<longleftrightarrow> native_constant c"
| "native (Cel_Expr _ (Some (IdentExpr _))) \<longleftrightarrow> True"
| "native (Cel_Expr _ (Some (SelectExpr (Some c) _ False))) \<longleftrightarrow> native c"
| "native (Cel_Expr _ (Some (CallExpr None _ cs))) \<longleftrightarrow> list_all native cs"
| "native _ \<longleftrightarrow> False"

text \<open>The ids of a native expression in pre-order, and the expression with every id forgotten.\<close>

fun cel_ids :: "cel_expr \<Rightarrow> int list" where
  "cel_ids (Cel_Expr n (Some (SelectExpr (Some c) _ _))) = n # cel_ids c"
| "cel_ids (Cel_Expr n (Some (CallExpr None _ cs))) = n # concat (map cel_ids cs)"
| "cel_ids (Cel_Expr n _) = [n]"

fun forget_ids :: "cel_expr \<Rightarrow> cel_expr" where
  "forget_ids (Cel_Expr n (Some (SelectExpr (Some c) field t))) =
     Cel_Expr 0 (Some (SelectExpr (Some (forget_ids c)) field t))"
| "forget_ids (Cel_Expr n (Some (CallExpr None fn cs))) =
     Cel_Expr 0 (Some (CallExpr None fn (map forget_ids cs)))"
| "forget_ids (Cel_Expr n k) = Cel_Expr 0 k"

fun nodes :: "fexpr \<Rightarrow> nat" where
  "nodes (Select e _) = Suc (nodes e)"
| "nodes (Call _ es) = Suc (sum_list (map nodes es))"
| "nodes _ = 1"

lemma constant_roundtrip [simp]: "constant_try_from (cel_of_constant c) = Inr c"
  by (cases c) simp_all

lemma constant_try_from_native:
  "constant_try_from c = Inr k \<Longrightarrow> native_constant c \<and> cel_of_constant k = c"
  "constant_try_from c = Inl e \<Longrightarrow> \<not> native_constant c"
  by (induction c rule: constant_try_from.induct) auto

text \<open>Induction on an expression and on an argument list together.\<close>

lemma expr_args_induct [case_names Const Ident Select Call Nil Cons]:
  assumes "\<And>c. P (Const c)" and "\<And>x. P (Ident x)" and "\<And>e f. P e \<Longrightarrow> P (Select e f)"
    and "\<And>fn es. Q es \<Longrightarrow> P (Call fn es)" and "Q []" and "\<And>e es. P e \<Longrightarrow> Q es \<Longrightarrow> Q (e # es)"
  shows "P e" and "Q es"
proof -
  have args: "(\<And>x. x \<in> set xs \<Longrightarrow> P x) \<Longrightarrow> Q xs" for xs
    by (induction xs) (simp_all add: assms(5,6))
  show P: "P e" for e
    by (induction e) (auto intro: assms(1-4) args)
  show "Q es" by (rule args) (rule P)
qed

lemma build_cel_simps:
  "fst (build_cel_expr (Select e field) n) =
     Cel_Expr n (Some (SelectExpr (Some (fst (build_cel_expr e (n + 1)))) field False))"
  "snd (build_cel_expr (Select e field) n) = snd (build_cel_expr e (n + 1))"
  "fst (build_cel_expr (Call fn args) n) =
     Cel_Expr n (Some (CallExpr None fn (fst (build_cel_args args (n + 1)))))"
  "snd (build_cel_expr (Call fn args) n) = snd (build_cel_args args (n + 1))"
  "fst (build_cel_args (e # es) n) =
     fst (build_cel_expr e n) # fst (build_cel_args es (snd (build_cel_expr e n)))"
  "snd (build_cel_args (e # es) n) = snd (build_cel_args es (snd (build_cel_expr e n)))"
  by (simp_all add: Let_def case_prod_unfold)

lemmas build_cel_rules = build_cel_expr.simps(1,2) build_cel_args.simps(1) build_cel_simps

lemma build_roundtrip:
  "\<forall>n. expr_try_from (fst (build_cel_expr e n)) = Inr e"
  "\<forall>n. try_map expr_try_from (fst (build_cel_args es n)) = Inr es"
  by (induction e and es rule: expr_args_induct) (simp_all only: build_cel_rules fst_conv expr_try_from.simps
      try_map.simps constant_roundtrip res_bind_def option.simps sum.simps simp_thms if_False)

lemma int_upto_split: "n \<le> m \<Longrightarrow> m \<le> k \<Longrightarrow> [n..m - 1] @ [m..k - 1] = [n..k - (1::int)]"
  using upto_split1 [of n m "k - 1"] by (cases "m = k") simp_all

lemma build_ids:
  "\<forall>n. snd (build_cel_expr e n) = n + int (nodes e) \<and> cel_ids (fst (build_cel_expr e n)) = [n..n + int (nodes e) - 1]"
  "\<forall>n. snd (build_cel_args es n) = n + int (sum_list (map nodes es))
   \<and> concat (map cel_ids (fst (build_cel_args es n))) = [n..n + int (sum_list (map nodes es)) - 1]"
proof (induction e and es rule: expr_args_induct)
  case (Select e f)
  then show ?case by (simp add: build_cel_simps upto_rec1 add.commute add.left_commute del: build_cel_expr.simps)
next
  case (Call fn es)
  then show ?case by (simp add: build_cel_simps upto_rec1 add.commute add.left_commute del: build_cel_expr.simps)
next
  case (Cons e es)
  have "[n..n + int (nodes e) - 1] @ [n + int (nodes e)..n + int (nodes e) + int (sum_list (map nodes es)) - 1]
      = [n..n + int (nodes e) + int (sum_list (map nodes es)) - 1]" for n
    by (rule int_upto_split) simp_all
  with Cons show ?case by (simp add: build_cel_simps add.assoc del: build_cel_args.simps)
qed simp_all

lemma build_forget:
  "\<forall>n m. forget_ids (fst (build_cel_expr e n)) = forget_ids (fst (build_cel_expr e m))"
  "\<forall>n m. map forget_ids (fst (build_cel_args es n)) = map forget_ids (fst (build_cel_args es m))"
proof (induction e and es rule: expr_args_induct)
  case (Cons e es)
  show ?case
  proof (intro allI)
    fix n m
    show "map forget_ids (fst (build_cel_args (e # es) n)) = map forget_ids (fst (build_cel_args (e # es) m))"
      using Cons(1) [THEN spec, THEN spec, of n m]
        Cons(2) [THEN spec, THEN spec, of "snd (build_cel_expr e n)" "snd (build_cel_expr e m)"]
      by (simp add: build_cel_simps del: build_cel_args.simps)
  qed
qed (simp_all add: build_cel_rules del: build_cel_expr.simps(3,4))

lemma forget_args: "map forget_ids (fst (build_cel_args es n)) = map (\<lambda>e. forget_ids (cel_of_expr e)) es"
proof (induction es arbitrary: n)
  case (Cons e es)
  have "forget_ids (fst (build_cel_expr e n)) = forget_ids (fst (build_cel_expr e 1))"
    using build_forget(1) by blast
  with Cons show ?case by (simp add: build_cel_simps cel_of_expr_def del: build_cel_args.simps)
qed simp

lemma forget_of_expr:
  "forget_ids (cel_of_expr (Select e field)) =
     Cel_Expr 0 (Some (SelectExpr (Some (forget_ids (cel_of_expr e))) field False))"
  "forget_ids (cel_of_expr (Call fn es)) =
     Cel_Expr 0 (Some (CallExpr None fn (map (\<lambda>e. forget_ids (cel_of_expr e)) es)))"
proof -
  have "forget_ids (fst (build_cel_expr e (1 + 1))) = forget_ids (cel_of_expr e)"
    using build_forget(1) unfolding cel_of_expr_def by blast
  then show "forget_ids (cel_of_expr (Select e field)) =
     Cel_Expr 0 (Some (SelectExpr (Some (forget_ids (cel_of_expr e))) field False))"
    by (simp add: cel_of_expr_def [of "Select _ _"] build_cel_simps del: build_cel_expr.simps)
  show "forget_ids (cel_of_expr (Call fn es)) =
     Cel_Expr 0 (Some (CallExpr None fn (map (\<lambda>e. forget_ids (cel_of_expr e)) es)))"
    using forget_args [of es "1 + 1"]
    by (simp add: cel_of_expr_def [of "Call _ _"] build_cel_simps del: build_cel_expr.simps)
qed

lemma try_from_ok: "expr_try_from c = Inr e \<Longrightarrow> native c \<and> forget_ids (cel_of_expr e) = forget_ids c"
proof (induction c arbitrary: e rule: expr_try_from.induct)
  case (1 n c)
  then show ?case
    by (auto simp: cel_of_expr_def res_bind_def constant_try_from_native split: sum.splits)
next
  case (3 n operand field t)
  then show ?case
    by (cases t; cases operand) (auto simp: forget_of_expr res_bind_def split: sum.splits)
next
  case (4 n target fn args)
  then obtain es where t: "target = None" and es: "list_all2 (\<lambda>c e. expr_try_from c = Inr e) args es"
    and e: "e = Call fn es"
    by (auto simp: res_bind_def try_map_Inr_iff split: sum.splits if_splits)
  have "native c \<and> forget_ids (cel_of_expr x) = forget_ids c" if "(c, x) \<in> set (zip args es)" for c x
    using 4(1) [of c x] t es that by (auto simp: list_all2_iff dest: set_zip_leftD)
  then have "list_all2 (\<lambda>c x. native c \<and> forget_ids (cel_of_expr x) = forget_ids c) args es"
    using es by (auto simp: list_all2_iff)
  then have "list_all native args \<and> map (\<lambda>e. forget_ids (cel_of_expr e)) es = map forget_ids args"
    by (induction rule: list_all2_induct) auto
  with t e show ?case by (simp add: forget_of_expr)
qed (simp_all add: cel_of_expr_def)

lemma try_from_error: "expr_try_from c = Inl e \<Longrightarrow> \<not> native c"
proof (induction c arbitrary: e rule: expr_try_from.induct)
  case (1 n c)
  then show ?case
    by (auto simp: res_bind_def constant_try_from_native split: sum.splits)
next
  case (3 n operand field t)
  then show ?case
    by (cases t; cases operand) (auto simp: res_bind_def split: sum.splits)
next
  case (4 n target fn args)
  show ?case
  proof (cases "target = None")
    case True
    with 4(2) obtain x where "try_map expr_try_from args = Inl x" by (auto simp: res_bind_def split: sum.splits)
    from try_map_Inl_cases [OF this] obtain c where c: "c \<in> set args" "expr_try_from c = Inl x" ..
    with 4(1) [OF _ c] True show ?thesis by (auto simp: list_all_iff)
  qed auto
qed simp_all

text \<open>C38: The conversion to CEL loses nothing and the one from CEL reshapes nothing. A filter is
  recovered from its CEL form, whose nodes carry the ids 1, 2, ... in pre-order, one each. A CEL
  expression converts exactly when it is built of constants, names, plain selections and
  function-style calls, and then converting it back gives the same expression up to the ids.\<close>

theorem cel_conversion_faithful:
  "expr_try_from (cel_of_expr e) = Inr e
   \<and> cel_ids (cel_of_expr e) = [1..int (nodes e)]
   \<and> filter_try_from (cel_of_filter \<lparr>flt_expr = e\<rparr>) = Inr \<lparr>flt_expr = e\<rparr>
   \<and> (case expr_try_from c of
        Inl _ \<Rightarrow> \<not> native c
      | Inr e' \<Rightarrow> native c \<and> forget_ids (cel_of_expr e') = forget_ids c)"
proof -
  have "expr_try_from (cel_of_expr e) = Inr e" for e using build_roundtrip(1) by (simp add: cel_of_expr_def)
  moreover have "cel_ids (cel_of_expr e) = [1..int (nodes e)]"
    using build_ids(1) [THEN spec, of e 1] by (simp add: cel_of_expr_def)
  ultimately show ?thesis
    using try_from_ok [of c] try_from_error [of c]
    by (simp add: filter_try_from_def cel_of_filter_def ok_or_def res_bind_def split: sum.split)
qed

end
