(* ===== verification/F64_Arith.thy ===== *)
theory F64_Arith
  imports F64
begin

text \<open>
  The operations of \<open>f64\<close> the in-memory matcher uses: \<open>partial_cmp\<close>, \<open>as f64\<close> on integers, and the
  sum and quotient of a duration. Every rounding is that of \<open>f64_of_fraction\<close>.
\<close>

subsection \<open>Orderings\<close>

text \<open>\<open>std::cmp::Ordering\<close>.\<close>

datatype ordering = Cmp_Less | Cmp_Equal | Cmp_Greater

definition cmp :: "'a::linorder \<Rightarrow> 'a \<Rightarrow> ordering" where
  "cmp a b = (if a < b then Cmp_Less else if a = b then Cmp_Equal else Cmp_Greater)"

lemma cmp_iff [simp]:
  "cmp a b = Cmp_Less \<longleftrightarrow> a < b" "cmp a b = Cmp_Equal \<longleftrightarrow> a = b" "cmp a b = Cmp_Greater \<longleftrightarrow> b < a"
  by (auto simp: cmp_def)

lemma cmp_mult: "c > 0 \<Longrightarrow> cmp (a * c) (b * c) = cmp a (b :: real)"
  by (simp add: cmp_def)

lemma cmp_of_int: "cmp (real_of_int a) (real_of_int b) = cmp a b"
  by (simp add: cmp_def)

subsection \<open>Comparison\<close>

definition signed :: "bool \<Rightarrow> nat \<Rightarrow> int" where
  "signed neg m = (if neg then - int m else int m)"

fun f64_cmp :: "f64 \<Rightarrow> f64 \<Rightarrow> ordering option" where
  "f64_cmp (Fin n1 m1 e1) (Fin n2 m2 e2) =
     (let e = min e1 e2 in
      Some (cmp (signed n1 m1 * 2 ^ nat (e1 - e)) (signed n2 m2 * 2 ^ nat (e2 - e))))"
| "f64_cmp (Inf n1) (Inf n2) = Some (cmp (\<not> n1) (\<not> n2))"
| "f64_cmp (Inf n1) (Fin _ _ _) = Some (if n1 then Cmp_Less else Cmp_Greater)"
| "f64_cmp (Fin _ _ _) (Inf n2) = Some (if n2 then Cmp_Greater else Cmp_Less)"
| "f64_cmp NaN _ = None"
| "f64_cmp _ NaN = None"

fun f64_real :: "f64 \<Rightarrow> real" where
  "f64_real (Fin neg m e) = signed neg m * 2 powi e"
| "f64_real _ = 0"

lemma f64_cmp_real: "f64_cmp (Fin n1 m1 e1) (Fin n2 m2 e2) =
    Some (cmp (f64_real (Fin n1 m1 e1)) (f64_real (Fin n2 m2 e2)))"
proof -
  define e where "e = min e1 e2"
  have shift: "(2::real) powi k = 2 ^ nat (k - e) * 2 powi e" if "e \<le> k" for k
    using that power_int_add [of "2::real" "k - e" e] by (simp add: power_int_def)
  have "e \<le> e1" "e \<le> e2" by (simp_all add: e_def)
  let ?a = "signed n1 m1 * 2 ^ nat (e1 - e)" and ?b = "signed n2 m2 * 2 ^ nat (e2 - e)" and ?c = "(2::real) powi e"
  have "f64_real (Fin n1 m1 e1) = real_of_int ?a * ?c" "f64_real (Fin n2 m2 e2) = real_of_int ?b * ?c"
    using shift [OF \<open>e \<le> e1\<close>] shift [OF \<open>e \<le> e2\<close>] by simp_all
  then have "cmp (f64_real (Fin n1 m1 e1)) (f64_real (Fin n2 m2 e2))
      = cmp (real_of_int ?a * ?c) (real_of_int ?b * ?c)" by (simp only:)
  also have "\<dots> = cmp (real_of_int ?a) (real_of_int ?b)" by (rule cmp_mult) simp
  also have "\<dots> = cmp ?a ?b" by (rule cmp_of_int)
  finally show ?thesis by (simp only: f64_cmp.simps Let_def e_def)
qed

text \<open>Two numbers of the same value compare alike.\<close>

definition is_fin :: "f64 \<Rightarrow> bool" where
  "is_fin x = (case x of Fin _ _ _ \<Rightarrow> True | _ \<Rightarrow> False)"

lemma f64_cmp_cong:
  assumes "is_fin x" and "is_fin x'" and "f64_real x = f64_real x'"
  shows "f64_cmp x y = f64_cmp x' y" and "f64_cmp y x = f64_cmp y x'"
  using assms
  by (cases x; cases x'; cases y; simp add: is_fin_def f64_cmp_real del: f64_cmp.simps(1) f64_real.simps)+

lemma f64_cmp_NaN: "f64_cmp x y = None \<longleftrightarrow> x = NaN \<or> y = NaN"
  by (cases x; cases y) (simp_all add: Let_def)

subsection \<open>Integers, sums and durations\<close>

definition int_as_f64 :: "int \<Rightarrow> f64" where
  "int_as_f64 i = f64_of_fraction (i < 0) (nat \<bar>i\<bar>) 1"

text \<open>The integer itself, not rounded.\<close>

definition int_exact :: "int \<Rightarrow> f64" where
  "int_exact i = Fin (i < 0) (nat \<bar>i\<bar>) 0"

fun f64_add :: "f64 \<Rightarrow> f64 \<Rightarrow> f64" where
  "f64_add (Fin n1 m1 e1) (Fin n2 m2 e2) =
     (let e = min e1 e2; v = signed n1 m1 * 2 ^ nat (e1 - e) + signed n2 m2 * 2 ^ nat (e2 - e);
          m = nat \<bar>v\<bar>
      in if m = 0 then Fin (n1 \<and> n2) 0 (- 1074)
         else if e \<ge> 0 then f64_of_fraction (v < 0) (m * 2 ^ nat e) 1
         else f64_of_fraction (v < 0) m (2 ^ nat (- e)))"
| "f64_add (Inf n1) (Inf n2) = (if n1 = n2 then Inf n1 else NaN)"
| "f64_add NaN _ = NaN"
| "f64_add _ NaN = NaN"
| "f64_add (Inf n1) (Fin _ _ _) = Inf n1"
| "f64_add (Fin _ _ _) (Inf n2) = Inf n2"

text \<open>\<open>i as f64 / 1_000_000_000.0\<close> for an \<open>i32\<close>, which converts exactly.\<close>

definition nanos_as_f64 :: "int \<Rightarrow> f64" where
  "nanos_as_f64 i = f64_of_fraction (i < 0) (nat \<bar>i\<bar>) 1000000000"

lemma round_even_exact: "d > 0 \<Longrightarrow> round_even (k * d) d = k"
  by (simp add: round_even_def Let_def)

lemma log2_floor_unique: "2 ^ k \<le> n \<Longrightarrow> n < 2 ^ Suc k \<Longrightarrow> log2_floor n = k"
proof -
  assume b: "2 ^ k \<le> n" "n < 2 ^ Suc k"
  then have "n > 0" by (metis gr0I not_le zero_less_numeral zero_less_power)
  from log2_floor_bounds [OF this] have "2 ^ log2_floor n \<le> n" "n < 2 ^ Suc (log2_floor n)" by auto
  with b have "(2::nat) ^ k < 2 ^ Suc (log2_floor n)" "(2::nat) ^ log2_floor n < 2 ^ Suc k" by linarith+
  then have "k < Suc (log2_floor n)" "log2_floor n < Suc k"
    by (simp_all only: power_strict_increasing_iff one_less_numeral_iff semiring_norm)
  then show ?thesis by simp
qed

lemma log2_floor_le: "n \<le> 2 ^ k \<Longrightarrow> log2_floor n \<le> k"
proof (cases "n = 0")
  case True
  then show ?thesis by (simp add: log2_floor.simps)
next
  case False
  assume "n \<le> 2 ^ k"
  with log2_floor_bounds [of n] False have "(2::nat) ^ log2_floor n \<le> 2 ^ k" by linarith
  then show ?thesis by simp
qed

lemma ulp_exponent_int: "n > 0 \<Longrightarrow> ulp_exponent n 1 = max (int (log2_floor n) - 52) (- 1074)"
proof -
  assume n: "n > 0"
  have "log2_floor 1 = 0" by (simp add: log2_floor.simps)
  moreover have "n \<ge> 2 ^ log2_floor n" using log2_floor_bounds [OF n] by simp
  ultimately show ?thesis by (simp add: ulp_exponent_def scale_def)
qed

text \<open>Integers up to 2^53 convert exactly.\<close>

lemma fraction_exact:
  assumes "n \<le> 2 ^ 53"
  shows "is_fin (f64_of_fraction neg n 1)" and "f64_real (f64_of_fraction neg n 1) = signed neg n"
proof -
  have "is_fin (f64_of_fraction neg n 1) \<and> f64_real (f64_of_fraction neg n 1) = signed neg n"
  proof (cases "n = 0")
    case True
    then show ?thesis by (simp add: f64_of_fraction_def is_fin_def signed_def)
  next
    case False
    define e where "e = ulp_exponent n 1"
    define m where "m = (case scale n 1 e of (a, b) \<Rightarrow> round_even a b)"
    have e: "e = int (log2_floor n) - 52" and le: "log2_floor n \<le> 53"
      using False ulp_exponent_int [of n] log2_floor_le [OF assms] by (auto simp: e_def)
    have val: "real m * 2 powi e = real n"
    proof (cases "e \<le> 0")
      case True
      then have "m = n * 2 ^ nat (- e)"
        by (cases "e = 0") (simp_all add: m_def scale_def round_even_def)
      moreover have "(2::real) ^ nat (- e) * 2 powi e = 1"
        using True by (simp add: power_int_def divide_simps)
      ultimately show ?thesis by (simp add: mult.assoc)
    next
      case False
      with e le have e1: "e = 1" and l: "log2_floor n = 53" by auto
      with log2_floor_bounds [of n] \<open>n \<noteq> 0\<close> assms have "n = 2 ^ 52 * 2" by simp
      then have "m = 2 ^ 52" unfolding m_def e1 by (simp add: scale_def round_even_def)
      with \<open>n = 2 ^ 52 * 2\<close> e1 show ?thesis by simp
    qed
    have eq: "f64_of_fraction neg n 1 = (if m = 2 ^ 53 then Fin neg (2 ^ 52) (e + 1) else Fin neg m e)"
      unfolding f64_of_fraction_def Let_def e_def [symmetric] m_def [symmetric] using False e le by simp
    have "(2::real) ^ 52 * 2 powi (e + 1) = 2 ^ 53 * 2 powi e" by (simp add: power_int_add)
    with val show ?thesis unfolding eq by (auto simp: is_fin_def signed_def)
  qed
  then show "is_fin (f64_of_fraction neg n 1)" and "f64_real (f64_of_fraction neg n 1) = signed neg n"
    by auto
qed

lemma int_as_f64_exact:
  assumes "\<bar>i\<bar> \<le> 2 ^ 53"
  shows "f64_cmp (int_as_f64 i) y = f64_cmp (int_exact i) y"
    and "f64_cmp y (int_as_f64 i) = f64_cmp y (int_exact i)"
proof -
  have n: "nat \<bar>i\<bar> \<le> 2 ^ 53" using assms by (simp add: nat_le_iff)
  have "f64_real (int_as_f64 i) = f64_real (int_exact i)"
    using fraction_exact(2) [OF n] by (simp add: int_as_f64_def int_exact_def)
  moreover have "is_fin (int_as_f64 i)" "is_fin (int_exact i)"
    using fraction_exact(1) [OF n] by (simp_all add: int_as_f64_def int_exact_def is_fin_def)
  ultimately show "f64_cmp (int_as_f64 i) y = f64_cmp (int_exact i) y"
    and "f64_cmp y (int_as_f64 i) = f64_cmp y (int_exact i)"
    using f64_cmp_cong by blast+
qed

end
