(* ===== verification/Matcher.thy ===== *)
theory Matcher
  imports F_Debug F64_Arith Reflect
begin

text \<open>
  \<open>crates/aip-filtering/src/matcher.rs\<close>: evaluation of a checked filter against a message, in
  three-valued logic. Messages are those of \<open>Reflect\<close>; the \<open>{:?}\<close> of a field kind, a text of that
  library, is a parameter.
\<close>

datatype match_error =
  M_Unsupported string
| M_UnknownIdentifier string
| M_InvalidDuration string

fun match_error_display :: "match_error \<Rightarrow> string" where
  "match_error_display (M_Unsupported s) = ''unsupported filter construct: '' @ s"
| "match_error_display (M_UnknownIdentifier s) =
     ''identifier `'' @ s @ ''` is not a field of the message nor a declared value''"
| "match_error_display (M_InvalidDuration s) = ''invalid duration literal: '' @ s"

text \<open>An evaluation ends in an error or, at an \<open>expect\<close>, in a panic.\<close>

datatype match_stop = Match_Err match_error | Match_Panic

record 'm match_ctx =
  mc_unicode :: unicode_tables
  mc_pool :: descriptor_pool
  mc_ops :: "'m message_ops"
  mc_kind_debug :: "kind \<Rightarrow> string"
  mc_declarations :: declarations
  mc_message :: 'm

subsection \<open>Three-valued truth\<close>

datatype truth = Truth_True | Truth_False | Truth_Unknown

definition truth_known :: "bool \<Rightarrow> truth" where
  "truth_known b = (if b then Truth_True else Truth_False)"

definition truth_and :: "truth \<Rightarrow> truth \<Rightarrow> truth" where
  "truth_and l r =
     (case (l, r) of
        (Truth_False, _) \<Rightarrow> Truth_False
      | (_, Truth_False) \<Rightarrow> Truth_False
      | (Truth_True, Truth_True) \<Rightarrow> Truth_True
      | _ \<Rightarrow> Truth_Unknown)"

definition truth_or :: "truth \<Rightarrow> truth \<Rightarrow> truth" where
  "truth_or l r =
     (case (l, r) of
        (Truth_True, _) \<Rightarrow> Truth_True
      | (_, Truth_True) \<Rightarrow> Truth_True
      | (Truth_False, Truth_False) \<Rightarrow> Truth_False
      | _ \<Rightarrow> Truth_Unknown)"

fun truth_not :: "truth \<Rightarrow> truth" where
  "truth_not Truth_True = Truth_False"
| "truth_not Truth_False = Truth_True"
| "truth_not Truth_Unknown = Truth_Unknown"

subsection \<open>Operands\<close>

datatype match_operand = M_Num f64 | M_Text string | M_Bool bool

datatype 'm field_value = FV_Present field_descriptor "'m rvalue" | FV_Absent

datatype 'm match_side = Side_Field "'m field_value" | Side_Literal

datatype 'm path_result = Path_Present field_descriptor "'m rvalue" | Path_Absent | Path_NotAField

fun into_field :: "'m path_result \<Rightarrow> 'm field_value" where
  "into_field (Path_Present fd v) = FV_Present fd v"
| "into_field Path_Absent = FV_Absent"
| "into_field Path_NotAField = FV_Absent"

datatype match_op = M_Eq | M_Ne | M_Lt | M_Le | M_Gt | M_Ge

fun match_mirror :: "match_op \<Rightarrow> match_op" where
  "match_mirror M_Eq = M_Eq"
| "match_mirror M_Ne = M_Ne"
| "match_mirror M_Lt = M_Gt"
| "match_mirror M_Le = M_Ge"
| "match_mirror M_Gt = M_Lt"
| "match_mirror M_Ge = M_Le"

definition match_singular :: "field_descriptor \<Rightarrow> bool" where
  "match_singular fd \<longleftrightarrow>
     (case fd_kind fd of K_Message _ \<Rightarrow> True | _ \<Rightarrow> False) \<and> \<not> fd_is_list fd \<and> \<not> fd_is_map fd"

definition map_value_field :: "descriptor_pool \<Rightarrow> field_descriptor \<Rightarrow> field_descriptor" where
  "map_value_field pool fd =
     (case fd_kind fd of
        K_Message entry \<Rightarrow> \<lparr>fd_is_list = False, fd_is_map = False, fd_kind = dp_entry_value pool entry\<rparr>
      | _ \<Rightarrow> fd)"

text \<open>Named apart from the declaration builder's walk of the same name.\<close>

fun match_resolve_path ::
  "descriptor_pool \<Rightarrow> 'm message_ops \<Rightarrow> 'm \<Rightarrow> string list \<Rightarrow> match_stop + 'm path_result" where
  "match_resolve_path pool ops m [] = Inr Path_NotAField"
| "match_resolve_path pool ops m (segment # segs) =
     (case message_field pool ops m segment of
        None \<Rightarrow> Inr Path_NotAField
      | Some fd \<Rightarrow>
          if segs = [] then
            (if match_singular fd \<and> \<not> mo_has_field ops m segment then Inr Path_Absent
             else Inr (Path_Present fd (mo_get_field ops m segment)))
          else if \<not> match_singular fd then Inr Path_NotAField
          else if \<not> mo_has_field ops m segment then Inr Path_Absent
          else
            (case mo_get_field ops m segment of
               V_Message sub \<Rightarrow> match_resolve_path pool ops sub segs
             | _ \<Rightarrow> Inl Match_Panic))"

fun qualified_segments :: "fexpr \<Rightarrow> string list option" where
  "qualified_segments (Ident name) = Some [name]"
| "qualified_segments (Select operand field) =
     map_option (\<lambda>segments. segments @ [field]) (qualified_segments operand)"
| "qualified_segments _ = None"

text \<open>\<open>as_map().get(&MapKey::String(key))\<close>.\<close>

definition map_get :: "'m rvalue \<Rightarrow> string \<Rightarrow> 'm rvalue option" where
  "map_get v key =
     (case v of
        V_Map kvs \<Rightarrow> map_option snd (find (\<lambda>(k, _). case k of V_String s \<Rightarrow> s = key | _ \<Rightarrow> False) kvs)
      | _ \<Rightarrow> None)"

definition unknown_member :: "fexpr \<Rightarrow> match_stop" where
  "unknown_member expr =
     Match_Err (M_UnknownIdentifier
       (case qualified_segments expr of Some segments \<Rightarrow> join ''.'' segments | None \<Rightarrow> ''<member>''))"

text \<open>The lookup of a map member in \<open>classify_select\<close>.\<close>

definition select_member :: "'m match_ctx \<Rightarrow> fexpr \<Rightarrow> match_stop + 'm match_side" where
  "select_member ctx expr =
     (case expr of
        Select (Ident base) field \<Rightarrow>
          (case message_field (mc_pool ctx) (mc_ops ctx) (mc_message ctx) base of
             Some fd \<Rightarrow>
               if fd_is_map fd then
                 (case map_get (mo_get_field (mc_ops ctx) (mc_message ctx) base) field of
                    Some member \<Rightarrow> Inr (Side_Field (FV_Present (map_value_field (mc_pool ctx) fd) member))
                  | None \<Rightarrow> Inr (Side_Field FV_Absent))
               else Inl (unknown_member expr)
           | None \<Rightarrow> Inl (unknown_member expr))
      | _ \<Rightarrow> Inl (unknown_member expr))"

definition match_classify_select :: "'m match_ctx \<Rightarrow> fexpr \<Rightarrow> match_stop + 'm match_side" where
  "match_classify_select ctx expr =
     (case qualified_segments expr of
        Some segments \<Rightarrow>
          res_bind (match_resolve_path (mc_pool ctx) (mc_ops ctx) (mc_message ctx) segments) (\<lambda>resolved.
            case resolved of
              Path_NotAField \<Rightarrow> select_member ctx expr
            | _ \<Rightarrow> Inr (Side_Field (into_field resolved)))
      | None \<Rightarrow> select_member ctx expr)"

definition match_classify :: "'m match_ctx \<Rightarrow> fexpr \<Rightarrow> match_stop + 'm match_side" where
  "match_classify ctx expr =
     (case expr of
        Const _ \<Rightarrow> Inr Side_Literal
      | Call fn _ \<Rightarrow>
          if fn = ''timestamp'' \<or> fn = ''duration'' then Inr Side_Literal
          else Inl (Match_Err (M_Unsupported (''`'' @ fn @ ''` is not valid in comparison operand position'')))
      | Ident name \<Rightarrow>
          res_bind (match_resolve_path (mc_pool ctx) (mc_ops ctx) (mc_message ctx) [name]) (\<lambda>resolved.
            case resolved of
              Path_NotAField \<Rightarrow>
                (case ident_type (mc_declarations ctx) name of
                   Some (TEnum _) \<Rightarrow> Inr Side_Literal
                 | _ \<Rightarrow> Inl (Match_Err (M_UnknownIdentifier name)))
            | _ \<Rightarrow> Inr (Side_Field (into_field resolved)))
      | Select _ _ \<Rightarrow> match_classify_select ctx expr)"

subsection \<open>Lowering\<close>

text \<open>\<open>format!\<close> with a zero-padded width.\<close>

definition padded :: "nat \<Rightarrow> int \<Rightarrow> string" where
  "padded w n = replicate (w - length (show_nat (nat n))) CHR ''0'' @ show_nat (nat n)"

definition seconds_field :: "descriptor_pool \<Rightarrow> 'm message_ops \<Rightarrow> 'm \<Rightarrow> int" where
  "seconds_field pool ops m = (case field_by_name pool ops m ''seconds'' of Some (V_I64 s) \<Rightarrow> s | _ \<Rightarrow> 0)"

definition nanos_field :: "descriptor_pool \<Rightarrow> 'm message_ops \<Rightarrow> 'm \<Rightarrow> int" where
  "nanos_field pool ops m = (case field_by_name pool ops m ''nanos'' of Some (V_I32 n) \<Rightarrow> n | _ \<Rightarrow> 0)"

definition rfc3339 :: "descriptor_pool \<Rightarrow> 'm message_ops \<Rightarrow> 'm \<Rightarrow> string" where
  "rfc3339 pool ops m =
     (let seconds = max (seconds_field pool ops m) 0;
          days = seconds div 86400;
          tod = seconds mod 86400;
          hour = tod div 3600; minute = (tod mod 3600) div 60; second = tod mod 60;
          z = days + 719468;
          era = z div 146097;
          doe = z - era * 146097;
          yoe = (doe - doe div 1460 + doe div 36524 - doe div 146096) div 365;
          doy = doe - (365 * yoe + yoe div 4 - yoe div 100);
          mp = (5 * doy + 2) div 153;
          day = doy - (153 * mp + 2) div 5 + 1;
          month = (if mp < 10 then mp + 3 else mp - 9);
          year = yoe + era * 400 + (if month \<le> 2 then 1 else 0)
      in padded 4 year @ ''-'' @ padded 2 month @ ''-'' @ padded 2 day @ ''T''
         @ padded 2 hour @ '':'' @ padded 2 minute @ '':'' @ padded 2 second @ ''Z'')"

definition duration_seconds :: "descriptor_pool \<Rightarrow> 'm message_ops \<Rightarrow> 'm \<Rightarrow> f64" where
  "duration_seconds pool ops m =
     f64_add (int_as_f64 (seconds_field pool ops m)) (nanos_as_f64 (nanos_field pool ops m))"

definition duration_seconds_str :: "string \<Rightarrow> match_stop + f64" where
  "duration_seconds_str literal =
     ok_or (Match_Err (M_InvalidDuration literal)) (Option.bind (strip_suffix ''s'' literal) f64_from_str)"

definition lower_field :: "'m match_ctx \<Rightarrow> field_descriptor \<Rightarrow> 'm rvalue \<Rightarrow> match_stop + match_operand" where
  "lower_field ctx fd v =
     (case v of
        V_Bool b \<Rightarrow> Inr (M_Bool b)
      | V_I32 i \<Rightarrow> Inr (M_Num (int_as_f64 i))
      | V_I64 i \<Rightarrow> Inr (M_Num (int_as_f64 i))
      | V_U32 n \<Rightarrow> Inr (M_Num (int_as_f64 (int n)))
      | V_U64 n \<Rightarrow> Inr (M_Num (int_as_f64 (int n)))
      | V_F32 x \<Rightarrow> Inr (M_Num x)
      | V_F64 x \<Rightarrow> Inr (M_Num x)
      | V_String s \<Rightarrow> Inr (M_Text s)
      | V_EnumNumber number \<Rightarrow>
          (case fd_kind fd of
             K_Enum e \<Rightarrow>
               Inr (M_Text (case dp_enum_name (mc_pool ctx) e number of
                              Some name \<Rightarrow> name | None \<Rightarrow> show_int number))
           | _ \<Rightarrow> Inl (Match_Err (M_Unsupported ''an enum value on a non-enum field'')))
      | V_Message sub \<Rightarrow>
          (let name = mo_full_name (mc_ops ctx) sub in
           if name = ''google.protobuf.Timestamp'' then Inr (M_Text (rfc3339 (mc_pool ctx) (mc_ops ctx) sub))
           else if name = ''google.protobuf.Duration''
           then Inr (M_Num (duration_seconds (mc_pool ctx) (mc_ops ctx) sub))
           else Inl (Match_Err (M_Unsupported (''cannot compare a '' @ name @ '' message field''))))
      | V_Bytes _ \<Rightarrow> Inl (Match_Err (M_Unsupported ''cannot compare a bytes, list, or map field''))
      | V_List _ \<Rightarrow> Inl (Match_Err (M_Unsupported ''cannot compare a bytes, list, or map field''))
      | V_Map _ \<Rightarrow> Inl (Match_Err (M_Unsupported ''cannot compare a bytes, list, or map field'')))"

definition lower_literal :: "fexpr \<Rightarrow> match_stop + match_operand" where
  "lower_literal expr =
     (case expr of
        Const (CInt i) \<Rightarrow> Inr (M_Num (int_as_f64 i))
      | Const (CUint n) \<Rightarrow> Inr (M_Num (int_as_f64 (int n)))
      | Const (CDouble x) \<Rightarrow> Inr (M_Num x)
      | Const (CBool b) \<Rightarrow> Inr (M_Bool b)
      | Const (CString s) \<Rightarrow> Inr (M_Text s)
      | Ident name \<Rightarrow> Inr (M_Text name)
      | Call fn args \<Rightarrow>
          (let invalid = Inl (Match_Err (M_Unsupported
                            (''`'' @ fn @ ''` is not valid in comparison operand position''))) in
           case args of
             [Const (CString t)] \<Rightarrow>
               if fn = ''timestamp'' then Inr (M_Text t)
               else if fn = ''duration'' then res_bind (duration_seconds_str t) (\<lambda>x. Inr (M_Num x))
               else invalid
           | _ \<Rightarrow> invalid)
      | Const (CBytes _) \<Rightarrow> Inl (Match_Err (M_Unsupported ''a bytes literal is not comparable''))
      | Select _ _ \<Rightarrow> Inl (Match_Err (M_Unsupported ''a member selection is not a literal'')))"

subsection \<open>Leaves\<close>

fun op_matches :: "match_op \<Rightarrow> ordering \<Rightarrow> bool" where
  "op_matches M_Eq c \<longleftrightarrow> c = Cmp_Equal"
| "op_matches M_Ne c \<longleftrightarrow> c \<noteq> Cmp_Equal"
| "op_matches M_Lt c \<longleftrightarrow> c = Cmp_Less"
| "op_matches M_Le c \<longleftrightarrow> c \<noteq> Cmp_Greater"
| "op_matches M_Gt c \<longleftrightarrow> c = Cmp_Greater"
| "op_matches M_Ge c \<longleftrightarrow> c \<noteq> Cmp_Less"

definition match_apply :: "match_op \<Rightarrow> match_operand \<Rightarrow> match_operand \<Rightarrow> match_stop + truth" where
  "match_apply op l r =
     res_bind
       (case (l, r) of
          (M_Num a, M_Num b) \<Rightarrow> Inr (f64_cmp a b)
        | (M_Text a, M_Text b) \<Rightarrow> Inr (Some (cmp a b))
        | (M_Bool a, M_Bool b) \<Rightarrow> Inr (Some (cmp a b))
        | _ \<Rightarrow> Inl (Match_Err (M_Unsupported ''a comparison between mismatched operand types'')))
       (\<lambda>ord. case ord of
           None \<Rightarrow> Inr Truth_False
         | Some ord \<Rightarrow> Inr (truth_known (op_matches op ord)))"

definition eval_compare ::
  "'m match_ctx \<Rightarrow> match_op \<Rightarrow> 'm field_value \<Rightarrow> fexpr \<Rightarrow> match_stop + truth" where
  "eval_compare ctx op field expr =
     (case field of
        FV_Absent \<Rightarrow> Inr Truth_Unknown
      | FV_Present fd v \<Rightarrow>
          res_bind (lower_field ctx fd v) (\<lambda>l.
            res_bind (lower_literal expr) (\<lambda>r. match_apply op l r)))"

definition match_compare ::
  "'m match_ctx \<Rightarrow> match_op \<Rightarrow> fexpr \<Rightarrow> fexpr \<Rightarrow> match_stop + truth" where
  "match_compare ctx op left right =
     res_bind (match_classify ctx left) (\<lambda>l.
       res_bind (match_classify ctx right) (\<lambda>r.
         case (l, r) of
           (Side_Field field, Side_Literal) \<Rightarrow> eval_compare ctx op field right
         | (Side_Literal, Side_Field field) \<Rightarrow> eval_compare ctx (match_mirror op) field left
         | (Side_Field _, Side_Field _) \<Rightarrow>
             Inl (Match_Err (M_Unsupported ''a comparison between two fields is not supported''))
         | (Side_Literal, Side_Literal) \<Rightarrow>
             Inl (Match_Err (M_Unsupported ''a comparison must reference a message field''))))"

text \<open>\<open>as_str() == Some(arg)\<close>, and the substring test on lowered ASCII.\<close>

definition is_str_value :: "string \<Rightarrow> 'm rvalue \<Rightarrow> bool" where
  "is_str_value arg v = (case v of V_String s \<Rightarrow> s = arg | _ \<Rightarrow> False)"

definition contains_ci :: "string \<Rightarrow> string \<Rightarrow> bool" where
  "contains_ci text arg = sublist (map ascii_lower arg) (map ascii_lower text)"

definition has_field_value :: "'m match_ctx \<Rightarrow> field_descriptor \<Rightarrow> 'm rvalue \<Rightarrow> string \<Rightarrow> match_stop + truth" where
  "has_field_value ctx fd v arg =
     (if fd_is_map fd then Inr (truth_known (map_get v arg \<noteq> None))
      else if fd_is_list fd then
        Inr (truth_known (case v of V_List items \<Rightarrow> list_ex (is_str_value arg) items | _ \<Rightarrow> False))
      else
        (case fd_kind fd of
           K_String \<Rightarrow> Inr (truth_known (contains_ci (case v of V_String s \<Rightarrow> s | _ \<Rightarrow> []) arg))
         | k \<Rightarrow>
             if k = K_Message ''google.protobuf.Timestamp'' then Inr Truth_True
             else Inl (Match_Err (M_Unsupported (''the has operator does not apply to a ''
                                                 @ mc_kind_debug ctx k @ '' field'')))))"

definition match_has :: "'m match_ctx \<Rightarrow> fexpr \<Rightarrow> fexpr \<Rightarrow> match_stop + truth" where
  "match_has ctx left right =
     (case right of
        Const (CString arg) \<Rightarrow>
          res_bind (match_classify ctx left) (\<lambda>side.
            case side of
              Side_Field FV_Absent \<Rightarrow> Inr Truth_False
            | Side_Field (FV_Present fd v) \<Rightarrow> has_field_value ctx fd v arg
            | Side_Literal \<Rightarrow>
                Inl (Match_Err (M_Unsupported (''the has operator'' @ [CHR 0x27]
                                               @ ''s left operand must be a message field''))))
      | _ \<Rightarrow> Inl (Match_Err (M_Unsupported (''the has operator'' @ [CHR 0x27]
                                            @ ''s right operand must be a string value''))))"

subsection \<open>Filters\<close>

definition match_comparison :: "string \<Rightarrow> match_op option" where
  "match_comparison name =
     map_of [(''='', M_Eq), (''!='', M_Ne), (''<'', M_Lt), (''<='', M_Le), (''>'', M_Gt), (''>='', M_Ge)] name"

fun eval :: "'m match_ctx \<Rightarrow> fexpr \<Rightarrow> match_stop + truth" where
  "eval ctx (Call name args) =
     (case args of
        [left, right] \<Rightarrow>
          if name = fn_AND then
            res_bind (eval ctx left) (\<lambda>l. res_bind (eval ctx right) (\<lambda>r. Inr (truth_and l r)))
          else if name = fn_OR then
            res_bind (eval ctx left) (\<lambda>l. res_bind (eval ctx right) (\<lambda>r. Inr (truth_or l r)))
          else (case match_comparison name of
                  Some op \<Rightarrow> match_compare ctx op left right
                | None \<Rightarrow>
                    if name = '':'' then match_has ctx left right
                    else Inl (Match_Err (M_Unsupported (''operator `'' @ name @ ''`''))))
      | [inner] \<Rightarrow>
          if name = fn_NOT then res_bind (eval ctx inner) (\<lambda>t. Inr (truth_not t))
          else Inl (Match_Err (M_Unsupported (''operator `'' @ name @ ''`'')))
      | _ \<Rightarrow> Inl (Match_Err (M_Unsupported (''operator `'' @ name @ ''`''))))"
| "eval ctx other =
     Inl (Match_Err (M_Unsupported (''expected a boolean expression, found '' @ expr_debug (mc_unicode ctx) other)))"

definition matches_dynamic :: "'m match_ctx \<Rightarrow> filter_ \<Rightarrow> match_stop + bool" where
  "matches_dynamic ctx filtr = res_bind (eval ctx (flt_expr filtr)) (\<lambda>t. Inr (t = Truth_True))"

text \<open>The typed facade: \<open>to_dyn\<close> is the transcoding through the wire bytes.\<close>

definition matches :: "('a \<Rightarrow> 'm) \<Rightarrow> 'a \<Rightarrow> 'm match_ctx \<Rightarrow> filter_ \<Rightarrow> match_stop + bool" where
  "matches to_dyn msg ctx filtr = matches_dynamic (ctx\<lparr>mc_message := to_dyn msg\<rparr>) filtr"

end
