(* ===== verification/Matcher_Agreement.thy ===== *)
theory Matcher_Agreement
  imports Matcher Sql_Transpile Sql_Timestamp "HOL-Library.Product_Lexorder"
begin

text \<open>
  The in-memory matcher and the SQL path select the same messages. A row holds a message when every
  declared column has the value the store writes for the field, and the engine orders values and
  answers has tests as SQLite documents it; both are hypotheses on the engine, met by the example
  at the end. Filters and messages are restricted to numbers \<open>f64\<close> represents exactly, the bound the
  matcher's own documentation gives.
\<close>

subsection \<open>The duplicated timestamp text\<close>

lemma padded_zero_pad: "padded = zero_pad"
  by (intro ext) (simp add: padded_def zero_pad_def)

theorem rfc3339_is_format_timestamp:
  "rfc3339 pool ops m =
     format_timestamp \<lparr>ts_seconds = seconds_field pool ops m, ts_nanos = nanos_field pool ops m\<rparr>"
  by (simp only: rfc3339_def format_timestamp_def civil_from_days_def date_of_def year_of_era_def Let_def
      padded_zero_pad prod.case timestamp.simps)

subsection \<open>The engine and the row\<close>

fun truth_option :: "truth \<Rightarrow> bool option" where
  "truth_option Truth_True = Some True"
| "truth_option Truth_False = Some False"
| "truth_option Truth_Unknown = None"

fun exact_num :: "sql_value \<Rightarrow> f64 option" where
  "exact_num (S_Int i) = Some (int_exact i)"
| "exact_num (S_Double d) = (if d = NaN then None else Some d)"
| "exact_num _ = None"

text \<open>Numbers compare by value, whatever their storage class; texts byte by byte.\<close>

definition sqlite_order :: "('r, 'k::linorder) engine \<Rightarrow> bool" where
  "sqlite_order eng \<longleftrightarrow>
     (\<forall>a b x y. exact_num a = Some x \<longrightarrow> exact_num b = Some y \<longrightarrow>
        f64_cmp x y = Some (cmp (en_key eng a) (en_key eng b)))
     \<and> (\<forall>s t. cmp (en_key eng (S_Text s)) (en_key eng (S_Text t)) = cmp s t)
     \<and> (\<forall>b c. cmp (en_key eng (S_Bool b)) (en_key eng (S_Bool c)) = cmp b c)"

text \<open>\<open>LIKE\<close>, \<open>IS NOT NULL\<close>, and \<open>EXISTS\<close> over the members of a null document.\<close>

definition sqlite_has :: "('r, 'k) engine \<Rightarrow> bool" where
  "sqlite_has eng \<longleftrightarrow>
     (\<forall>r c t arg. en_column eng r c = S_Text t \<longrightarrow>
        en_has eng r c (Has_Substring arg) = Some (contains_ci t arg))
     \<and> (\<forall>r c. en_has eng r c Has_Present = Some (en_column eng r c \<noteq> S_Null))
     \<and> (\<forall>r c arg. en_column eng r c = S_Null \<longrightarrow>
          en_has eng r c (Has_Key arg) = Some False \<and> en_has eng r c (Has_Element arg) = Some False)"

text \<open>The value the store writes for a field, where it is a number the matcher keeps exact.\<close>

definition exact_int :: "int \<Rightarrow> sql_value option" where
  "exact_int i = (if \<bar>i\<bar> \<le> 2 ^ 53 then Some (S_Int i) else None)"

definition exact_double :: "f64 \<Rightarrow> sql_value option" where
  "exact_double x = (if x = NaN then None else Some (S_Double x))"

definition column_of :: "'m match_ctx \<Rightarrow> field_descriptor \<Rightarrow> 'm rvalue \<Rightarrow> sql_value option" where
  "column_of ctx fd v =
     (case v of
        V_Bool b \<Rightarrow> Some (S_Bool b)
      | V_I32 i \<Rightarrow> exact_int i
      | V_I64 i \<Rightarrow> exact_int i
      | V_U32 n \<Rightarrow> exact_int (int n)
      | V_U64 n \<Rightarrow> exact_int (int n)
      | V_F32 x \<Rightarrow> exact_double x
      | V_F64 x \<Rightarrow> exact_double x
      | V_String s \<Rightarrow> Some (S_Text s)
      | V_EnumNumber number \<Rightarrow>
          (case fd_kind fd of
             K_Enum e \<Rightarrow> Some (S_Text (case dp_enum_name (mc_pool ctx) e number of
                                         Some name \<Rightarrow> name | None \<Rightarrow> show_int number))
           | _ \<Rightarrow> None)
      | V_Message sub \<Rightarrow>
          (if mo_full_name (mc_ops ctx) sub = ''google.protobuf.Timestamp'' then
             Some (S_Text (format_timestamp
               \<lparr>ts_seconds = seconds_field (mc_pool ctx) (mc_ops ctx) sub,
                ts_nanos = nanos_field (mc_pool ctx) (mc_ops ctx) sub\<rparr>))
           else if mo_full_name (mc_ops ctx) sub = ''google.protobuf.Duration''
           then exact_double (duration_seconds (mc_pool ctx) (mc_ops ctx) sub)
           else None)
      | _ \<Rightarrow> None)"

text \<open>A column value holds a field value when it is null for an absent one, and otherwise the value written.\<close>

definition holds :: "'m match_ctx \<Rightarrow> 'm field_value \<Rightarrow> sql_value \<Rightarrow> bool" where
  "holds ctx fv a \<longleftrightarrow>
     (case fv of
        FV_Absent \<Rightarrow> a = S_Null
      | FV_Present fd v \<Rightarrow> \<forall>l. lower_field ctx fd v = Inr l \<longrightarrow> column_of ctx fd v = Some a)"

text \<open>A declared type and the descriptor and value it was derived from.\<close>

definition fits_type :: "'m match_ctx \<Rightarrow> ftype \<Rightarrow> field_descriptor \<Rightarrow> 'm rvalue \<Rightarrow> bool" where
  "fits_type ctx ty fd v \<longleftrightarrow>
     (case ty of
        TMap _ _ \<Rightarrow> fd_is_map fd
      | TList _ \<Rightarrow> \<not> fd_is_map fd \<and> fd_is_list fd
      | TString \<Rightarrow> \<not> fd_is_map fd \<and> \<not> fd_is_list fd \<and> fd_kind fd = K_String \<and> (\<exists>t. v = V_String t)
      | TTimestamp \<Rightarrow> \<not> fd_is_map fd \<and> \<not> fd_is_list fd \<and> fd_kind fd = K_Message ''google.protobuf.Timestamp''
          \<and> (\<exists>sub. v = V_Message sub \<and> mo_full_name (mc_ops ctx) sub = ''google.protobuf.Timestamp'')
      | _ \<Rightarrow> True)"

text \<open>The JSON of a map or list column, as \<open>json_each\<close> and \<open>json_extract\<close> see it.\<close>

definition json_holds ::
  "'m match_ctx \<Rightarrow> ('r, 'k) engine \<Rightarrow> 'r \<Rightarrow> string \<Rightarrow> field_descriptor \<Rightarrow> 'm rvalue \<Rightarrow> bool" where
  "json_holds ctx eng r c fd v \<longleftrightarrow>
     (fd_is_map fd \<longrightarrow>
        (\<forall>key. en_has eng r c (Has_Key key) = Some (map_get v key \<noteq> None)
           \<and> holds ctx (case map_get v key of
                          Some member \<Rightarrow> FV_Present (map_value_field (mc_pool ctx) fd) member
                        | None \<Rightarrow> FV_Absent) (en_member eng r c key)))
     \<and> (\<not> fd_is_map fd \<and> fd_is_list fd \<longrightarrow>
          (\<forall>arg. en_has eng r c (Has_Element arg) =
             Some (case v of V_List items \<Rightarrow> list_ex (is_str_value arg) items | _ \<Rightarrow> False)))"

text \<open>
  Row \<open>r\<close> holds the context's message under the schema: every column is a field of the message of
  the declared type; what is declared without a column (an enum value) is no field.
\<close>

definition path_of :: "'m match_ctx \<Rightarrow> string list \<Rightarrow> match_stop + 'm path_result" where
  "path_of ctx segs = match_resolve_path (mc_pool ctx) (mc_ops ctx) (mc_message ctx) segs"

definition plain_name :: "string \<Rightarrow> bool" where
  "plain_name s \<longleftrightarrow> CHR ''.'' \<notin> set s"

definition row_of :: "'m match_ctx \<Rightarrow> schema \<Rightarrow> ('r, 'k) engine \<Rightarrow> 'r \<Rightarrow> bool" where
  "row_of ctx s eng r \<longleftrightarrow>
     (\<forall>segs c. segs \<noteq> [] \<longrightarrow> list_all plain_name segs \<longrightarrow> schema_column s (join ''.'' segs) = Some c \<longrightarrow>
        (\<exists>res ty. path_of ctx segs = Inr res \<and> res \<noteq> Path_NotAField
           \<and> holds ctx (into_field res) (en_column eng r c)
           \<and> ident_type (mc_declarations ctx) (join ''.'' segs) = Some ty
           \<and> (\<forall>fd v. res = Path_Present fd v \<longrightarrow> fits_type ctx ty fd v \<and> json_holds ctx eng r c fd v)))
     \<and> (\<forall>segs. segs \<noteq> [] \<longrightarrow> list_all plain_name segs \<longrightarrow>
          ident_type (mc_declarations ctx) (join ''.'' segs) \<noteq> None \<longrightarrow>
          schema_column s (join ''.'' segs) = None \<longrightarrow> path_of ctx segs = Inr Path_NotAField)
     \<and> (\<forall>base. schema_column s base \<noteq> None \<longrightarrow> plain_name base \<longrightarrow>
          (\<exists>k w. ident_type (mc_declarations ctx) base = Some (TMap k w)) \<longrightarrow>
          (\<exists>fd. message_field (mc_pool ctx) (mc_ops ctx) (mc_message ctx) base = Some fd \<and> fd_is_map fd))"

text \<open>
  The filters the two paths agree on: plain names, exact numbers, and no has test on the text of a
  field below an unset message.
\<close>

fun exact_literal :: "fexpr \<Rightarrow> bool" where
  "exact_literal (Const (CInt i)) \<longleftrightarrow> \<bar>i\<bar> \<le> 2 ^ 53"
| "exact_literal (Const (CUint n)) \<longleftrightarrow> n \<le> 2 ^ 53"
| "exact_literal (Const (CDouble x)) \<longleftrightarrow> x \<noteq> NaN"
| "exact_literal (Call fn [Const (CString t)]) \<longleftrightarrow>
     (fn = ''duration'' \<longrightarrow> Option.bind (strip_suffix ''s'' t) f64_from_str \<noteq> Some NaN)"
| "exact_literal _ \<longleftrightarrow> True"

fun plain_path :: "fexpr \<Rightarrow> bool" where
  "plain_path (Ident name) \<longleftrightarrow> plain_name name"
| "plain_path (Select e field) \<longleftrightarrow> plain_path e \<and> plain_name field"
| "plain_path _ \<longleftrightarrow> True"

definition set_text :: "'m match_ctx \<Rightarrow> fexpr \<Rightarrow> bool" where
  "set_text ctx e \<longleftrightarrow>
     match_classify ctx e = Inr (Side_Field FV_Absent) \<longrightarrow>
     Option.bind (qualified_name e) (ident_type (mc_declarations ctx)) \<noteq> Some TString"

fun within_agreement :: "'m match_ctx \<Rightarrow> fexpr \<Rightarrow> bool" where
  "within_agreement ctx (Call name args) \<longleftrightarrow>
     (case args of
        [a, b] \<Rightarrow>
          if name = fn_AND \<or> name = fn_OR then within_agreement ctx a \<and> within_agreement ctx b
          else exact_literal a \<and> exact_literal b \<and> plain_path a \<and> plain_path b
               \<and> (name = '':'' \<longrightarrow> set_text ctx a)
      | [a] \<Rightarrow> within_agreement ctx a
      | _ \<Rightarrow> True)"
| "within_agreement ctx _ \<longleftrightarrow> True"

subsection \<open>Operands agree\<close>

text \<open>A column value and a lowered operand that compare alike.\<close>

definition represents :: "sql_value \<Rightarrow> match_operand \<Rightarrow> bool" where
  "represents a l \<longleftrightarrow>
     (case l of
        M_Num x \<Rightarrow> \<exists>y. exact_num a = Some y \<and> (\<forall>z. f64_cmp x z = f64_cmp y z \<and> f64_cmp z x = f64_cmp z y)
      | M_Text s \<Rightarrow> a = S_Text s
      | M_Bool b \<Rightarrow> a = S_Bool b)"

fun sql_op :: "match_op \<Rightarrow> cmp_op" where
  "sql_op M_Eq = Op_Eq" | "sql_op M_Ne = Op_Ne" | "sql_op M_Lt = Op_Lt"
| "sql_op M_Le = Op_Le" | "sql_op M_Gt = Op_Gt" | "sql_op M_Ge = Op_Ge"

lemma sql_op_mirror: "sql_op (match_mirror op) = mirror (sql_op op)"
  by (cases op) simp_all

lemma comparison_sql_op: "comparison_of name = map_option sql_op (match_comparison name)"
  by (simp add: comparison_of_def match_comparison_def)

lemma represents_int: "\<bar>i\<bar> \<le> 2 ^ 53 \<Longrightarrow> represents (S_Int i) (M_Num (int_as_f64 i))"
  using int_as_f64_exact [of i] by (simp add: represents_def)

lemma represents_double: "x \<noteq> NaN \<Longrightarrow> represents (S_Double x) (M_Num x)"
  by (simp add: represents_def)

lemma represents_not_null: "represents a l \<Longrightarrow> a \<noteq> S_Null"
  by (auto simp: represents_def split: match_operand.splits)

lemma holds_represents:
  assumes "holds ctx (FV_Present fd v) a" and "lower_field ctx fd v = Inr l"
  shows "represents a l"
proof -
  have "column_of ctx fd v = Some a" using assms by (simp add: holds_def)
  then show ?thesis using assms(2)
    by (auto simp: column_of_def lower_field_def exact_int_def exact_double_def represents_int represents_double
        Let_def rfc3339_is_format_timestamp split: rvalue.splits kind.splits if_splits)
      (auto simp: represents_def)
qed

lemma op_holds_cmp: "op_holds (sql_op op) a b \<longleftrightarrow> op_matches op (cmp a b)"
  by (cases op) auto

lemma apply_agrees:
  assumes "sqlite_order eng" and "represents a l" and "represents b r" and "match_apply op l r = Inr t"
  shows "compare3 eng (sql_op op) a b = truth_option t"
proof -
  have "\<exists>ord. t = truth_known (op_matches op ord) \<and> ord = cmp (en_key eng a) (en_key eng b)"
  proof (cases l; cases r)
    fix x y assume l: "l = M_Num x" and r: "r = M_Num y"
    with assms(2,3) obtain x' y' where x: "exact_num a = Some x'" "f64_cmp x y = f64_cmp x' y"
      and y: "exact_num b = Some y'" "f64_cmp x' y = f64_cmp x' y'"
      by (auto simp: represents_def)
    then have "f64_cmp x y = Some (cmp (en_key eng a) (en_key eng b))"
      using assms(1) by (simp add: sqlite_order_def)
    with assms(4) l r show ?thesis by (simp add: match_apply_def)
  next
    fix x y assume "l = M_Text x" "r = M_Text y"
    with assms show ?thesis by (auto simp: represents_def match_apply_def sqlite_order_def)
  next
    fix x y assume "l = M_Bool x" "r = M_Bool y"
    with assms show ?thesis by (auto simp: represents_def match_apply_def sqlite_order_def)
  qed (use assms(4) in \<open>simp_all add: match_apply_def\<close>)
  then show ?thesis
    using represents_not_null [OF assms(2)] represents_not_null [OF assms(3)]
    by (auto simp: compare3_def op_holds_cmp truth_known_def)
qed

text \<open>The dotted text of a path and its segments.\<close>

lemma join_snoc: "xs \<noteq> [] \<Longrightarrow> join sep (xs @ [y]) = join sep xs @ sep @ y"
proof (induction xs)
  case (Cons x xs)
  then show ?case by (cases xs) simp_all
qed simp

lemma qualified_segments_name:
  "qualified_name e = map_option (join ''.'') (qualified_segments e)"
  "qualified_segments e = Some segs \<Longrightarrow> segs \<noteq> []"
proof (induction e arbitrary: segs)
  case (Select e f)
  case 1
  with Select join_snoc show ?case by (auto split: option.splits)
  case 2
  then show ?case by auto
qed auto

lemma plain_segments: "plain_path e \<Longrightarrow> qualified_segments e = Some segs \<Longrightarrow> list_all plain_name segs"
  by (induction e arbitrary: segs) auto

lemma row_column:
  assumes "row_of ctx s eng r" and "plain_path e" and "qualified_segments e = Some segs"
    and "schema_column s (join ''.'' segs) = Some c"
  shows "\<exists>res ty. path_of ctx segs = Inr res \<and> res \<noteq> Path_NotAField
    \<and> holds ctx (into_field res) (en_column eng r c)
    \<and> ident_type (mc_declarations ctx) (join ''.'' segs) = Some ty
    \<and> (\<forall>fd v. res = Path_Present fd v \<longrightarrow> fits_type ctx ty fd v \<and> json_holds ctx eng r c fd v)"
  using assms(1) plain_segments [OF assms(2,3)] qualified_segments_name(2) [OF assms(3)] assms(4)
  unfolding row_of_def by blast

lemma row_no_column:
  assumes "row_of ctx s eng r" and "plain_path e" and "qualified_segments e = Some segs"
    and "schema_column s (join ''.'' segs) = None"
    and "ident_type (mc_declarations ctx) (join ''.'' segs) = Some ty"
  shows "path_of ctx segs = Inr Path_NotAField"
  using assms(1) plain_segments [OF assms(2,3)] qualified_segments_name(2) [OF assms(3)] assms(4,5)
  unfolding row_of_def by blast

lemma row_map:
  assumes "row_of ctx s eng r" and "plain_name base" and "schema_column s base \<noteq> None"
    and "ident_type (mc_declarations ctx) base = Some (TMap k w)"
  shows "\<exists>fd. message_field (mc_pool ctx) (mc_ops ctx) (mc_message ctx) base = Some fd \<and> fd_is_map fd"
  using assms unfolding row_of_def by blast

text \<open>What the two classifications of one operand make of it.\<close>

definition sides_agree :: "'m match_ctx \<Rightarrow> ('r, 'k) engine \<Rightarrow> 'r \<Rightarrow> fexpr \<Rightarrow> operand \<Rightarrow> 'm match_side \<Rightarrow> bool" where
  "sides_agree ctx eng r e x side \<longleftrightarrow>
     (case side of
        Side_Field fv \<Rightarrow> (\<exists>col. x = Operand_Column col \<and> holds ctx fv (column_value eng r col))
      | Side_Literal \<Rightarrow> (\<exists>a. x = Operand_Value a \<and> (\<forall>l. lower_literal e = Inr l \<longrightarrow> represents a l)))"

lemma field_side:
  assumes "path_of ctx segs = Inr res" and "res \<noteq> Path_NotAField"
  shows "(case res of Path_NotAField \<Rightarrow> other | _ \<Rightarrow> Inr (Side_Field (into_field res))) = Inr (Side_Field (into_field res))"
  using assms by (cases res) auto

lemma ident_agrees:
  assumes "row_of ctx s eng r" and "plain_name name"
    and "classify (mc_declarations ctx) s (Ident name) = Inr x" and "match_classify ctx (Ident name) = Inr side"
  shows "sides_agree ctx eng r (Ident name) x side"
proof (cases "schema_column s name")
  case (Some c)
  then obtain res where res: "path_of ctx [name] = Inr res" "res \<noteq> Path_NotAField"
      "holds ctx (into_field res) (en_column eng r c)"
    using row_column [OF assms(1), of "Ident name" "[name]" c] assms(2) by auto
  then have "side = Side_Field (into_field res)"
    using assms(4) by (cases res) (auto simp: match_classify_def path_of_def)
  moreover have "x = Operand_Column (Col_Plain c)" using assms(3) Some by (simp add: classify_def)
  ultimately show ?thesis using res(3) by (simp add: sides_agree_def)
next
  case None
  with assms(3) obtain e where e: "ident_type (mc_declarations ctx) name = Some (TEnum e)"
    and x: "x = Operand_Value (S_Text name)"
    by (auto simp: classify_def split: option.splits ftype.splits)
  have "path_of ctx [name] = Inr Path_NotAField"
    using row_no_column [OF assms(1), of "Ident name" "[name]"] assms(2) None e by simp
  then have "side = Side_Literal" using assms(4) e by (simp add: match_classify_def path_of_def)
  with x show ?thesis by (simp add: sides_agree_def lower_literal_def represents_def)
qed

text \<open>A map member: neither path sees a field of its own there.\<close>

lemma member_agrees:
  assumes "row_of ctx s eng r" and "plain_path (Select (Ident base) f)"
    and "type_of u (mc_declarations ctx) (Select (Ident base) f) = Inr ty"
    and "schema_column s (join ''.'' [base, f]) = None" and "schema_column s base = Some c"
    and "match_classify_select ctx (Select (Ident base) f) = Inr side"
  shows "sides_agree ctx eng r (Select (Ident base) f) (Operand_Column (Col_MapMember c f)) side"
proof -
  have not_field: "path_of ctx [base, f] = Inr Path_NotAField"
  proof (cases "ident_type (mc_declarations ctx) (join ''.'' [base, f])")
    case None
    with assms(3) obtain k w where "ident_type (mc_declarations ctx) base = Some (TMap k w)"
      by (auto simp: lookup_def split: option.splits ftype.splits sum.splits)
    with row_map [OF assms(1), of base k w] assms(2,5) obtain fd where
      "message_field (mc_pool ctx) (mc_ops ctx) (mc_message ctx) base = Some fd" "fd_is_map fd" by auto
    then show ?thesis by (simp add: path_of_def match_singular_def)
  next
    case (Some ty)
    then show ?thesis using row_no_column [OF assms(1,2), of "[base, f]"] assms(4) by simp
  qed
  then have member: "select_member ctx (Select (Ident base) f) = Inr side"
    using assms(6) by (simp add: match_classify_select_def path_of_def)
  then obtain fd where fd: "message_field (mc_pool ctx) (mc_ops ctx) (mc_message ctx) base = Some fd" "fd_is_map fd"
    by (auto simp: select_member_def split: option.splits if_splits)
  obtain res ty' where res: "path_of ctx [base] = Inr res" "res \<noteq> Path_NotAField"
      "\<forall>fd v. res = Path_Present fd v \<longrightarrow> fits_type ctx ty' fd v \<and> json_holds ctx eng r c fd v"
    using row_column [OF assms(1), of "Ident base" "[base]" c] assms(2,5) by auto
  have "res = Path_Present fd (mo_get_field (mc_ops ctx) (mc_message ctx) base)"
    using res(1) fd by (auto simp: path_of_def match_singular_def)
  with res(3) have json: "json_holds ctx eng r c fd (mo_get_field (mc_ops ctx) (mc_message ctx) base)" by blast
  have "side = Side_Field (case map_get (mo_get_field (mc_ops ctx) (mc_message ctx) base) f of
      Some member \<Rightarrow> FV_Present (map_value_field (mc_pool ctx) fd) member | None \<Rightarrow> FV_Absent)"
    using member fd by (auto simp: select_member_def split: option.splits)
  with json fd(2) show ?thesis
    by (auto simp: sides_agree_def json_holds_def)
qed

lemma select_agrees:
  assumes "row_of ctx s eng r" and "plain_path (Select e f)"
    and "type_of u (mc_declarations ctx) (Select e f) = Inr ty"
    and "classify_select s (Select e f) = Inr x" and "match_classify_select ctx (Select e f) = Inr side"
  shows "sides_agree ctx eng r (Select e f) x side"
proof (cases "Option.bind (qualified_name (Select e f)) (schema_column s)")
  case (Some c)
  then obtain segs where segs: "qualified_segments (Select e f) = Some segs" "schema_column s (join ''.'' segs) = Some c"
    by (cases "qualified_segments (Select e f)")
      (auto simp: qualified_segments_name(1) simp del: qualified_name.simps qualified_segments.simps)
  from row_column [OF assms(1,2) segs] obtain res where res: "path_of ctx segs = Inr res" "res \<noteq> Path_NotAField"
      "holds ctx (into_field res) (en_column eng r c)" by blast
  then have "side = Side_Field (into_field res)"
    using assms(5) segs(1) by (cases res) (auto simp: match_classify_select_def path_of_def)
  moreover have "x = Operand_Column (Col_Plain c)"
    using assms(4) segs by (simp add: classify_select_def qualified_segments_name(1) del: qualified_name.simps qualified_segments.simps)
  ultimately show ?thesis using res(3) by (simp add: sides_agree_def)
next
  case None
  then have none: "(case qualified_name (Select e f) of None \<Rightarrow> None | Some q \<Rightarrow> schema_column s q) = None"
    by (auto split: option.splits)
  with assms(4) obtain base c where e: "e = Ident base" and c: "schema_column s base = Some c"
    and x: "x = Operand_Column (Col_MapMember c f)"
    unfolding classify_select_def none by (cases e) (auto split: option.splits)
  have "schema_column s (join ''.'' [base, f]) = None" using none by (simp add: e)
  with member_agrees [OF assms(1)] assms(2,3,5) c show ?thesis unfolding e x by blast
qed

lemma literal_agrees:
  assumes "exact_literal e" and "\<not> (\<exists>n. e = Ident n)" and "\<not> (\<exists>e' f. e = Select e' f)"
    and "classify d s e = Inr x" and "match_classify ctx e = Inr side"
  shows "sides_agree ctx eng r e x side"
proof (cases e)
  case (Const c)
  with assms show ?thesis
    by (cases c) (auto simp: classify_def match_classify_def sides_agree_def lower_literal_def uint_as_i64_def
        represents_int represents_double represents_def [of "S_Bool _"] represents_def [of "S_Text _"])
next
  case (Call fn args)
  with assms(5) have side: "side = Side_Literal"
    by (auto simp: match_classify_def split: if_splits)
  from assms(4) Call obtain t where args: "args = [Const (CString t)]"
    by (auto simp: classify_def classify_constructor_def Let_def split: list.splits fexpr.splits const.splits)
  with assms(1,4) Call side show ?thesis
    by (auto simp: classify_def classify_constructor_def sides_agree_def lower_literal_def Let_def
        parse_duration_seconds_def duration_seconds_str_def res_bind_Inr_iff ok_or_def represents_double
        represents_def [of "S_Text _"] split: if_splits option.splits)
qed (use assms in auto)

lemma classify_agrees:
  assumes "row_of ctx s eng r" and "plain_path e" and "exact_literal e"
    and "type_of u (mc_declarations ctx) e = Inr ty"
    and "classify (mc_declarations ctx) s e = Inr x" and "match_classify ctx e = Inr side"
  shows "sides_agree ctx eng r e x side"
proof (cases e)
  case (Ident n)
  with ident_agrees [OF assms(1)] assms(2,5,6) show ?thesis by simp
next
  case (Select e' f)
  have "classify_select s (Select e' f) = Inr x" "match_classify_select ctx (Select e' f) = Inr side"
    using assms(5,6) Select by (simp_all only: classify_def match_classify_def fexpr.case)
  with select_agrees [OF assms(1)] assms(2,4) Select show ?thesis by blast
qed (use literal_agrees [OF assms(3) _ _ assms(5,6)] in auto)

subsection \<open>Filters agree\<close>

lemma typed_args: "type_of u d (Call fn args) = Inr ty \<Longrightarrow> a \<in> set args \<Longrightarrow> \<exists>ty. type_of u d a = Inr ty"
  by (auto simp: res_bind_Inr_iff try_map_Inr_iff list_all2_conv_all_nth in_set_conv_nth)

lemma compare_agrees:
  assumes "sqlite_order eng" and "row_of ctx s eng r" and "plain_path a" and "plain_path b"
    and "exact_literal a" and "exact_literal b"
    and "type_of u (mc_declarations ctx) a = Inr ty" and "type_of u (mc_declarations ctx) b = Inr ty'"
    and "transpile_compare (mc_declarations ctx) s (sql_op op) a b = Inr p" and "match_compare ctx op a b = Inr t"
  shows "sat eng r p = truth_option t"
proof -
  obtain x y where x: "classify (mc_declarations ctx) s a = Inr x" "classify (mc_declarations ctx) s b = Inr y"
    using assms(9) by (auto simp: transpile_compare_def res_bind_Inr_iff)
  obtain l r' where m: "match_classify ctx a = Inr l" "match_classify ctx b = Inr r'"
    using assms(10) by (auto simp: match_compare_def res_bind_Inr_iff)
  have agree: "sides_agree ctx eng r a x l" "sides_agree ctx eng r b y r'"
    using classify_agrees [OF assms(2)] assms(3-8) x m by blast+
  have leaf: "compare3 eng (sql_op op') (column_value eng r col) c = truth_option t"
    if "holds ctx fv (column_value eng r col)" "\<forall>l. lower_literal e = Inr l \<longrightarrow> represents c l"
      "eval_compare ctx op' fv e = Inr t" for op' fv e col c
  proof (cases fv)
    case (FV_Present fd v)
    with that(3) obtain l r' where "lower_field ctx fd v = Inr l" "lower_literal e = Inr r'" "match_apply op' l r' = Inr t"
      by (auto simp: eval_compare_def res_bind_Inr_iff)
    with that(1,2) FV_Present holds_represents apply_agrees [OF assms(1)] show ?thesis by blast
  next
    case FV_Absent
    with that show ?thesis by (auto simp: holds_def eval_compare_def compare3_def)
  qed
  show ?thesis
  proof (cases l; cases r')
    fix fv assume "l = Side_Field fv" "r' = Side_Literal"
    with agree assms(9,10) x m leaf show ?thesis
      by (auto simp: sides_agree_def transpile_compare_def match_compare_def)
  next
    fix fv assume "l = Side_Literal" "r' = Side_Field fv"
    with agree assms(9,10) x m leaf show ?thesis
      by (auto simp: sides_agree_def transpile_compare_def match_compare_def sql_op_mirror [symmetric])
  qed (use assms(10) m in \<open>simp_all add: match_compare_def\<close>)
qed

lemma has_agrees:
  assumes "sqlite_has eng" and "row_of ctx s eng r" and "plain_path a" and "set_text ctx a"
    and "transpile_has u (mc_declarations ctx) s a b = Inr p" and "match_has ctx a b = Inr t"
  shows "sat eng r p = truth_option t"
proof -
  obtain arg q c ty test where b: "b = Const (CString arg)" and q: "qualified_name a = Some q"
    and c: "schema_column s q = Some c" and ty: "ident_type (mc_declarations ctx) q = Some ty"
    and test: "has_test_for u ty arg = Inr test" and p: "p = P_Has c test"
    using assms(5) by (auto simp: transpile_has_def res_bind_Inr_iff ok_or_def
        split: fexpr.splits const.splits option.splits)
  obtain segs where segs: "qualified_segments a = Some segs" "q = join ''.'' segs"
    using q by (auto simp: qualified_segments_name(1))
  from row_column [OF assms(2,3) segs(1)] c segs(2) ty obtain res where res: "path_of ctx segs = Inr res"
      "res \<noteq> Path_NotAField" "holds ctx (into_field res) (en_column eng r c)"
      "\<forall>fd v. res = Path_Present fd v \<longrightarrow> fits_type ctx ty fd v \<and> json_holds ctx eng r c fd v" by auto
  have side: "match_classify ctx a = Inr (Side_Field (into_field res))"
  proof (cases a)
    case (Ident n)
    with res(1,2) segs show ?thesis by (cases res) (auto simp: match_classify_def path_of_def)
  next
    case (Select e f)
    with res(1,2) segs show ?thesis
      by (cases res) (auto simp: match_classify_def match_classify_select_def path_of_def)
  qed (use q in auto)
  show ?thesis
  proof (cases res)
    case (Path_Present fd v)
    have fits: "fits_type ctx ty fd v" "json_holds ctx eng r c fd v" using res(4) Path_Present by auto
    have col: "lower_field ctx fd v = Inr l \<Longrightarrow> column_of ctx fd v = Some (en_column eng r c)" for l
      using res(3) Path_Present by (simp add: holds_def)
    have t: "has_field_value ctx fd v arg = Inr t"
      using assms(6) side Path_Present by (simp add: match_has_def b)
    show ?thesis
    proof (cases ty)
      case TString
      with fits(1) obtain s' where v: "v = V_String s'" by (auto simp: fits_type_def)
      then have "en_column eng r c = S_Text s'" using col by (simp add: lower_field_def column_of_def)
      with assms(1) t test p TString fits(1) v show ?thesis
        by (auto simp: fits_type_def has_field_value_def has_test_for_def sqlite_has_def truth_known_def)
    next
      case (TMap k w)
      with fits t test p show ?thesis
        by (auto simp: fits_type_def has_field_value_def has_test_for_def json_holds_def truth_known_def)
    next
      case (TList e)
      with fits t test p show ?thesis
        by (auto simp: fits_type_def has_field_value_def has_test_for_def json_holds_def truth_known_def)
    next
      case TTimestamp
      with fits(1) obtain sub where v: "v = V_Message sub" "mo_full_name (mc_ops ctx) sub = ''google.protobuf.Timestamp''"
        by (auto simp: fits_type_def)
      then have "en_column eng r c \<noteq> S_Null" using col by (auto simp: lower_field_def column_of_def)
      with assms(1) t test p TTimestamp fits(1) show ?thesis
        by (auto simp: fits_type_def has_field_value_def has_test_for_def sqlite_has_def)
    qed (use test in \<open>simp_all add: has_test_for_def\<close>)
  next
    case Path_Absent
    then have "t = Truth_False" using assms(6) side by (simp add: match_has_def b)
    moreover have "en_column eng r c = S_Null" using res(3) Path_Absent by (simp add: holds_def)
    moreover have "ty \<noteq> TString" using assms(4) side Path_Absent q ty by (simp add: set_text_def)
    ultimately show ?thesis using assms(1) test p
      by (auto simp: has_test_for_def sqlite_has_def split: ftype.splits)
  qed (use res(2) in simp)
qed

lemma truth_options:
  "truth_option (truth_and a b) = and3 (truth_option a) (truth_option b)"
  "truth_option (truth_or a b) = or3 (truth_option a) (truth_option b)"
  "truth_option (truth_not a) = not3 (truth_option a)"
  by (cases a; cases b; simp add: truth_and_def truth_or_def and3_def or3_def not3_def)+

lemma eval_agrees:
  assumes "sqlite_order eng" and "sqlite_has eng"
  shows "row_of ctx s eng r \<Longrightarrow> within_agreement ctx e \<Longrightarrow> type_of u (mc_declarations ctx) e = Inr ty \<Longrightarrow>
    transpile_expr u (mc_declarations ctx) s e = Inr p \<Longrightarrow> eval ctx e = Inr t \<Longrightarrow> sat eng r p = truth_option t"
proof (induction ctx e arbitrary: p t ty rule: eval.induct)
  case (1 ctx name args)
  consider (two) a b where "args = [a, b]" | (one) a where "args = [a]"
    | (other) "\<nexists>a b. args = [a, b]" "\<nexists>a. args = [a]" by blast
  then show ?case
  proof cases
    case two
    have typed: "\<exists>ty. type_of u (mc_declarations ctx) a = Inr ty" "\<exists>ty. type_of u (mc_declarations ctx) b = Inr ty"
      using typed_args [OF "1.prems"(3)] two by auto
    show ?thesis
    proof (cases "name = fn_AND \<or> name = fn_OR")
      case True
      then show ?thesis using 1 two typed
        by (fastforce simp: res_bind_Inr_iff all3_def any3_def truth_options function_names)
    next
      case False
      with "1.prems"(2) two have ok: "exact_literal a" "exact_literal b" "plain_path a" "plain_path b"
        "name = '':'' \<longrightarrow> set_text ctx a" by auto
      show ?thesis
      proof (cases "match_comparison name")
        case None
        with "1.prems" two False have "transpile_has u (mc_declarations ctx) s a b = Inr p" "match_has ctx a b = Inr t" "name = '':''"
          by (auto simp: comparison_sql_op split: if_splits)
        with has_agrees [OF assms(2) "1.prems"(1)] ok show ?thesis by blast
      next
        case (Some op)
        with "1.prems" two False have "transpile_compare (mc_declarations ctx) s (sql_op op) a b = Inr p"
          "match_compare ctx op a b = Inr t"
          by (auto simp: comparison_sql_op)
        with compare_agrees [OF assms(1)] ok typed "1.prems" show ?thesis by blast
      qed
    qed
  next
    case one
    with 1 typed_args [OF "1.prems"(3)] show ?thesis
      by (fastforce simp: res_bind_Inr_iff truth_options split: if_splits)
  next
    case other
    then show ?thesis using "1.prems" by (auto split: list.splits)
  qed
qed simp_all

text \<open>C3: Within the agreement the matcher is the reference of the SQL path. Take a checked filter whose
  names have no dots of their own, whose numeric literals are at most \<open>2 ^ 53\<close> in absolute value and
  not NaN (a duration literal included), and which has no has test on the text of a field below a
  message that this row's message leaves unset; and a row that holds the message, every column the
  value the store writes for a field the matcher reads exactly. When the matcher evaluates the filter
  without an error, the transpiled predicate has in SQL's three-valued logic the truth it computes,
  and the row is selected exactly when the message matches. Without the condition on has tests the
  two differ (\<open>negated_has_below_unset_message\<close> below).\<close>

theorem matcher_agrees_with_sql:
  assumes "sqlite_order eng" and "sqlite_has eng" and "row_of ctx s eng r"
    and "within_agreement ctx (flt_expr f)" and "checker_check u (flt_expr f) (mc_declarations ctx) = Inr ()"
    and "transpile_filter u f (mc_declarations ctx) s = Inr p" and "eval ctx (flt_expr f) = Inr t"
  shows "sat eng r p = truth_option t \<and> matches_dynamic ctx f = Inr (sat eng r p = Some True)"
proof -
  obtain ty where ty: "type_of u (mc_declarations ctx) (flt_expr f) = Inr ty"
    using assms(5) by (auto simp: checker_check_def res_bind_Inr_iff)
  have "sat eng r p = truth_option t"
    using eval_agrees [OF assms(1-4) ty _ assms(7)] assms(6) by (simp add: transpile_filter_def)
  then show ?thesis using assms(7) by (cases t) (simp_all add: matches_dynamic_def)
qed

subsection \<open>An engine and a row\<close>

text \<open>A storage-class order with numbers by value, and a table of one map and one integer column.\<close>

fun number_key :: "f64 \<Rightarrow> nat \<times> real \<times> string" where
  "number_key NaN = (0, 0, [])"
| "number_key (Inf True) = (2, 0, [])"
| "number_key (Inf False) = (4, 0, [])"
| "number_key x = (3, f64_real x, [])"

fun value_key :: "sql_value \<Rightarrow> nat \<times> real \<times> string" where
  "value_key S_Null = (0, 0, [])"
| "value_key (S_Bool b) = (1, if b then 1 else 0, [])"
| "value_key (S_Int i) = number_key (int_exact i)"
| "value_key (S_Double x) = number_key x"
| "value_key (S_Text s) = (5, 0, s)"
| "value_key (S_Bytes s) = (6, 0, s)"

lemma number_key_cmp: "x \<noteq> NaN \<Longrightarrow> y \<noteq> NaN \<Longrightarrow> f64_cmp x y = Some (cmp (number_key x) (number_key y))"
  by (cases x; cases y) (auto simp: f64_cmp_real cmp_def simp del: f64_cmp.simps(1) f64_real.simps elim!: number_key.elims)

definition table_engine :: "(int, nat \<times> real \<times> string) engine" where
  "table_engine =
     (let column = (\<lambda>r c. if c = ''size'' then S_Int r else S_Text ''{}'');
          member = (\<lambda>r c key. if c = ''labels'' \<and> key = ''env'' then S_Text ''prod'' else S_Null)
      in \<lparr>en_key = value_key, en_column = column, en_member = member,
          en_has = (\<lambda>r c test. case test of
             Has_Substring arg \<Rightarrow> (case column r c of S_Text t \<Rightarrow> Some (contains_ci t arg) | _ \<Rightarrow> None)
           | Has_Key key \<Rightarrow> Some (member r c key \<noteq> S_Null)
           | Has_Element arg \<Rightarrow> Some False
           | Has_Present \<Rightarrow> Some (column r c \<noteq> S_Null)),
          en_raw = (\<lambda>_ _. None)\<rparr>)"

definition table_ctx :: "int \<Rightarrow> int match_ctx" where
  "table_ctx m =
     \<lparr>mc_unicode = ascii_tables,
      mc_pool = \<lparr>dp_field = (\<lambda>_ f.
          if f = ''size'' then Some \<lparr>fd_is_list = False, fd_is_map = False, fd_kind = K_Int64\<rparr>
          else if f = ''labels'' then Some \<lparr>fd_is_list = False, fd_is_map = True, fd_kind = K_Message ''E''\<rparr>
          else None),
        dp_entry_key = (\<lambda>_. K_String), dp_entry_value = (\<lambda>_. K_String), dp_enum_values = (\<lambda>_. []),
        dp_enum_name = (\<lambda>_ _. None)\<rparr>,
      mc_ops = \<lparr>mo_full_name = (\<lambda>_. ''M''), mo_has_field = (\<lambda>_ _. True),
        mo_get_field = (\<lambda>m f. if f = ''size'' then V_I64 m else V_Map [(V_String ''env'', V_String ''prod'')]),
        mo_clear_field = (\<lambda>_ m. m), mo_encode = (\<lambda>_. [])\<rparr>,
      mc_kind_debug = (\<lambda>_. []), mc_declarations = labels_decls, mc_message = m\<rparr>"

lemma table_order: "sqlite_order table_engine"
proof -
  have "cmp (value_key (S_Text s)) (value_key (S_Text t)) = cmp s t" for s t by (simp add: cmp_def)
  moreover have "cmp (value_key (S_Bool b)) (value_key (S_Bool c)) = cmp b c" for b c by (cases b; cases c) (simp_all add: cmp_def)
  moreover have "f64_cmp x y = Some (cmp (value_key a) (value_key b))"
    if "exact_num a = Some x" "exact_num b = Some y" for a b x y
  proof -
    have "value_key c = number_key z \<and> z \<noteq> NaN" if "exact_num c = Some z" for c z
      using that by (cases c) (auto simp: int_exact_def split: if_splits)
    with that number_key_cmp [of x y] show ?thesis by simp
  qed
  ultimately show ?thesis by (simp add: sqlite_order_def table_engine_def Let_def)
qed

lemma table_has: "sqlite_has table_engine"
  by (simp add: sqlite_has_def table_engine_def Let_def)

lemma labels_columns: "schema_column labels_schema q \<noteq> None \<longleftrightarrow> q = ''labels'' \<or> q = ''size''"
  by (simp add: schema_column_def labels_schema_def)

lemma plain_single:
  assumes "segs \<noteq> []" and "list_all plain_name segs" and "join ''.'' segs = q" and "plain_name q"
  shows "segs = [q]"
proof -
  have "split_on CHR ''.'' (join ''.'' segs) = segs"
    by (rule split_on_join) (use assms(1,2) in \<open>auto simp: list_all_iff plain_name_def\<close>)
  moreover have "split_on CHR ''.'' q = [q]"
    using split_on_join [of "[q]" "CHR ''.''"] assms(4) by (simp add: plain_name_def)
  ultimately show ?thesis using assms(3) by simp
qed

lemma table_row:
  assumes "\<bar>m\<bar> \<le> 2 ^ 53"
  shows "row_of (table_ctx m) labels_schema table_engine m"
proof -
  have idents: "ident_type labels_decls q =
      (if q = ''labels'' then Some (TMap TString TString) else if q = ''size'' then Some TInt else None)" for q
    by (simp add: ident_type_def labels_decls_def)
  have env: "map_get (V_Map [(V_String ''env'', V_String ''prod'')]) key =
      (if key = ''env'' then Some (V_String ''prod'') else None)" for key
    by (simp add: map_get_def)
  have column: "\<exists>res ty. path_of (table_ctx m) segs = Inr res \<and> res \<noteq> Path_NotAField
      \<and> holds (table_ctx m) (into_field res) (en_column table_engine m c)
      \<and> ident_type labels_decls q = Some ty
      \<and> (\<forall>fd v. res = Path_Present fd v \<longrightarrow>
           fits_type (table_ctx m) ty fd v \<and> json_holds (table_ctx m) table_engine m c fd v)"
    if segs: "segs \<noteq> []" "list_all plain_name segs" "join ''.'' segs = q" and c: "schema_column labels_schema q = Some c"
    for segs q c
  proof -
    from c have q: "q = ''labels'' \<and> c = ''labels'' \<or> q = ''size'' \<and> c = ''size''"
      by (auto simp: schema_column_def labels_schema_def split: if_splits)
    then have "segs = [q]" using plain_single [OF segs] by (auto simp: plain_name_def)
    with q assms show ?thesis
      by (auto simp: path_of_def table_ctx_def message_field_def match_singular_def idents holds_def lower_field_def
          column_of_def exact_int_def table_engine_def fits_type_def json_holds_def env Let_def map_value_field_def)
  qed
  have [simp]: "mc_declarations (table_ctx m) = labels_decls" by (simp add: table_ctx_def)
  show ?thesis
    unfolding row_of_def
  proof (intro conjI allI impI)
    fix segs assume "ident_type (mc_declarations (table_ctx m)) (join ''.'' segs) \<noteq> None"
      and "schema_column labels_schema (join ''.'' segs) = None"
    then show "path_of (table_ctx m) segs = Inr Path_NotAField"
      using labels_columns [of "join ''.'' segs"] by (simp add: idents split: if_splits)
  next
    fix base assume "\<exists>k w. ident_type (mc_declarations (table_ctx m)) base = Some (TMap k w)"
    then show "\<exists>fd. message_field (mc_pool (table_ctx m)) (mc_ops (table_ctx m)) (mc_message (table_ctx m)) base = Some fd
        \<and> fd_is_map fd"
      by (auto simp: idents message_field_def table_ctx_def split: if_splits)
  qed (use column in auto)
qed

definition table_filter :: filter_ where
  "table_filter =
     \<lparr>flt_expr = Call ''AND'' [Call ''<'' [Const (CInt 3), Ident ''size''],
                             Call ''='' [Select (Ident ''labels'') ''env'', Const (CString ''prod'')]]\<rparr>"

theorem matcher_agrees_with_sql_witness:
  "sat table_engine 5 (P_All [P_Compare (Col_Plain ''size'') Op_Gt (S_Int 3),
       P_Compare (Col_MapMember ''labels'' ''env'') Op_Eq (S_Text ''prod'')]) = Some True
   \<and> matches_dynamic (table_ctx 5) table_filter = Inr True"
proof -
  let ?p = "P_All [P_Compare (Col_Plain ''size'') Op_Gt (S_Int 3),
       P_Compare (Col_MapMember ''labels'' ''env'') Op_Eq (S_Text ''prod'')]"
  have run: "transpile_filter ascii_tables table_filter labels_decls labels_schema = Inr ?p"
    by (simp add: transpile_filter_def table_filter_def transpile_compare_def classify_def classify_select_def
        schema_column_def labels_schema_def comparison_of_def function_names)
  have within_agreement: "within_agreement (table_ctx 5) (flt_expr table_filter)"
    by (simp add: table_filter_def function_names plain_name_def)
  have checked: "checker_check ascii_tables (flt_expr table_filter) (mc_declarations (table_ctx 5)) = Inr ()"
  proof -
    have fns: "lookup_function labels_decls ''AND'' = Some [overload_new TBool [TBool, TBool]]"
      "lookup_function labels_decls ''<'' = Some ordering_overloads"
      "lookup_function labels_decls ''='' = Some equality_overloads"
      by (simp_all add: lookup_function_def labels_decls_def standard_functions_def declarations_builder_def
          declare_function_def)
    have idents: "ident_type labels_decls ''size'' = Some TInt"
      "ident_type labels_decls ''labels'' = Some (TMap TString TString)"
      "ident_type labels_decls ''labels.env'' = None"
      by (simp_all add: ident_type_def labels_decls_def)
    show ?thesis
      by (simp add: table_filter_def table_ctx_def checker_check_def fns idents lookup_def resolve_call_def
          overload_new_def ordering_overloads_def equality_overloads_def bad_presence_def)
  qed
  have cmp: "f64_cmp (int_as_f64 5) (int_as_f64 3) = Some Cmp_Greater"
    by (simp add: int_as_f64_exact) (simp add: int_exact_def signed_def)
  have eval: "eval (table_ctx 5) (flt_expr table_filter) = Inr Truth_True"
    by (simp add: table_filter_def function_names match_comparison_def match_compare_def match_classify_def
        match_classify_select_def select_member_def table_ctx_def message_field_def match_singular_def
        eval_compare_def lower_field_def lower_literal_def match_apply_def cmp map_get_def truth_known_def
        truth_and_def) 
  have row: "row_of (table_ctx 5) labels_schema table_engine 5" by (rule table_row) simp
  have "mc_declarations (table_ctx 5) = labels_decls" by (simp add: table_ctx_def)
  with matcher_agrees_with_sql [OF table_order table_has row within_agreement checked _ eval] run
  show ?thesis by simp
qed

subsection \<open>Where the two paths differ\<close>

text \<open>
  A has test on the text of a field below an unset message: the matcher takes the absent field for
  false, SQL's \<open>LIKE\<close> on the null column is unknown. Under a negation the matcher selects the
  message and SQL does not.
\<close>

definition nested_ctx :: "unit match_ctx" where
  "nested_ctx =
     \<lparr>mc_unicode = ascii_tables,
      mc_pool = \<lparr>dp_field = (\<lambda>_ f. if f = ''sub'' then Some \<lparr>fd_is_list = False, fd_is_map = False, fd_kind = K_Message ''S''\<rparr>
                                 else Some \<lparr>fd_is_list = False, fd_is_map = False, fd_kind = K_String\<rparr>),
        dp_entry_key = (\<lambda>_. K_String), dp_entry_value = (\<lambda>_. K_String), dp_enum_values = (\<lambda>_. []),
        dp_enum_name = (\<lambda>_ _. None)\<rparr>,
      mc_ops = \<lparr>mo_full_name = (\<lambda>_. ''M''), mo_has_field = (\<lambda>_ f. f \<noteq> ''sub''),
        mo_get_field = (\<lambda>_ _. V_String []), mo_clear_field = (\<lambda>_ m. m), mo_encode = (\<lambda>_. [])\<rparr>,
      mc_kind_debug = (\<lambda>_. []),
      mc_declarations = \<lparr>d_idents = [''sub.name'' \<mapsto> TString],
        d_functions = bd_functions (standard_functions declarations_builder), d_field_paths = [''sub.name'']\<rparr>,
      mc_message = ()\<rparr>"

definition nested_filter :: filter_ where
  "nested_filter =
     \<lparr>flt_expr = Call ''NOT'' [Call '':'' [Select (Ident ''sub'') ''name'', Const (CString ''x'')]]\<rparr>"

theorem negated_has_below_unset_message:
  assumes "en_has eng r ''sub_name'' (Has_Substring ''x'') = None"
  shows "matches_dynamic nested_ctx nested_filter = Inr True
    \<and> transpile_filter u nested_filter (mc_declarations nested_ctx)
         \<lparr>sch_columns = [(''sub.name'', ''sub_name'')], sch_sortable = [], sch_types = []\<rparr>
       = Inr (P_Not (P_Has ''sub_name'' (Has_Substring ''x'')))
    \<and> sat eng r (P_Not (P_Has ''sub_name'' (Has_Substring ''x''))) = None"
  using assms
  by (simp add: matches_dynamic_def nested_filter_def nested_ctx_def function_names match_comparison_def match_has_def
      match_classify_def match_classify_select_def message_field_def match_singular_def transpile_filter_def
      comparison_of_def transpile_has_def schema_column_def ident_type_def has_test_for_def not3_def)

end
