(* ===== verification/Freight_Names.thy ===== *)
theory Freight_Names
  imports Rn_Pattern
begin

text \<open>
  The resource-name types \<open>protoc-gen-prost-aip\<close> emits for the freight example
  (\<open>examples/freight-server/src/gen/.../{shipper,site,shipment}.aip.rs\<close>), over the pattern operations
  of \<open>aip-resourcename\<close>. A generated \<open>expect\<close> is \<open>projr\<close>, at places where the lemmas below show the
  result is there. The system id of a minted name is an argument.
\<close>

record shipper_name =
  sn_shipper :: string
  sn_name :: string

definition SHIPPER_PATTERN :: string where
  "SHIPPER_PATTERN = ''shippers/{shipper}''"

definition SHIPPER_KEY_COLUMNS :: "string list" where
  "SHIPPER_KEY_COLUMNS = [''shipper'']"

definition shipper_pattern :: pattern where
  "shipper_pattern = projr (pattern_parse ascii_tables SHIPPER_PATTERN)"

definition shipper_from_parts :: "string \<Rightarrow> shipper_name" where
  "shipper_from_parts shipper =
     \<lparr>sn_shipper = shipper, sn_name = projr (pattern_format shipper_pattern [(''shipper'', shipper)])\<rparr>"

definition shipper_new :: "string \<Rightarrow> rn_error + shipper_name" where
  "shipper_new shipper =
     res_bind (validate_variable ''shipper'' shipper) (\<lambda>_. Inr (shipper_from_parts shipper))"

definition shipper_key_values :: "shipper_name \<Rightarrow> string list" where
  "shipper_key_values n = [sn_shipper n]"

definition shipper_parse :: "string \<Rightarrow> rn_error + shipper_name" where
  "shipper_parse name =
     (case match_name shipper_pattern name of
        None \<Rightarrow> Inl (PatternMismatch SHIPPER_PATTERN)
      | Some captures \<Rightarrow>
          res_bind (ok_or (MissingVariable ''shipper'') (captures_get captures ''shipper''))
            (\<lambda>shipper. Inr (shipper_from_parts shipper)))"

definition shipper_parse_field :: "string \<Rightarrow> string \<Rightarrow> field_error + shipper_name" where
  "shipper_parse_field field val =
     (let wrap = (\<lambda>e. \<lparr>fe_field = field, fe_source = e\<rparr>) in
      res_bind (map_err wrap (validate val)) (\<lambda>_. map_err wrap (shipper_parse val)))"

definition shipper_mint :: "string \<Rightarrow> shipper_name" where
  "shipper_mint new_id = shipper_from_parts new_id"

record site_name =
  in_shipper :: string
  in_site :: string
  in_name :: string

definition SITE_PATTERN :: string where
  "SITE_PATTERN = ''shippers/{shipper}/sites/{site}''"

definition SITE_KEY_COLUMNS :: "string list" where
  "SITE_KEY_COLUMNS = [''shipper'', ''site'']"

definition site_pattern :: pattern where
  "site_pattern = projr (pattern_parse ascii_tables SITE_PATTERN)"

definition site_from_parts :: "string \<Rightarrow> string \<Rightarrow> site_name" where
  "site_from_parts shipper site =
     \<lparr>in_shipper = shipper, in_site = site,
      in_name = projr (pattern_format site_pattern [(''shipper'', shipper), (''site'', site)])\<rparr>"

definition site_new :: "string \<Rightarrow> string \<Rightarrow> rn_error + site_name" where
  "site_new shipper site =
     res_bind (validate_variable ''shipper'' shipper) (\<lambda>_.
       res_bind (validate_variable ''site'' site) (\<lambda>_. Inr (site_from_parts shipper site)))"

definition site_key_values :: "site_name \<Rightarrow> string list" where
  "site_key_values n = [in_shipper n, in_site n]"

definition site_parse :: "string \<Rightarrow> rn_error + site_name" where
  "site_parse name =
     (case match_name site_pattern name of
        None \<Rightarrow> Inl (PatternMismatch SITE_PATTERN)
      | Some captures \<Rightarrow>
          res_bind (ok_or (MissingVariable ''shipper'') (captures_get captures ''shipper'')) (\<lambda>shipper.
            res_bind (ok_or (MissingVariable ''site'') (captures_get captures ''site''))
              (\<lambda>site. Inr (site_from_parts shipper site))))"

definition site_parse_field :: "string \<Rightarrow> string \<Rightarrow> field_error + site_name" where
  "site_parse_field field val =
     (let wrap = (\<lambda>e. \<lparr>fe_field = field, fe_source = e\<rparr>) in
      res_bind (map_err wrap (validate val)) (\<lambda>_. map_err wrap (site_parse val)))"

definition site_parent :: "site_name \<Rightarrow> shipper_name" where
  "site_parent n = projr (shipper_new (in_shipper n))"

definition site_mint_under :: "shipper_name \<Rightarrow> string \<Rightarrow> site_name" where
  "site_mint_under parent new_id = site_from_parts (sn_shipper parent) new_id"

record shipment_name =
  pn_shipper :: string
  pn_shipment :: string
  pn_name :: string

definition SHIPMENT_PATTERN :: string where
  "SHIPMENT_PATTERN = ''shippers/{shipper}/shipments/{shipment}''"

definition SHIPMENT_KEY_COLUMNS :: "string list" where
  "SHIPMENT_KEY_COLUMNS = [''shipper'', ''shipment'']"

definition shipment_pattern :: pattern where
  "shipment_pattern = projr (pattern_parse ascii_tables SHIPMENT_PATTERN)"

definition shipment_from_parts :: "string \<Rightarrow> string \<Rightarrow> shipment_name" where
  "shipment_from_parts shipper shipment =
     \<lparr>pn_shipper = shipper, pn_shipment = shipment,
      pn_name = projr (pattern_format shipment_pattern [(''shipper'', shipper), (''shipment'', shipment)])\<rparr>"

definition shipment_new :: "string \<Rightarrow> string \<Rightarrow> rn_error + shipment_name" where
  "shipment_new shipper shipment =
     res_bind (validate_variable ''shipper'' shipper) (\<lambda>_.
       res_bind (validate_variable ''shipment'' shipment) (\<lambda>_. Inr (shipment_from_parts shipper shipment)))"

definition shipment_key_values :: "shipment_name \<Rightarrow> string list" where
  "shipment_key_values n = [pn_shipper n, pn_shipment n]"

definition shipment_parse :: "string \<Rightarrow> rn_error + shipment_name" where
  "shipment_parse name =
     (case match_name shipment_pattern name of
        None \<Rightarrow> Inl (PatternMismatch SHIPMENT_PATTERN)
      | Some captures \<Rightarrow>
          res_bind (ok_or (MissingVariable ''shipper'') (captures_get captures ''shipper'')) (\<lambda>shipper.
            res_bind (ok_or (MissingVariable ''shipment'') (captures_get captures ''shipment''))
              (\<lambda>shipment. Inr (shipment_from_parts shipper shipment))))"

definition shipment_parse_field :: "string \<Rightarrow> string \<Rightarrow> field_error + shipment_name" where
  "shipment_parse_field field val =
     (let wrap = (\<lambda>e. \<lparr>fe_field = field, fe_source = e\<rparr>) in
      res_bind (map_err wrap (validate val)) (\<lambda>_. map_err wrap (shipment_parse val)))"

definition shipment_parent :: "shipment_name \<Rightarrow> shipper_name" where
  "shipment_parent n = projr (shipper_new (pn_shipper n))"

definition shipment_mint_under :: "shipper_name \<Rightarrow> string \<Rightarrow> shipment_name" where
  "shipment_mint_under parent new_id = shipment_from_parts (sn_shipper parent) new_id"

subsection \<open>The canonical form\<close>

text \<open>A segment a name variable can hold.\<close>

definition id_segment :: "string \<Rightarrow> bool" where
  "id_segment s \<longleftrightarrow> s \<noteq> [] \<and> CHR ''/'' \<notin> set s \<and> variable_name s = None"

lemma shipper_pattern_segments: "shipper_pattern = \<lparr>pat_segments = [Literal ''shippers'', Variable ''shipper'']\<rparr>"
  unfolding shipper_pattern_def SHIPPER_PATTERN_def by code_simp

lemma site_pattern_segments: "site_pattern =
    \<lparr>pat_segments = [Literal ''shippers'', Variable ''shipper'', Literal ''sites'', Variable ''site'']\<rparr>"
  unfolding site_pattern_def SITE_PATTERN_def by code_simp

lemma pattern_shipper: "pattern_format shipper_pattern [(''shipper'', s)] = Inr (''shippers/'' @ s)"
  by (simp add: shipper_pattern_segments pattern_format_def bt_of_list_def declares_def)

lemma shipper_from_parts_name [simp]:
  "sn_name (shipper_from_parts s) = ''shippers/'' @ s" "sn_shipper (shipper_from_parts s) = s"
  by (simp_all add: shipper_from_parts_def pattern_shipper)

lemma pattern_site:
  "pattern_format site_pattern [(''shipper'', s), (''site'', x)] = Inr (''shippers/'' @ s @ ''/sites/'' @ x)"
  by (simp add: site_pattern_segments pattern_format_def bt_of_list_def declares_def)

lemma site_from_parts_sel [simp]:
  "in_name (site_from_parts s x) = ''shippers/'' @ s @ ''/sites/'' @ x"
  "in_shipper (site_from_parts s x) = s" "in_site (site_from_parts s x) = x"
  by (simp_all add: site_from_parts_def pattern_site)

lemma shipment_pattern_segments: "shipment_pattern =
    \<lparr>pat_segments = [Literal ''shippers'', Variable ''shipper'', Literal ''shipments'', Variable ''shipment'']\<rparr>"
  unfolding shipment_pattern_def SHIPMENT_PATTERN_def by code_simp

lemma pattern_shipment:
  "pattern_format shipment_pattern [(''shipper'', s), (''shipment'', x)] = Inr (''shippers/'' @ s @ ''/shipments/'' @ x)"
  by (simp add: shipment_pattern_segments pattern_format_def bt_of_list_def declares_def)

lemma shipment_from_parts_sel [simp]:
  "pn_name (shipment_from_parts s x) = ''shippers/'' @ s @ ''/shipments/'' @ x"
  "pn_shipper (shipment_from_parts s x) = s" "pn_shipment (shipment_from_parts s x) = x"
  by (simp_all add: shipment_from_parts_def pattern_shipment)

text \<open>Parsing depends on the name only through its segments, and rebuilds the canonical spelling.\<close>

lemma fits_two:
  assumes "variable_name a = None"
  shows "list_all2 fits [Literal a, Variable v] segs \<longleftrightarrow>
    (\<exists>s. segs = [a, s] \<and> s \<noteq> [] \<and> variable_name s = None)"
  using assms by (cases segs; cases "tl segs") auto

lemma fits_four:
  assumes "variable_name a = None" and "variable_name b = None"
  shows "list_all2 fits [Literal a, Variable v, Literal b, Variable w] segs \<longleftrightarrow>
    (\<exists>s x. segs = [a, s, b, x] \<and> s \<noteq> [] \<and> variable_name s = None \<and> x \<noteq> [] \<and> variable_name x = None)"
  using assms by (auto simp: list_all2_Cons1)

lemma plain_literals: "variable_name ''shippers'' = None" "variable_name ''sites'' = None"
  by code_simp+

lemma shipper_parse_iff:
  "shipper_parse name = Inr n \<longleftrightarrow>
     (\<exists>s. resource_segments name = [''shippers'', s] \<and> s \<noteq> [] \<and> variable_name s = None
        \<and> n = shipper_from_parts s)"
proof (cases "list_all2 fits (pat_segments shipper_pattern) (resource_segments name)")
  case True
  then obtain s where "resource_segments name = [''shippers'', s]" "s \<noteq> []" "variable_name s = None"
    unfolding shipper_pattern_segments pattern.simps fits_two [OF plain_literals(1)] by blast
  with True show ?thesis
    by (auto simp: shipper_parse_def match_name_eq shipper_pattern_segments captures_get_def map_of_bt_of_list)
next
  case False
  then have "\<not> (\<exists>s. resource_segments name = [''shippers'', s] \<and> s \<noteq> [] \<and> variable_name s = None)"
    unfolding shipper_pattern_segments pattern.simps fits_two [OF plain_literals(1)] .
  with False show ?thesis by (auto simp: shipper_parse_def match_name_eq)
qed

lemma site_parse_iff:
  "site_parse name = Inr n \<longleftrightarrow>
     (\<exists>s x. resource_segments name = [''shippers'', s, ''sites'', x] \<and> s \<noteq> [] \<and> variable_name s = None
        \<and> x \<noteq> [] \<and> variable_name x = None \<and> n = site_from_parts s x)"
proof (cases "list_all2 fits (pat_segments site_pattern) (resource_segments name)")
  case True
  then obtain s x where "resource_segments name = [''shippers'', s, ''sites'', x]"
    "s \<noteq> []" "variable_name s = None" "x \<noteq> []" "variable_name x = None"
    unfolding site_pattern_segments pattern.simps fits_four [OF plain_literals] by blast
  with True show ?thesis
    by (auto simp: site_parse_def match_name_eq site_pattern_segments captures_get_def map_of_bt_of_list)
next
  case False
  then have "\<not> (\<exists>s x. resource_segments name = [''shippers'', s, ''sites'', x] \<and> s \<noteq> [] \<and> variable_name s = None
      \<and> x \<noteq> [] \<and> variable_name x = None)"
    unfolding site_pattern_segments pattern.simps fits_four [OF plain_literals] .
  with False show ?thesis by (auto simp: site_parse_def match_name_eq)
qed

lemma plain_shipments: "variable_name ''shipments'' = None"
  by code_simp

lemma shipment_parse_iff:
  "shipment_parse name = Inr n \<longleftrightarrow>
     (\<exists>s x. resource_segments name = [''shippers'', s, ''shipments'', x] \<and> s \<noteq> [] \<and> variable_name s = None
        \<and> x \<noteq> [] \<and> variable_name x = None \<and> n = shipment_from_parts s x)"
proof (cases "list_all2 fits (pat_segments shipment_pattern) (resource_segments name)")
  case True
  then obtain s x where "resource_segments name = [''shippers'', s, ''shipments'', x]"
    "s \<noteq> []" "variable_name s = None" "x \<noteq> []" "variable_name x = None"
    unfolding shipment_pattern_segments pattern.simps fits_four [OF plain_literals(1) plain_shipments] by blast
  with True show ?thesis
    by (auto simp: shipment_parse_def match_name_eq shipment_pattern_segments captures_get_def map_of_bt_of_list)
next
  case False
  then have "\<not> (\<exists>s x. resource_segments name = [''shippers'', s, ''shipments'', x] \<and> s \<noteq> [] \<and> variable_name s = None
      \<and> x \<noteq> [] \<and> variable_name x = None)"
    unfolding shipment_pattern_segments pattern.simps fits_four [OF plain_literals(1) plain_shipments] .
  with False show ?thesis by (auto simp: shipment_parse_def match_name_eq)
qed

lemma resource_segments_plain: "seg \<in> set (resource_segments name) \<Longrightarrow> CHR ''/'' \<notin> set seg"
  unfolding resource_segments_def using split_on_no_delim by (fastforce split: if_splits option.splits)

lemma shipper_name_segments: "CHR ''/'' \<notin> set s \<Longrightarrow> resource_segments (''shippers/'' @ s) = [''shippers'', s]"
  using resource_segments_join [of "[''shippers'', s]"] by simp

lemma site_name_segments:
  "CHR ''/'' \<notin> set s \<Longrightarrow> CHR ''/'' \<notin> set x \<Longrightarrow>
   resource_segments (''shippers/'' @ s @ ''/sites/'' @ x) = [''shippers'', s, ''sites'', x]"
  using resource_segments_join [of "[''shippers'', s, ''sites'', x]"] by simp

lemma parsed_shipper_plain: "shipper_parse name = Inr n \<Longrightarrow> id_segment (sn_shipper n)"
  using resource_segments_plain [of "sn_shipper n" name]
  by (auto simp: shipper_parse_iff id_segment_def)

lemma shipper_parse_canonical:
  assumes "shipper_parse name = Inr n"
  shows "shipper_parse (sn_name n) = Inr n"
proof -
  obtain s where s: "s \<noteq> []" "variable_name s = None" "n = shipper_from_parts s"
    using assms by (auto simp only: shipper_parse_iff)
  moreover have "CHR ''/'' \<notin> set s" using parsed_shipper_plain [OF assms] s by (simp add: id_segment_def)
  ultimately show ?thesis
    unfolding shipper_parse_iff using shipper_name_segments by (intro exI [of _ s]) simp
qed

lemma parsed_site_plain: "site_parse name = Inr n \<Longrightarrow> id_segment (in_shipper n) \<and> id_segment (in_site n)"
  using resource_segments_plain [of "in_shipper n" name] resource_segments_plain [of "in_site n" name]
  by (auto simp: site_parse_iff id_segment_def)

lemma site_parse_canonical:
  assumes "site_parse name = Inr n"
  shows "site_parse (in_name n) = Inr n"
proof -
  obtain s x where s: "s \<noteq> []" "variable_name s = None" "x \<noteq> []" "variable_name x = None" "n = site_from_parts s x"
    using assms by (auto simp only: site_parse_iff)
  moreover have "CHR ''/'' \<notin> set s" "CHR ''/'' \<notin> set x"
    using parsed_site_plain [OF assms] s by (simp_all add: id_segment_def)
  ultimately show ?thesis
    unfolding site_parse_iff using site_name_segments [of s x] by (intro exI [of _ s] exI [of _ x]) simp
qed

lemma site_parent_plain: "id_segment (in_shipper n) \<Longrightarrow> site_parent n = shipper_from_parts (in_shipper n)"
  by (simp add: site_parent_def shipper_new_def validate_variable_def id_segment_def)

lemma parsed_shipment_plain:
  "shipment_parse name = Inr n \<Longrightarrow> id_segment (pn_shipper n) \<and> id_segment (pn_shipment n)"
  using resource_segments_plain [of "pn_shipper n" name] resource_segments_plain [of "pn_shipment n" name]
  by (auto simp: shipment_parse_iff id_segment_def)

lemma shipment_name_segments:
  "CHR ''/'' \<notin> set s \<Longrightarrow> CHR ''/'' \<notin> set x \<Longrightarrow>
   resource_segments (''shippers/'' @ s @ ''/shipments/'' @ x) = [''shippers'', s, ''shipments'', x]"
  using resource_segments_join [of "[''shippers'', s, ''shipments'', x]"] by simp

text \<open>The typed name of parts that can be segments.\<close>

lemma new_names:
  "id_segment s \<Longrightarrow> shipper_new s = Inr (shipper_from_parts s)"
  "id_segment s \<Longrightarrow> id_segment x \<Longrightarrow> site_new s x = Inr (site_from_parts s x)"
  "id_segment s \<Longrightarrow> id_segment x \<Longrightarrow> shipment_new s x = Inr (shipment_from_parts s x)"
  by (simp_all add: shipper_new_def site_new_def shipment_new_def validate_variable_def id_segment_def)

lemma parse_canonical:
  "id_segment s \<Longrightarrow> shipper_parse (sn_name (shipper_from_parts s)) = Inr (shipper_from_parts s)"
  "id_segment s \<Longrightarrow> id_segment x \<Longrightarrow> site_parse (in_name (site_from_parts s x)) = Inr (site_from_parts s x)"
  "id_segment s \<Longrightarrow> id_segment x \<Longrightarrow>
     shipment_parse (pn_name (shipment_from_parts s x)) = Inr (shipment_from_parts s x)"
  unfolding shipper_parse_iff site_parse_iff shipment_parse_iff id_segment_def
    shipper_from_parts_name site_from_parts_sel shipment_from_parts_sel
  using shipper_name_segments site_name_segments shipment_name_segments by blast+

end
