(* ===== verification/Freight_List.thy ===== *)
theory Freight_List
  imports Freight_Names F_Checker Pagination Ordering Sql_Transpile Sql_Timestamp
begin

text \<open>
  What the list handlers of the example server (\<open>examples/freight-server/src/service.rs\<close>) share: the
  cursor of a row and back, the filter, and the predicate that scopes a list to its parent.
\<close>

subsection \<open>Cursors and seek columns\<close>

definition PAGE_LIMITS :: size_limits where
  "PAGE_LIMITS = \<lparr>sl_default = 50, sl_max = 1000\<rparr>"

fun cursor_value_matches :: "cursor_value \<Rightarrow> ftype \<Rightarrow> bool" where
  "cursor_value_matches (CV_Text _) ty \<longleftrightarrow> ty = TString \<or> ty = TTimestamp \<or> (\<exists>e. ty = TEnum e)"
| "cursor_value_matches (CV_Int _) ty \<longleftrightarrow> ty = TInt \<or> ty = TUint"
| "cursor_value_matches (CV_Double _) ty \<longleftrightarrow> ty = TDouble"
| "cursor_value_matches (CV_Bool _) ty \<longleftrightarrow> ty = TBool"
| "cursor_value_matches (CV_Bytes _) ty \<longleftrightarrow> False"

fun cursor_value_to_sql :: "cursor_value \<Rightarrow> sql_value" where
  "cursor_value_to_sql (CV_Bool b) = S_Bool b"
| "cursor_value_to_sql (CV_Int i) = S_Int i"
| "cursor_value_to_sql (CV_Double d) = S_Double d"
| "cursor_value_to_sql (CV_Text s) = S_Text s"
| "cursor_value_to_sql (CV_Bytes b) = S_Bytes b"

definition cursor_kind_of :: "ftype \<Rightarrow> cursor_kind" where
  "cursor_kind_of ty =
     (case ty of
        TBool \<Rightarrow> CK_Bool
      | TInt \<Rightarrow> CK_Int
      | TUint \<Rightarrow> CK_Int
      | TDouble \<Rightarrow> CK_Double
      | _ \<Rightarrow> CK_Text)"

definition cursor_views :: "seek_column list \<Rightarrow> cursor_column list" where
  "cursor_views columns =
     map (\<lambda>column. \<lparr>cc_column = sk_column column, cc_field_path = sk_field_path column,
                    cc_kind = cursor_kind_of (sk_type column)\<rparr>) columns"

definition store_timestamp :: "int \<Rightarrow> int \<Rightarrow> string" where
  "store_timestamp seconds nanos = format_timestamp \<lparr>ts_seconds = seconds, ts_nanos = nanos\<rparr>"

text \<open>What the handlers read messages and page tokens with.\<close>

record 'm list_env =
  le_unicode :: unicode_tables
  le_tokens :: token_codec
  le_pool :: descriptor_pool
  le_ops :: "'m message_ops"
  le_crc32 :: "string \<Rightarrow> 32 word"

definition encode_cursor ::
  "('m, 'a) list_env_scheme \<Rightarrow> 'm \<Rightarrow> cursor_column list \<Rightarrow> (string \<times> string) list \<Rightarrow> cursor_entry list" where
  "encode_cursor env m views keys =
     cursor_entries (le_pool env) (le_ops env) store_timestamp m views keys"

definition bad_cursor :: status where
  "bad_cursor = plain_status Code_InvalidArgument ''page token does not match the ordering''"

text \<open>One step of the loop over the entries, the columns and the orders.\<close>

definition seek_item_of :: "cursor_entry \<times> seek_column \<times> sql_order \<Rightarrow> status + seek_item" where
  "seek_item_of x =
     (case x of (entry, column, order) \<Rightarrow>
        if ce_column entry \<noteq> sk_column column \<or> \<not> cursor_value_matches (ce_value entry) (sk_type column)
        then Inl bad_cursor
        else Inr (sk_column column, order_direction order, cursor_value_to_sql (ce_value entry)))"

definition cursor_seek ::
  "cursor_entry list option \<Rightarrow> seek_column list \<Rightarrow> sql_order list \<Rightarrow> status + predicate option" where
  "cursor_seek cursor columns orders =
     (case cursor of
        None \<Rightarrow> Inr None
      | Some entries \<Rightarrow>
          if length entries \<noteq> length columns \<or> length orders \<noteq> length columns then Inl bad_cursor
          else res_bind (try_map seek_item_of (zip entries (zip columns orders)))
                 (\<lambda>items. Inr (Some (keyset_seek items))))"

subsection \<open>Predicates\<close>

definition parse_list_filter ::
  "unicode_tables \<Rightarrow> string \<Rightarrow> declarations \<Rightarrow> schema \<Rightarrow> status + predicate option" where
  "parse_list_filter u filt d s =
     (if filt = [] then Inr None
      else res_bind (map_err filter_status (check_filter u filt d)) (\<lambda>checked.
             res_bind (map_err sql_status (transpile_filter u checked d s)) (\<lambda>p. Inr (Some p))))"

fun opt_list :: "'a option \<Rightarrow> 'a list" where
  "opt_list None = []"
| "opt_list (Some x) = [x]"

text \<open>
  The bindings are a hash map of the pattern's variables; the shipper pattern has the one, so the
  loop over them is the case of that variable.
\<close>

definition scope_clauses :: "(string \<rightharpoonup> string option) \<Rightarrow> predicate list" where
  "scope_clauses bindings =
     (case bindings ''shipper'' of
        Some (Some v) \<Rightarrow> [pred_eq ''shipper'' (S_Text v)]
      | _ \<Rightarrow> [])"

text \<open>A \<open>HashMap\<close> of optional values: the inner \<open>None\<close> is a wildcard.\<close>

definition wildcard_bindings :: "pattern \<Rightarrow> string \<Rightarrow> rn_error + (string \<rightharpoonup> string option)" where
  "wildcard_bindings p name = match_with_wildcards p name"

definition scoped_predicate ::
  "unicode_tables \<Rightarrow> string \<Rightarrow> predicate option \<Rightarrow> predicate option \<Rightarrow> status + predicate" where
  "scoped_predicate u parent user_filter seek =
     res_bind (map_err (rn_status u) (wildcard_bindings shipper_pattern parent)) (\<lambda>bindings.
       Inr (P_All (scope_clauses bindings @ [P_IsNull ''delete_time''] @ opt_list user_filter @ opt_list seek)))"

end
