(* ===== verification/Freight_Data.thy ===== *)
theory Freight_Data
  imports Freight_Names Sql_Schema Sql_Timestamp F64_Arith
begin

text \<open>
  The resources of the example server (the generated messages under \<open>examples/freight-server/src/gen\<close>)
  and the rows \<open>storage.rs\<close> keeps them in. A row gives every column a value; \<open>serde_json\<close> and the
  parser of \<open>prost_types::Timestamp\<close> are the fields of \<open>store_codec\<close>. A line item's \<open>f32\<close> quantities are
  the \<open>f64\<close> values they stand for. A row whose cells have another
  type than the column ends in the \<open>expect\<close> of the query, \<open>None\<close> here.
\<close>

subsection \<open>Resources\<close>

type_synonym annotations = "string \<rightharpoonup> string"

record lat_lng =
  ll_latitude :: f64
  ll_longitude :: f64

record shipper =
  sh_name :: string
  sh_create_time :: "timestamp option"
  sh_update_time :: "timestamp option"
  sh_delete_time :: "timestamp option"
  sh_display_name :: string
  sh_etag :: string

datatype site_state = State_Unspecified | State_Active | State_Inactive

fun site_state_number :: "site_state \<Rightarrow> int" where
  "site_state_number State_Unspecified = 0"
| "site_state_number State_Active = 1"
| "site_state_number State_Inactive = 2"

definition site_state_try_from :: "int \<Rightarrow> site_state option" where
  "site_state_try_from n =
     find (\<lambda>s. site_state_number s = n) [State_Unspecified, State_Active, State_Inactive]"

fun as_str_name :: "site_state \<Rightarrow> string" where
  "as_str_name State_Unspecified = ''STATE_UNSPECIFIED''"
| "as_str_name State_Active = ''STATE_ACTIVE''"
| "as_str_name State_Inactive = ''STATE_INACTIVE''"

definition from_str_name :: "string \<Rightarrow> site_state option" where
  "from_str_name val =
     (if val = ''STATE_UNSPECIFIED'' then Some State_Unspecified
      else if val = ''STATE_ACTIVE'' then Some State_Active
      else if val = ''STATE_INACTIVE'' then Some State_Inactive
      else None)"

record site =
  st_name :: string
  st_create_time :: "timestamp option"
  st_update_time :: "timestamp option"
  st_delete_time :: "timestamp option"
  st_display_name :: string
  st_lat_lng :: "lat_lng option"
  st_state :: int
  st_annotations :: annotations
  st_tags :: "string list"

record line_item =
  li_title :: string
  li_quantity :: f64
  li_weight_kg :: f64
  li_volume_m3 :: f64
  li_external_reference_id :: string

record shipment =
  sp_name :: string
  sp_create_time :: "timestamp option"
  sp_update_time :: "timestamp option"
  sp_delete_time :: "timestamp option"
  sp_origin_site :: string
  sp_destination_site :: string
  sp_pickup_earliest_time :: "timestamp option"
  sp_pickup_latest_time :: "timestamp option"
  sp_delivery_earliest_time :: "timestamp option"
  sp_delivery_latest_time :: "timestamp option"
  sp_line_items :: "line_item list"
  sp_annotations :: annotations
  sp_external_reference_id :: string

text \<open>The mirror of a line item that carries the JSON shape.\<close>

record line_item_json =
  lj_title :: string
  lj_quantity :: f64
  lj_weight_kg :: f64
  lj_volume_m3 :: f64
  lj_external_reference_id :: string

definition from_proto :: "line_item \<Rightarrow> line_item_json" where
  "from_proto item =
     \<lparr>lj_title = li_title item, lj_quantity = li_quantity item, lj_weight_kg = li_weight_kg item,
      lj_volume_m3 = li_volume_m3 item, lj_external_reference_id = li_external_reference_id item\<rparr>"

definition into_proto :: "line_item_json \<Rightarrow> line_item" where
  "into_proto item =
     \<lparr>li_title = lj_title item, li_quantity = lj_quantity item, li_weight_kg = lj_weight_kg item,
      li_volume_m3 = lj_volume_m3 item, li_external_reference_id = lj_external_reference_id item\<rparr>"

lemma into_from_proto: "into_proto (from_proto item) = item"
  by (simp add: into_proto_def from_proto_def)

subsection \<open>Cells\<close>

type_synonym row = "string \<Rightarrow> sql_value"

text \<open>The columns of an \<open>INSERT\<close> with their parameters; any other column is null.\<close>

definition row_of_params :: "string list \<Rightarrow> sql_value list \<Rightarrow> row" where
  "row_of_params columns params c =
     (case map_of (zip columns params) c of Some v \<Rightarrow> v | None \<Rightarrow> S_Null)"

record store_codec =
  js_map_to :: "annotations \<Rightarrow> string"
  js_map_from :: "string \<Rightarrow> annotations option"
  js_list_to :: "string list \<Rightarrow> string"
  js_list_from :: "string \<Rightarrow> string list option"
  js_items_to :: "line_item_json list \<Rightarrow> string"
  js_items_from :: "string \<Rightarrow> line_item_json list option"
  ts_from_text :: "string \<Rightarrow> timestamp option"

definition store_time :: "timestamp \<Rightarrow> string" where
  "store_time ts = format_timestamp ts"

definition time_cell :: "timestamp option \<Rightarrow> sql_value" where
  "time_cell t = (case t of None \<Rightarrow> S_Null | Some ts \<Rightarrow> S_Text (store_time ts))"

text \<open>SQLite stores a bound NaN as \<open>NULL\<close>.\<close>

definition real_cell :: "f64 option \<Rightarrow> sql_value" where
  "real_cell d = (case d of None \<Rightarrow> S_Null | Some x \<Rightarrow> if x = NaN then S_Null else S_Double x)"

fun get_text :: "sql_value \<Rightarrow> string option" where
  "get_text (S_Text s) = Some s"
| "get_text _ = None"

fun get_opt_text :: "sql_value \<Rightarrow> string option option" where
  "get_opt_text S_Null = Some None"
| "get_opt_text v = map_option Some (get_text v)"

fun get_opt_f64 :: "sql_value \<Rightarrow> f64 option option" where
  "get_opt_f64 S_Null = Some None"
| "get_opt_f64 (S_Double x) = Some (Some x)"
| "get_opt_f64 (S_Int i) = Some (Some (int_as_f64 i))"
| "get_opt_f64 _ = None"

definition load_timestamp :: "store_codec \<Rightarrow> string option \<Rightarrow> timestamp option option" where
  "load_timestamp sc t =
     (case t of None \<Rightarrow> Some None | Some s \<Rightarrow> map_option Some (ts_from_text sc s))"

definition get_time :: "store_codec \<Rightarrow> sql_value \<Rightarrow> timestamp option option" where
  "get_time sc v = Option.bind (get_opt_text v) (load_timestamp sc)"

definition f64_default :: f64 where
  "f64_default = Fin False 0 (- 1074)"

definition lat_lng_of :: "f64 option \<Rightarrow> f64 option \<Rightarrow> lat_lng option" where
  "lat_lng_of latitude longitude =
     (if latitude = None \<and> longitude = None then None
      else Some \<lparr>ll_latitude = (case latitude of Some x \<Rightarrow> x | None \<Rightarrow> f64_default),
                 ll_longitude = (case longitude of Some x \<Rightarrow> x | None \<Rightarrow> f64_default)\<rparr>)"

subsection \<open>Rows\<close>

definition SHIPPER_COLUMNS :: "string list" where
  "SHIPPER_COLUMNS = [''shipper'', ''display_name'', ''create_time'', ''update_time'', ''delete_time'', ''etag'']"

definition SITE_COLUMNS :: "string list" where
  "SITE_COLUMNS = [''shipper'', ''site'', ''display_name'', ''create_time'', ''update_time'',
     ''delete_time'', ''latitude'', ''longitude'', ''state'', ''annotations'', ''tags'']"

definition SHIPMENT_COLUMNS :: "string list" where
  "SHIPMENT_COLUMNS = [''shipper'', ''shipment'', ''create_time'', ''update_time'', ''delete_time'',
     ''origin_site'', ''destination_site'', ''pickup_earliest_time'', ''pickup_latest_time'',
     ''delivery_earliest_time'', ''delivery_latest_time'', ''line_items'', ''annotations'', ''external_reference_id'']"

definition shipper_row :: "shipper_name \<Rightarrow> shipper \<Rightarrow> row" where
  "shipper_row n s = row_of_params SHIPPER_COLUMNS
     [S_Text (sn_shipper n), S_Text (sh_display_name s), time_cell (sh_create_time s),
      time_cell (sh_update_time s), time_cell (sh_delete_time s), S_Text (sh_etag s)]"

definition row_to_shipper :: "store_codec \<Rightarrow> row \<Rightarrow> shipper option" where
  "row_to_shipper sc row =
     Option.bind (get_text (row ''shipper'')) (\<lambda>key.
     case shipper_new key of Inl _ \<Rightarrow> None | Inr n \<Rightarrow>
     Option.bind (get_text (row ''display_name'')) (\<lambda>display_name.
     Option.bind (get_time sc (row ''create_time'')) (\<lambda>create_time.
     Option.bind (get_time sc (row ''update_time'')) (\<lambda>update_time.
     Option.bind (get_time sc (row ''delete_time'')) (\<lambda>delete_time.
     Option.bind (get_text (row ''etag'')) (\<lambda>etag.
       Some \<lparr>sh_name = sn_name n, sh_create_time = create_time, sh_update_time = update_time,
             sh_delete_time = delete_time, sh_display_name = display_name, sh_etag = etag\<rparr>))))))"

definition site_row :: "store_codec \<Rightarrow> site_name \<Rightarrow> site \<Rightarrow> row" where
  "site_row sc n s =
     (let latitude = map_option ll_latitude (st_lat_lng s);
          longitude = map_option ll_longitude (st_lat_lng s);
          state = as_str_name (case site_state_try_from (st_state s) of
                                 Some x \<Rightarrow> x | None \<Rightarrow> State_Unspecified)
      in row_of_params SITE_COLUMNS
           [S_Text (in_shipper n), S_Text (in_site n), S_Text (st_display_name s),
            time_cell (st_create_time s), time_cell (st_update_time s), time_cell (st_delete_time s),
            real_cell latitude, real_cell longitude, S_Text state,
            S_Text (js_map_to sc (st_annotations s)), S_Text (js_list_to sc (st_tags s))])"

definition row_to_site :: "store_codec \<Rightarrow> row \<Rightarrow> site option" where
  "row_to_site sc row =
     Option.bind (get_text (row ''shipper'')) (\<lambda>shipper.
     Option.bind (get_text (row ''site'')) (\<lambda>site.
     case site_new shipper site of Inl _ \<Rightarrow> None | Inr n \<Rightarrow>
     Option.bind (get_opt_f64 (row ''latitude'')) (\<lambda>latitude.
     Option.bind (get_opt_f64 (row ''longitude'')) (\<lambda>longitude.
     Option.bind (get_text (row ''state'')) (\<lambda>state_name.
     Option.bind (get_text (row ''annotations'')) (\<lambda>annotations.
     Option.bind (get_text (row ''tags'')) (\<lambda>tags.
     Option.bind (get_time sc (row ''create_time'')) (\<lambda>create_time.
     Option.bind (get_time sc (row ''update_time'')) (\<lambda>update_time.
     Option.bind (get_time sc (row ''delete_time'')) (\<lambda>delete_time.
     Option.bind (get_text (row ''display_name'')) (\<lambda>display_name.
     Option.bind (js_map_from sc annotations) (\<lambda>annotations.
     Option.bind (js_list_from sc tags) (\<lambda>tags.
       Some \<lparr>st_name = in_name n, st_create_time = create_time, st_update_time = update_time,
             st_delete_time = delete_time, st_display_name = display_name,
             st_lat_lng = lat_lng_of latitude longitude,
             st_state = site_state_number (case from_str_name state_name of
                                             Some x \<Rightarrow> x | None \<Rightarrow> State_Unspecified),
             st_annotations = annotations, st_tags = tags\<rparr>)))))))))))))"

definition shipment_row :: "store_codec \<Rightarrow> shipment_name \<Rightarrow> shipment \<Rightarrow> row" where
  "shipment_row sc n s = row_of_params SHIPMENT_COLUMNS
     [S_Text (pn_shipper n), S_Text (pn_shipment n), time_cell (sp_create_time s),
      time_cell (sp_update_time s), time_cell (sp_delete_time s), S_Text (sp_origin_site s),
      S_Text (sp_destination_site s), time_cell (sp_pickup_earliest_time s),
      time_cell (sp_pickup_latest_time s), time_cell (sp_delivery_earliest_time s),
      time_cell (sp_delivery_latest_time s), S_Text (js_items_to sc (map from_proto (sp_line_items s))),
      S_Text (js_map_to sc (sp_annotations s)), S_Text (sp_external_reference_id s)]"

definition row_to_shipment :: "store_codec \<Rightarrow> row \<Rightarrow> shipment option" where
  "row_to_shipment sc row =
     Option.bind (get_text (row ''shipper'')) (\<lambda>shipper.
     Option.bind (get_text (row ''shipment'')) (\<lambda>shipment.
     case shipment_new shipper shipment of Inl _ \<Rightarrow> None | Inr n \<Rightarrow>
     Option.bind (get_text (row ''line_items'')) (\<lambda>line_items.
     Option.bind (js_items_from sc line_items) (\<lambda>line_items.
     Option.bind (get_text (row ''annotations'')) (\<lambda>annotations.
     Option.bind (get_time sc (row ''create_time'')) (\<lambda>create_time.
     Option.bind (get_time sc (row ''update_time'')) (\<lambda>update_time.
     Option.bind (get_time sc (row ''delete_time'')) (\<lambda>delete_time.
     Option.bind (get_text (row ''origin_site'')) (\<lambda>origin_site.
     Option.bind (get_text (row ''destination_site'')) (\<lambda>destination_site.
     Option.bind (get_time sc (row ''pickup_earliest_time'')) (\<lambda>pickup_earliest_time.
     Option.bind (get_time sc (row ''pickup_latest_time'')) (\<lambda>pickup_latest_time.
     Option.bind (get_time sc (row ''delivery_earliest_time'')) (\<lambda>delivery_earliest_time.
     Option.bind (get_time sc (row ''delivery_latest_time'')) (\<lambda>delivery_latest_time.
     Option.bind (js_map_from sc annotations) (\<lambda>annotations.
     Option.bind (get_text (row ''external_reference_id'')) (\<lambda>external_reference_id.
       Some \<lparr>sp_name = pn_name n, sp_create_time = create_time, sp_update_time = update_time,
             sp_delete_time = delete_time, sp_origin_site = origin_site,
             sp_destination_site = destination_site, sp_pickup_earliest_time = pickup_earliest_time,
             sp_pickup_latest_time = pickup_latest_time, sp_delivery_earliest_time = delivery_earliest_time,
             sp_delivery_latest_time = delivery_latest_time, sp_line_items = map into_proto line_items,
             sp_annotations = annotations, sp_external_reference_id = external_reference_id\<rparr>))))))))))))))))"

subsection \<open>What is written is what is read\<close>

text \<open>
  What the code relies on of the two codecs, for the values of one resource: JSON text is read back,
  and so is the text of a time, to the second.
\<close>

definition loads :: "store_codec \<Rightarrow> timestamp option \<Rightarrow> bool" where
  "loads sc t \<longleftrightarrow> (\<forall>ts. t = Some ts \<longrightarrow> ts_from_text sc (store_time ts) = Some (ts\<lparr>ts_nanos := 0\<rparr>))"

definition map_loads :: "store_codec \<Rightarrow> annotations \<Rightarrow> bool" where
  "map_loads sc m \<longleftrightarrow> js_map_from sc (js_map_to sc m) = Some m"

definition to_seconds :: "timestamp option \<Rightarrow> timestamp option" where
  "to_seconds t = map_option (\<lambda>ts. ts\<lparr>ts_nanos := 0\<rparr>) t"

lemma get_time_cell: "loads sc t \<Longrightarrow> get_time sc (time_cell t) = Some (to_seconds t)"
  by (cases t) (simp_all add: get_time_def time_cell_def load_timestamp_def loads_def to_seconds_def)

definition not_nan :: "f64 option \<Rightarrow> f64 option" where
  "not_nan d = (if d = Some NaN then None else d)"

lemma get_real_cell: "get_opt_f64 (real_cell d) = Some (not_nan d)"
  by (cases d) (simp_all add: real_cell_def not_nan_def)

lemma state_roundtrip:
  "site_state_number (case from_str_name (as_str_name s) of Some x \<Rightarrow> x | None \<Rightarrow> State_Unspecified)
     = site_state_number s"
  by (cases s) (simp_all add: from_str_name_def)

definition known_state :: "int \<Rightarrow> int" where
  "known_state n = (if n = 1 \<or> n = 2 then n else 0)"

lemma stored_state:
  "site_state_number (case site_state_try_from n of Some x \<Rightarrow> x | None \<Rightarrow> State_Unspecified) = known_state n"
  by (auto simp: site_state_try_from_def known_state_def)

text \<open>The cells of a row, column by column.\<close>

lemma site_cells:
  "site_row sc n s ''shipper'' = S_Text (in_shipper n)"
  "site_row sc n s ''site'' = S_Text (in_site n)"
  "site_row sc n s ''display_name'' = S_Text (st_display_name s)"
  "site_row sc n s ''create_time'' = time_cell (st_create_time s)"
  "site_row sc n s ''update_time'' = time_cell (st_update_time s)"
  "site_row sc n s ''delete_time'' = time_cell (st_delete_time s)"
  "site_row sc n s ''latitude'' = real_cell (map_option ll_latitude (st_lat_lng s))"
  "site_row sc n s ''longitude'' = real_cell (map_option ll_longitude (st_lat_lng s))"
  "site_row sc n s ''state'' = S_Text (as_str_name (case site_state_try_from (st_state s) of
                                 Some x \<Rightarrow> x | None \<Rightarrow> State_Unspecified))"
  "site_row sc n s ''annotations'' = S_Text (js_map_to sc (st_annotations s))"
  "site_row sc n s ''tags'' = S_Text (js_list_to sc (st_tags s))"
  by (simp_all add: site_row_def row_of_params_def SITE_COLUMNS_def Let_def)

lemma shipper_cells:
  "shipper_row n s ''shipper'' = S_Text (sn_shipper n)"
  "shipper_row n s ''display_name'' = S_Text (sh_display_name s)"
  "shipper_row n s ''create_time'' = time_cell (sh_create_time s)"
  "shipper_row n s ''update_time'' = time_cell (sh_update_time s)"
  "shipper_row n s ''delete_time'' = time_cell (sh_delete_time s)"
  "shipper_row n s ''etag'' = S_Text (sh_etag s)"
  by (simp_all add: shipper_row_def row_of_params_def SHIPPER_COLUMNS_def)

lemma shipment_cells:
  "shipment_row sc n s ''shipper'' = S_Text (pn_shipper n)"
  "shipment_row sc n s ''shipment'' = S_Text (pn_shipment n)"
  "shipment_row sc n s ''create_time'' = time_cell (sp_create_time s)"
  "shipment_row sc n s ''update_time'' = time_cell (sp_update_time s)"
  "shipment_row sc n s ''delete_time'' = time_cell (sp_delete_time s)"
  "shipment_row sc n s ''origin_site'' = S_Text (sp_origin_site s)"
  "shipment_row sc n s ''destination_site'' = S_Text (sp_destination_site s)"
  "shipment_row sc n s ''pickup_earliest_time'' = time_cell (sp_pickup_earliest_time s)"
  "shipment_row sc n s ''pickup_latest_time'' = time_cell (sp_pickup_latest_time s)"
  "shipment_row sc n s ''delivery_earliest_time'' = time_cell (sp_delivery_earliest_time s)"
  "shipment_row sc n s ''delivery_latest_time'' = time_cell (sp_delivery_latest_time s)"
  "shipment_row sc n s ''line_items'' = S_Text (js_items_to sc (map from_proto (sp_line_items s)))"
  "shipment_row sc n s ''annotations'' = S_Text (js_map_to sc (sp_annotations s))"
  "shipment_row sc n s ''external_reference_id'' = S_Text (sp_external_reference_id s)"
  by (simp_all add: shipment_row_def row_of_params_def SHIPMENT_COLUMNS_def)

text \<open>The resource a store gives back.\<close>

definition stored_shipper :: "shipper_name \<Rightarrow> shipper \<Rightarrow> shipper" where
  "stored_shipper n s =
     s\<lparr>sh_name := sn_name n, sh_create_time := to_seconds (sh_create_time s),
       sh_update_time := to_seconds (sh_update_time s), sh_delete_time := to_seconds (sh_delete_time s)\<rparr>"

definition stored_site :: "site_name \<Rightarrow> site \<Rightarrow> site" where
  "stored_site n s =
     s\<lparr>st_name := in_name n, st_create_time := to_seconds (st_create_time s),
       st_update_time := to_seconds (st_update_time s), st_delete_time := to_seconds (st_delete_time s),
       st_lat_lng := lat_lng_of (not_nan (map_option ll_latitude (st_lat_lng s)))
                                (not_nan (map_option ll_longitude (st_lat_lng s))),
       st_state := known_state (st_state s)\<rparr>"

definition shipper_loads :: "store_codec \<Rightarrow> shipper \<Rightarrow> bool" where
  "shipper_loads sc s \<longleftrightarrow> loads sc (sh_create_time s) \<and> loads sc (sh_update_time s) \<and> loads sc (sh_delete_time s)"

definition site_loads :: "store_codec \<Rightarrow> site \<Rightarrow> bool" where
  "site_loads sc s \<longleftrightarrow>
     loads sc (st_create_time s) \<and> loads sc (st_update_time s) \<and> loads sc (st_delete_time s)
     \<and> map_loads sc (st_annotations s) \<and> js_list_from sc (js_list_to sc (st_tags s)) = Some (st_tags s)"

lemma shipper_read_back:
  assumes "shipper_loads sc s" and "id_segment k"
  shows "row_to_shipper sc (shipper_row (shipper_from_parts k) s) = Some (stored_shipper (shipper_from_parts k) s)"
  using assms
  by (simp add: row_to_shipper_def shipper_cells get_time_cell new_names shipper_loads_def stored_shipper_def)

lemma site_read_back:
  assumes "site_loads sc s" and "id_segment k" and "id_segment i"
  shows "row_to_site sc (site_row sc (site_from_parts k i) s) = Some (stored_site (site_from_parts k i) s)"
  using assms
  by (simp add: row_to_site_def site_cells get_time_cell get_real_cell new_names site_loads_def map_loads_def
      stored_site_def state_roundtrip stored_state)

definition stored_shipment :: "shipment_name \<Rightarrow> shipment \<Rightarrow> shipment" where
  "stored_shipment n s =
     s\<lparr>sp_name := pn_name n, sp_create_time := to_seconds (sp_create_time s),
       sp_update_time := to_seconds (sp_update_time s), sp_delete_time := to_seconds (sp_delete_time s),
       sp_pickup_earliest_time := to_seconds (sp_pickup_earliest_time s),
       sp_pickup_latest_time := to_seconds (sp_pickup_latest_time s),
       sp_delivery_earliest_time := to_seconds (sp_delivery_earliest_time s),
       sp_delivery_latest_time := to_seconds (sp_delivery_latest_time s)\<rparr>"

definition shipment_times :: "shipment \<Rightarrow> timestamp option list" where
  "shipment_times s =
     [sp_create_time s, sp_update_time s, sp_delete_time s, sp_pickup_earliest_time s, sp_pickup_latest_time s,
      sp_delivery_earliest_time s, sp_delivery_latest_time s]"

text \<open>\<open>serde_json\<close> reads the items back when their quantities are finite (a NaN is written as \<open>null\<close>).\<close>

definition items_load :: "store_codec \<Rightarrow> line_item list \<Rightarrow> bool" where
  "items_load sc items \<longleftrightarrow>
     js_items_from sc (js_items_to sc (map from_proto items)) = Some (map from_proto items)"

definition shipment_loads :: "store_codec \<Rightarrow> shipment \<Rightarrow> bool" where
  "shipment_loads sc s \<longleftrightarrow>
     list_all (loads sc) (shipment_times s) \<and> map_loads sc (sp_annotations s)
     \<and> items_load sc (sp_line_items s)"

lemma shipment_read_back:
  assumes "shipment_loads sc s" and "id_segment k" and "id_segment i"
  shows "row_to_shipment sc (shipment_row sc (shipment_from_parts k i) s)
       = Some (stored_shipment (shipment_from_parts k i) s)"
  using assms
  by (simp add: row_to_shipment_def shipment_cells get_time_cell new_names shipment_loads_def shipment_times_def
      map_loads_def items_load_def stored_shipment_def into_from_proto comp_def)

text \<open>A codec that reads one time, the empty map and list, and no item or one pallet.\<close>

definition pallet :: line_item where
  "pallet = \<lparr>li_title = ''Pallet'', li_quantity = Fin False 3 0, li_weight_kg = f64_default,
             li_volume_m3 = f64_default, li_external_reference_id = ''ext''\<rparr>"

definition small_codec :: store_codec where
  "small_codec =
     \<lparr>js_map_to = (\<lambda>_. ''{}''), js_map_from = (\<lambda>_. Some Map.empty), js_list_to = (\<lambda>_. ''[]''),
      js_list_from = (\<lambda>_. Some []), js_items_to = (\<lambda>items. if items = [] then ''[]'' else ''[pallet]''),
      js_items_from = (\<lambda>t. Some (if t = ''[]'' then [] else [from_proto pallet])),
      ts_from_text = (\<lambda>_. Some \<lparr>ts_seconds = 5, ts_nanos = 0\<rparr>)\<rparr>"

definition small_site :: site where
  "small_site =
     \<lparr>st_name = ''x'', st_create_time = Some \<lparr>ts_seconds = 5, ts_nanos = 7\<rparr>, st_update_time = None,
      st_delete_time = None, st_display_name = ''Dock'', st_lat_lng = None, st_state = 9,
      st_annotations = Map.empty, st_tags = []\<rparr>"

definition small_shipper :: shipper where
  "small_shipper =
     \<lparr>sh_name = ''x'', sh_create_time = None, sh_update_time = None, sh_delete_time = None,
      sh_display_name = ''Acme'', sh_etag = []\<rparr>"

definition small_shipment :: shipment where
  "small_shipment =
     \<lparr>sp_name = ''x'', sp_create_time = None, sp_update_time = None, sp_delete_time = None, sp_origin_site = [],
      sp_destination_site = [], sp_pickup_earliest_time = None, sp_pickup_latest_time = None,
      sp_delivery_earliest_time = None, sp_delivery_latest_time = None, sp_line_items = [pallet],
      sp_annotations = Map.empty, sp_external_reference_id = []\<rparr>"

lemma small_segments: "id_segment ''acme''" "id_segment ''d1''"
  unfolding id_segment_def by code_simp+

lemma bind_stuck: "Option.bind m (\<lambda>_. None) = None"
  by (cases m) simp_all

lemma year_10000: "store_time \<lparr>ts_seconds = 253402300800, ts_nanos = 0\<rparr> = ''10000-01-01T00:00:00Z''"
proof -
  have "char_of (49::nat) = CHR ''1''" "char_of (48::nat) = CHR ''0''" by code_simp+
  then have "show_nat 10000 = ''10000''" "show_nat 1 = ''1''" "show_nat 0 = ''0''"
    by (simp_all add: show_nat.simps [of 10000] show_nat.simps [of 1000] show_nat.simps [of 100]
        show_nat.simps [of 10] show_nat.simps [of "Suc 0"] show_nat.simps [of 0] digit_char_def)
  then have pads: "zero_pad 4 10000 = ''10000''" "zero_pad 2 1 = ''01''" "zero_pad 2 0 = ''00''"
    by (simp_all add: zero_pad_def)
  have "year_of_era 146037 = 399" by (simp add: year_of_era_def)
  moreover have "date_of 9999 306 = (10000, 1, 1)" by (simp add: date_of_def)
  ultimately have "civil_from_days 2932897 = (10000, 1, 1)" by (simp add: civil_from_days_def)
  with pads show ?thesis by (simp add: store_time_def format_timestamp_def)
qed

text \<open>
  A time past the year 9999 is written with a five-digit year. RFC 3339 has no such year, and a parser
  that refuses the text ends the read of the row, and of every list the row is in, in a panic.
\<close>

theorem far_time_not_readable:
  assumes "sp_pickup_earliest_time s = Some \<lparr>ts_seconds = 253402300800, ts_nanos = 0\<rparr>"
    and "ts_from_text sc ''10000-01-01T00:00:00Z'' = None"
  shows "row_to_shipment sc (shipment_row sc n s) = None"
proof -
  have "get_time sc (time_cell (sp_pickup_earliest_time s)) = None"
    using assms by (simp add: get_time_def time_cell_def load_timestamp_def year_10000)
  then show ?thesis
    unfolding row_to_shipment_def shipment_cells
    by (cases "shipment_new (pn_shipper n) (pn_shipment n)") (simp_all only: get_text.simps bind_stuck sum.case Option.bind.simps)
qed

text \<open>
  \<open>serde_json\<close> writes a quantity that is no number as \<open>null\<close> and reads no \<open>f32\<close> from it, which ends the read of
  the row the same way.
\<close>

theorem unreadable_items_not_readable:
  assumes "js_items_from sc (js_items_to sc (map from_proto (sp_line_items s))) = None"
  shows "row_to_shipment sc (shipment_row sc n s) = None"
  using assms unfolding row_to_shipment_def shipment_cells
  by (cases "shipment_new (pn_shipper n) (pn_shipment n)") (simp_all only: get_text.simps bind_stuck sum.case Option.bind.simps)

end
