(* ===== verification/Freight_Store.thy ===== *)
theory Freight_Store
  imports Freight_Data
begin

text \<open>
  \<open>Storage\<close> of \<open>examples/freight-server/src/storage.rs\<close>: three tables with their primary keys, the foreign
  key of a child on its shipper, and the idempotency cache. A table is a map from key to row, a failed
  \<open>expect\<close> is \<open>None\<close>. What SQLite answers to a list query is a parameter, the answer to a \<open>query\<close> of
  \<open>Sql_Schema\<close> over a table.
\<close>

record idempotent_entry =
  ir_request :: string
  ir_response :: string

record storage =
  db_shippers :: "string \<rightharpoonup> row"
  db_sites :: "string \<times> string \<rightharpoonup> row"
  db_shipments :: "string \<times> string \<rightharpoonup> row"
  db_idempotency :: "string \<rightharpoonup> idempotent_entry"

definition storage_new :: storage where
  "storage_new =
     \<lparr>db_shippers = Map.empty, db_sites = Map.empty, db_shipments = Map.empty, db_idempotency = Map.empty\<rparr>"

definition idempotent_get :: "storage \<Rightarrow> string \<Rightarrow> idempotent_entry option" where
  "idempotent_get db request_id = db_idempotency db request_id"

definition idempotent_put :: "string \<Rightarrow> string \<Rightarrow> string \<Rightarrow> storage \<Rightarrow> storage" where
  "idempotent_put request_id request response db =
     db\<lparr>db_idempotency := (db_idempotency db)(request_id \<mapsto> \<lparr>ir_request = request, ir_response = response\<rparr>)\<rparr>"

text \<open>\<open>query_row(\<dots>).optional().expect(_)\<close>: no row, or the row if it can be read.\<close>

definition optional_row :: "(row \<Rightarrow> 'a option) \<Rightarrow> row option \<Rightarrow> 'a option option" where
  "optional_row to_row r = (case r of None \<Rightarrow> Some None | Some row \<Rightarrow> map_option Some (to_row row))"

text \<open>
  \<open>INSERT \<dots> ON CONFLICT(key) DO UPDATE SET\<close>: without a row of that key the inserted one, and with one
  only the columns of the \<open>SET\<close> list take the inserted value.
\<close>

definition upsert :: "string list \<Rightarrow> row option \<Rightarrow> row \<Rightarrow> row" where
  "upsert set_columns old excluded column =
     (case old of
        None \<Rightarrow> excluded column
      | Some row \<Rightarrow> if column \<in> set set_columns then excluded column else row column)"

definition SHIPPER_SET :: "string list" where
  "SHIPPER_SET = [''display_name'', ''create_time'', ''update_time'', ''delete_time'', ''etag'']"

definition SITE_SET :: "string list" where
  "SITE_SET = [''display_name'', ''create_time'', ''update_time'', ''delete_time'', ''latitude'', ''longitude'',
     ''state'', ''annotations'', ''tags'']"

definition SHIPMENT_SET :: "string list" where
  "SHIPMENT_SET = [''create_time'', ''update_time'', ''delete_time'', ''origin_site'', ''destination_site'',
     ''pickup_earliest_time'', ''pickup_latest_time'', ''delivery_earliest_time'', ''delivery_latest_time'',
     ''line_items'', ''annotations'', ''external_reference_id'']"

definition get_shipper :: "store_codec \<Rightarrow> storage \<Rightarrow> shipper_name \<Rightarrow> shipper option option" where
  "get_shipper sc db n = optional_row (row_to_shipper sc) (db_shippers db (sn_shipper n))"

definition put_shipper :: "shipper_name \<Rightarrow> shipper \<Rightarrow> storage \<Rightarrow> storage" where
  "put_shipper n s db =
     db\<lparr>db_shippers := (db_shippers db)(sn_shipper n \<mapsto>
          upsert SHIPPER_SET (db_shippers db (sn_shipper n)) (shipper_row n s))\<rparr>"

definition get_site :: "store_codec \<Rightarrow> storage \<Rightarrow> site_name \<Rightarrow> site option option" where
  "get_site sc db n = optional_row (row_to_site sc) (db_sites db (in_shipper n, in_site n))"

definition put_site :: "store_codec \<Rightarrow> site_name \<Rightarrow> site \<Rightarrow> storage \<Rightarrow> storage option" where
  "put_site sc n s db =
     (if db_shippers db (in_shipper n) = None then None
      else Some (db\<lparr>db_sites := (db_sites db)((in_shipper n, in_site n) \<mapsto>
             upsert SITE_SET (db_sites db (in_shipper n, in_site n)) (site_row sc n s))\<rparr>))"

definition put_shipment :: "store_codec \<Rightarrow> shipment_name \<Rightarrow> shipment \<Rightarrow> storage \<Rightarrow> storage option" where
  "put_shipment sc n s db =
     (if db_shippers db (pn_shipper n) = None then None
      else Some (db\<lparr>db_shipments := (db_shipments db)((pn_shipper n, pn_shipment n) \<mapsto>
             upsert SHIPMENT_SET (db_shipments db (pn_shipper n, pn_shipment n)) (shipment_row sc n s))\<rparr>))"

text \<open>\<open>map_err(\<dots>).collect\<close> over the rows of a list; any row that cannot be read ends the list.\<close>

fun read_rows :: "(row \<Rightarrow> 'a option) \<Rightarrow> row list \<Rightarrow> 'a list option" where
  "read_rows to_row [] = Some []"
| "read_rows to_row (r # rs) =
     Option.bind (to_row r) (\<lambda>x. map_option (\<lambda>xs. x # xs) (read_rows to_row rs))"

fun to_sql :: "sql_value \<Rightarrow> sql_value" where
  "to_sql (S_Bool b) = S_Int (if b then 1 else 0)"
| "to_sql v = v"

text \<open>The statement a page query prepares and the values it binds.\<close>

definition page_query :: "predicate \<Rightarrow> sql_order list \<Rightarrow> nat \<Rightarrow> query" where
  "page_query predicate order_by limit =
     query_limit limit (query_order_by order_by (query_filter predicate query_new))"

definition page_statement :: "string list \<Rightarrow> string \<Rightarrow> query \<Rightarrow> string \<times> sql_value list" where
  "page_statement columns table q =
     (case query_render Sqlite q of (tail, params) \<Rightarrow>
        (''SELECT '' @ join '', '' columns @ '' FROM '' @ table @ '' '' @ tail, map to_sql params))"

definition query_page ::
  "(query \<Rightarrow> row list) \<Rightarrow> (row \<Rightarrow> 'a option) \<Rightarrow> predicate \<Rightarrow> sql_order list \<Rightarrow> nat \<Rightarrow> 'a list option" where
  "query_page select to_row predicate order_by limit =
     read_rows to_row (select (page_query predicate order_by limit))"

subsection \<open>What is put is what is found\<close>

text \<open>Every row is filed under its own primary key, which SQLite guarantees.\<close>

definition keys_filed :: "storage \<Rightarrow> bool" where
  "keys_filed db \<longleftrightarrow>
     (\<forall>k r. db_shippers db k = Some r \<longrightarrow> r ''shipper'' = S_Text k)
     \<and> (\<forall>k i r. db_sites db (k, i) = Some r \<longrightarrow> r ''shipper'' = S_Text k \<and> r ''site'' = S_Text i)
     \<and> (\<forall>k i r. db_shipments db (k, i) = Some r \<longrightarrow> r ''shipper'' = S_Text k \<and> r ''shipment'' = S_Text i)"

lemma set_columns:
  "SHIPPER_COLUMNS = ''shipper'' # SHIPPER_SET"
  "SITE_COLUMNS = ''shipper'' # ''site'' # SITE_SET"
  "SHIPMENT_COLUMNS = ''shipper'' # ''shipment'' # SHIPMENT_SET"
  by (simp_all only: SHIPPER_COLUMNS_def SHIPPER_SET_def SITE_COLUMNS_def SITE_SET_def SHIPMENT_COLUMNS_def
      SHIPMENT_SET_def)

text \<open>Over a row of the same key an upsert sets every column that is read.\<close>

lemma shipper_upsert:
  assumes "\<And>r. old = Some r \<Longrightarrow> r ''shipper'' = S_Text (sn_shipper n)"
  shows "\<forall>c \<in> set SHIPPER_COLUMNS. upsert SHIPPER_SET old (shipper_row n s) c = shipper_row n s c"
  using assms by (cases old) (auto simp: set_columns upsert_def shipper_cells)

lemma site_upsert:
  assumes "\<And>r. old = Some r \<Longrightarrow> r ''shipper'' = S_Text (in_shipper n) \<and> r ''site'' = S_Text (in_site n)"
  shows "\<forall>c \<in> set SITE_COLUMNS. upsert SITE_SET old (site_row sc n s) c = site_row sc n s c"
  using assms by (cases old) (auto simp: set_columns upsert_def site_cells)

lemma shipment_upsert:
  assumes "\<And>r. old = Some r \<Longrightarrow> r ''shipper'' = S_Text (pn_shipper n) \<and> r ''shipment'' = S_Text (pn_shipment n)"
  shows "\<forall>c \<in> set SHIPMENT_COLUMNS. upsert SHIPMENT_SET old (shipment_row sc n s) c = shipment_row sc n s c"
  using assms by (cases old) (auto simp: set_columns upsert_def shipment_cells)

text \<open>A row is read by its columns alone.\<close>

lemma row_to_shipper_cong:
  "\<forall>c \<in> set SHIPPER_COLUMNS. r c = r' c \<Longrightarrow> row_to_shipper sc r = row_to_shipper sc r'"
  by (simp add: SHIPPER_COLUMNS_def row_to_shipper_def cong: sum.case_cong)

lemma row_to_site_cong:
  "\<forall>c \<in> set SITE_COLUMNS. r c = r' c \<Longrightarrow> row_to_site sc r = row_to_site sc r'"
  by (simp add: SITE_COLUMNS_def row_to_site_def cong: sum.case_cong)

lemma row_to_shipment_cong:
  "\<forall>c \<in> set SHIPMENT_COLUMNS. r c = r' c \<Longrightarrow> row_to_shipment sc r = row_to_shipment sc r'"
  by (simp add: SHIPMENT_COLUMNS_def row_to_shipment_def cong: sum.case_cong)

lemma keys_filed_put_shipper: "keys_filed db \<Longrightarrow> keys_filed (put_shipper n s db)"
  by (auto simp: keys_filed_def put_shipper_def upsert_def shipper_cells SHIPPER_SET_def split: option.split)

lemma get_put_shipper:
  assumes "keys_filed db" and "id_segment k" and "shipper_loads sc s"
  shows "get_shipper sc (put_shipper (shipper_from_parts k) s db) n =
     (if sn_shipper n = k then Some (Some (stored_shipper (shipper_from_parts k) s)) else get_shipper sc db n)"
proof -
  let ?n = "shipper_from_parts k"
  have "row_to_shipper sc (upsert SHIPPER_SET (db_shippers db k) (shipper_row ?n s)) = row_to_shipper sc (shipper_row ?n s)"
    using assms(1) by (intro row_to_shipper_cong shipper_upsert) (auto simp: keys_filed_def)
  with assms(2,3) show ?thesis by (simp add: get_shipper_def put_shipper_def optional_row_def shipper_read_back)
qed

lemma get_put_site:
  assumes "keys_filed db" and "id_segment k" and "id_segment i" and "site_loads sc s"
    and "put_site sc (site_from_parts k i) s db = Some db'"
  shows "get_site sc db' n =
     (if (in_shipper n, in_site n) = (k, i) then Some (Some (stored_site (site_from_parts k i) s)) else get_site sc db n)"
proof -
  let ?n = "site_from_parts k i"
  have "row_to_site sc (upsert SITE_SET (db_sites db (k, i)) (site_row sc ?n s)) = row_to_site sc (site_row sc ?n s)"
    using assms(1) by (intro row_to_site_cong site_upsert) (auto simp: keys_filed_def)
  with assms(2-5) show ?thesis
    by (auto simp: get_site_def put_site_def optional_row_def site_read_back split: if_splits)
qed

text \<open>The store has no lookup of one shipment: its lists read the rows.\<close>

definition shipment_at :: "store_codec \<Rightarrow> storage \<Rightarrow> string \<times> string \<Rightarrow> shipment option option" where
  "shipment_at sc db key = optional_row (row_to_shipment sc) (db_shipments db key)"

lemma get_put_shipment:
  assumes "keys_filed db" and "id_segment k" and "id_segment i" and "shipment_loads sc s"
    and "put_shipment sc (shipment_from_parts k i) s db = Some db'"
  shows "shipment_at sc db' key =
     (if key = (k, i) then Some (Some (stored_shipment (shipment_from_parts k i) s)) else shipment_at sc db key)"
proof -
  let ?n = "shipment_from_parts k i"
  have "row_to_shipment sc (upsert SHIPMENT_SET (db_shipments db (k, i)) (shipment_row sc ?n s))
      = row_to_shipment sc (shipment_row sc ?n s)"
    using assms(1) by (intro row_to_shipment_cong shipment_upsert) (auto simp: keys_filed_def)
  with assms(2-5) show ?thesis
    by (auto simp: shipment_at_def put_shipment_def optional_row_def shipment_read_back split: if_splits)
qed

text \<open>C23: What the store gives back. In a store whose rows are filed under their keys, a shipper, site or
  shipment put under its typed name, over an older row or none, and looked up again is the one put, with
  the canonical name, its times cut to the second, an unknown site state as unspecified, and coordinates
  that are no number unset (both of them: the position is gone); every other key finds what it found
  before; and a site or shipment of a shipper that is not stored is not put. This holds for the values
  the JSON and time texts of which are read back, which excludes a line item quantity that is no number
  and a time past the year 9999 (\<open>unreadable_items_not_readable\<close>, \<open>far_time_not_readable\<close>).\<close>

theorem stored_resources_read_back:
  assumes "keys_filed db" and "id_segment k" and "id_segment i"
    and "shipper_loads sc a" and "site_loads sc b" and "shipment_loads sc c"
  shows "get_shipper sc (put_shipper (shipper_from_parts k) a db) n =
      (if sn_shipper n = k then Some (Some (stored_shipper (shipper_from_parts k) a)) else get_shipper sc db n)
    \<and> (case put_site sc (site_from_parts k i) b db of
         None \<Rightarrow> db_shippers db k = None
       | Some db' \<Rightarrow> db_shippers db k \<noteq> None \<and> get_site sc db' m =
           (if (in_shipper m, in_site m) = (k, i) then Some (Some (stored_site (site_from_parts k i) b))
            else get_site sc db m))
    \<and> (case put_shipment sc (shipment_from_parts k i) c db of
         None \<Rightarrow> db_shippers db k = None
       | Some db' \<Rightarrow> db_shippers db k \<noteq> None \<and> shipment_at sc db' key =
           (if key = (k, i) then Some (Some (stored_shipment (shipment_from_parts k i) c))
            else shipment_at sc db key))"
proof (intro conjI)
  show "case put_site sc (site_from_parts k i) b db of None \<Rightarrow> db_shippers db k = None
     | Some db' \<Rightarrow> db_shippers db k \<noteq> None \<and> get_site sc db' m =
         (if (in_shipper m, in_site m) = (k, i) then Some (Some (stored_site (site_from_parts k i) b)) else get_site sc db m)"
    using get_put_site [OF assms(1-3) assms(5)] by (auto simp: put_site_def new_names split: option.split if_splits)
  show "case put_shipment sc (shipment_from_parts k i) c db of None \<Rightarrow> db_shippers db k = None
     | Some db' \<Rightarrow> db_shippers db k \<noteq> None \<and> shipment_at sc db' key =
         (if key = (k, i) then Some (Some (stored_shipment (shipment_from_parts k i) c)) else shipment_at sc db key)"
    using get_put_shipment [OF assms(1-3) assms(6)]
    by (auto simp: put_shipment_def new_names split: option.split if_splits)
qed (rule get_put_shipper [OF assms(1,2,4)])

text \<open>A shipper renamed over its older row, and a dock of it.\<close>

definition old_store :: storage where
  "old_store = put_shipper (shipper_from_parts ''acme'') small_shipper storage_new"

theorem stored_resources_read_back_witness:
  "get_shipper small_codec (put_shipper (shipper_from_parts ''acme'') (small_shipper\<lparr>sh_display_name := ''Apex''\<rparr>) old_store)
       (shipper_from_parts ''acme'')
     = Some (Some (small_shipper\<lparr>sh_name := ''shippers/acme'', sh_display_name := ''Apex''\<rparr>))
   \<and> (\<exists>db'. put_shipment small_codec (shipment_from_parts ''acme'' ''d1'') small_shipment old_store = Some db'
        \<and> shipment_at small_codec db' (''acme'', ''d1'')
            = Some (Some (small_shipment\<lparr>sp_name := ''shippers/acme/shipments/d1''\<rparr>)))"
proof -
  have filed: "keys_filed old_store"
    by (simp add: keys_filed_def old_store_def storage_new_def put_shipper_def upsert_def shipper_cells)
  have loads: "shipper_loads small_codec (small_shipper\<lparr>sh_display_name := ''Apex''\<rparr>)" "site_loads small_codec small_site"
    "shipment_loads small_codec small_shipment"
    by (simp_all add: shipper_loads_def site_loads_def shipment_loads_def shipment_times_def loads_def map_loads_def
        items_load_def small_codec_def small_shipper_def small_site_def small_shipment_def)
  have present: "db_shippers old_store ''acme'' \<noteq> None" by (simp add: old_store_def put_shipper_def)
  show ?thesis
    using stored_resources_read_back [OF filed small_segments loads, of "shipper_from_parts ''acme''"
        "site_from_parts ''acme'' ''d1''" "(''acme'', ''d1'')"] present
    by (auto simp: stored_shipper_def stored_shipment_def small_shipper_def small_shipment_def to_seconds_def
        split: option.splits)
qed

subsection \<open>The store's invariant\<close>

text \<open>
  Keys are segments, a row is filed under its own key columns and can be read, and a child has its
  shipper. Every write of a resource that loads keeps it.
\<close>

definition storage_ok :: "store_codec \<Rightarrow> storage \<Rightarrow> bool" where
  "storage_ok sc db \<longleftrightarrow>
     (\<forall>k r. db_shippers db k = Some r \<longrightarrow>
        id_segment k \<and> (\<exists>s. shipper_loads sc s \<and> r = shipper_row (shipper_from_parts k) s))
     \<and> (\<forall>k i r. db_sites db (k, i) = Some r \<longrightarrow>
        id_segment k \<and> id_segment i \<and> db_shippers db k \<noteq> None
        \<and> (\<exists>s. site_loads sc s \<and> r = site_row sc (site_from_parts k i) s))
     \<and> (\<forall>k i r. db_shipments db (k, i) = Some r \<longrightarrow>
        id_segment k \<and> id_segment i \<and> db_shippers db k \<noteq> None
        \<and> (\<exists>s. shipment_loads sc s \<and> r = shipment_row sc (shipment_from_parts k i) s))"

lemma storage_ok_filed: "storage_ok sc db \<Longrightarrow> keys_filed db"
  unfolding storage_ok_def keys_filed_def by (fastforce simp: shipper_cells site_cells shipment_cells)

text \<open>Over a readable row of the same key an upsert leaves exactly the inserted row.\<close>

lemma upsert_rows:
  "upsert SHIPPER_SET (Some (shipper_row n s0)) (shipper_row n s) = shipper_row n s"
  "upsert SITE_SET (Some (site_row sc m b0)) (site_row sc m b) = site_row sc m b"
  "upsert SHIPMENT_SET (Some (shipment_row sc l c0)) (shipment_row sc l c) = shipment_row sc l c"
  "upsert cols None r = r"
  by (rule ext, simp add: upsert_def SHIPPER_SET_def SITE_SET_def SHIPMENT_SET_def shipper_row_def site_row_def
      shipment_row_def row_of_params_def SHIPPER_COLUMNS_def SITE_COLUMNS_def SHIPMENT_COLUMNS_def Let_def)+

lemma storage_ok_new: "storage_ok sc storage_new"
  by (simp add: storage_ok_def storage_new_def)

lemma storage_ok_shipper:
  assumes "storage_ok sc db" and "id_segment k" and "shipper_loads sc s"
  shows "storage_ok sc (put_shipper (shipper_from_parts k) s db)"
proof -
  have "upsert SHIPPER_SET (db_shippers db k) (shipper_row (shipper_from_parts k) s) = shipper_row (shipper_from_parts k) s"
  proof (cases "db_shippers db k")
    case (Some r)
    with assms(1) obtain s0 where "r = shipper_row (shipper_from_parts k) s0" unfolding storage_ok_def by blast
    with Some show ?thesis by (simp add: upsert_rows)
  qed (simp add: upsert_rows)
  with assms show ?thesis unfolding storage_ok_def put_shipper_def by auto
qed

lemma storage_ok_site:
  assumes "storage_ok sc db" and "id_segment k" and "id_segment i" and "site_loads sc s"
    and "put_site sc (site_from_parts k i) s db = Some db'"
  shows "storage_ok sc db'"
proof -
  have "upsert SITE_SET (db_sites db (k, i)) (site_row sc (site_from_parts k i) s) = site_row sc (site_from_parts k i) s"
  proof (cases "db_sites db (k, i)")
    case (Some r)
    with assms(1) obtain s0 where "r = site_row sc (site_from_parts k i) s0" unfolding storage_ok_def by blast
    with Some show ?thesis by (simp add: upsert_rows)
  qed (simp add: upsert_rows)
  with assms show ?thesis unfolding storage_ok_def put_site_def by (auto split: if_splits)
qed

lemma storage_ok_shipment:
  assumes "storage_ok sc db" and "id_segment k" and "id_segment i" and "shipment_loads sc s"
    and "put_shipment sc (shipment_from_parts k i) s db = Some db'"
  shows "storage_ok sc db'"
proof -
  have "upsert SHIPMENT_SET (db_shipments db (k, i)) (shipment_row sc (shipment_from_parts k i) s)
      = shipment_row sc (shipment_from_parts k i) s"
  proof (cases "db_shipments db (k, i)")
    case (Some r)
    with assms(1) obtain s0 where "r = shipment_row sc (shipment_from_parts k i) s0" unfolding storage_ok_def by blast
    with Some show ?thesis by (simp add: upsert_rows)
  qed (simp add: upsert_rows)
  with assms show ?thesis unfolding storage_ok_def put_shipment_def by (auto split: if_splits)
qed

lemma storage_ok_idempotency:
  "storage_ok sc db \<Longrightarrow> storage_ok sc (idempotent_put r a b db)"
  unfolding storage_ok_def idempotent_put_def by simp

text \<open>A store that holds its invariant never fails to read, and finds what was put last.\<close>

lemma get_shipper_ok:
  assumes "storage_ok sc db"
  shows "get_shipper sc db n \<noteq> None"
proof (cases "db_shippers db (sn_shipper n)")
  case (Some r)
  with assms obtain s where "id_segment (sn_shipper n)" "shipper_loads sc s"
    "r = shipper_row (shipper_from_parts (sn_shipper n)) s"
    unfolding storage_ok_def by blast
  with Some show ?thesis by (simp add: get_shipper_def optional_row_def shipper_read_back)
qed (simp add: get_shipper_def optional_row_def)

lemma get_site_ok:
  assumes "storage_ok sc db"
  shows "get_site sc db n \<noteq> None"
proof (cases "db_sites db (in_shipper n, in_site n)")
  case (Some r)
  with assms obtain s where "id_segment (in_shipper n)" "id_segment (in_site n)" "site_loads sc s"
    "r = site_row sc (site_from_parts (in_shipper n) (in_site n)) s"
    unfolding storage_ok_def by blast
  with Some show ?thesis by (simp add: get_site_def optional_row_def site_read_back)
qed (simp add: get_site_def optional_row_def)

end
