(* ===== verification/Freight_Operations.thy ===== *)
theory Freight_Operations
  imports Freight_Store Lro
begin

text \<open>
  The long-running batch of the example server: \<open>OperationStore\<close> (\<open>storage.rs\<close>), the task
  \<open>run_batch_create\<close>, and the \<open>Operations\<close> service (\<open>service.rs\<close>). Every lock acquisition is one
  atomic step, so a task is interleaved with the handlers between the load and the store of
  \<open>update_operation\<close>. \<open>build_shipper\<close> is a parameter here, with the minted id and the clock of a call in
  its argument.
\<close>

subsection \<open>The store\<close>

record operation_store =
  os_operations :: "proto_operation btree"
  os_cancels :: "string set"

definition operation_store_new :: operation_store where
  "operation_store_new = \<lparr>os_operations = [], os_cancels = {}\<rparr>"

definition os_put :: "proto_operation \<Rightarrow> operation_store \<Rightarrow> operation_store" where
  "os_put op os = os\<lparr>os_operations := bt_insert (op_name op) op (os_operations os)\<rparr>"

definition os_get :: "operation_store \<Rightarrow> string \<Rightarrow> proto_operation option" where
  "os_get os name = map_of (os_operations os) name"

definition os_list :: "operation_store \<Rightarrow> string \<Rightarrow> proto_operation list" where
  "os_list os coll =
     (let pre = coll @ ''/'' in
      filter (\<lambda>operation. Sublist.prefix pre (op_name operation)) (map snd (os_operations os)))"

definition os_remove_operation :: "string \<Rightarrow> operation_store \<Rightarrow> bool \<times> operation_store" where
  "os_remove_operation name os =
     (os_get os name \<noteq> None, os\<lparr>os_operations := filter (\<lambda>(k, _). k \<noteq> name) (os_operations os)\<rparr>)"

definition os_request_cancel :: "string \<Rightarrow> operation_store \<Rightarrow> operation_store" where
  "os_request_cancel name os = os\<lparr>os_cancels := insert name (os_cancels os)\<rparr>"

definition os_clear_cancel :: "string \<Rightarrow> operation_store \<Rightarrow> operation_store" where
  "os_clear_cancel name os = os\<lparr>os_cancels := os_cancels os - {name}\<rparr>"

text \<open>\<open>remove\<close> locks the operations and then the flags; these are its two steps.\<close>

definition os_remove :: "string \<Rightarrow> operation_store \<Rightarrow> bool \<times> operation_store" where
  "os_remove name os =
     (case os_remove_operation name os of (removed, os) \<Rightarrow> (removed, os_clear_cancel name os))"

definition os_is_cancel_requested :: "operation_store \<Rightarrow> string \<Rightarrow> bool" where
  "os_is_cancel_requested os name \<longleftrightarrow> name \<in> os_cancels os"

subsection \<open>The task\<close>

record batch_metadata =
  bm_created :: int
  bm_total :: int

record batch_response =
  br_shippers :: "shipper list"

text \<open>
  A mutation is what the closure given to \<open>update_operation\<close> does; the result of the call it makes is
  discarded, the operation it leaves is kept.
\<close>

datatype mutation = Mut_Cancel | Mut_Fail status | Mut_Metadata batch_metadata | Mut_Succeed batch_response

fun mutate ::
  "batch_metadata message_type \<Rightarrow> batch_response message_type \<Rightarrow> mutation \<Rightarrow> proto_operation \<Rightarrow> proto_operation" where
  "mutate mt rt Mut_Cancel op = snd (dyn_cancel op)"
| "mutate mt rt (Mut_Fail s) op = snd (operation_fail_status op s)"
| "mutate mt rt (Mut_Metadata m) op = snd (operation_set_metadata mt op m)"
| "mutate mt rt (Mut_Succeed r) op = snd (operation_succeed rt op r)"

text \<open>
  Where the task is: at the check of the cancel flag, before \<open>build_shipper\<close>, before the load of an
  update, between its load and its store (with the operation to store), before \<open>clear_cancel\<close>, or done.
\<close>

datatype task_at = At_Check | At_Build | At_Load mutation | At_Store mutation proto_operation | At_Clear | At_End

record 'q task =
  tk_name :: string
  tk_requests :: "'q list"
  tk_index :: nat
  tk_total :: int
  tk_shippers :: "shipper list"
  tk_at :: task_at

definition batch_task :: "string \<Rightarrow> 'q list \<Rightarrow> int \<Rightarrow> 'q task" where
  "batch_task name requests total_count =
     \<lparr>tk_name = name, tk_requests = requests, tk_index = 0, tk_total = total_count, tk_shippers = [], tk_at = At_Check\<rparr>"

text \<open>\<open>usize as i32\<close>.\<close>

definition as_i32 :: "nat \<Rightarrow> int" where
  "as_i32 n = (int n + 2 ^ 31) mod 2 ^ 32 - 2 ^ 31"

text \<open>What follows an update: \<open>stored\<close> tells whether the operation was still there.\<close>

definition after_update :: "bool \<Rightarrow> mutation \<Rightarrow> task_at" where
  "after_update stored mut =
     (case mut of
        Mut_Cancel \<Rightarrow> At_Clear
      | Mut_Metadata _ \<Rightarrow> if stored then At_Check else At_End
      | _ \<Rightarrow> At_End)"

record 'q batch_env =
  be_metadata :: "batch_metadata message_type"
  be_response :: "batch_response message_type"
  be_build :: "string \<times> timestamp \<Rightarrow> 'q \<Rightarrow> status + shipper_name \<times> shipper"

text \<open>One step of a task; \<open>fresh\<close> is the id minted and the time read, if this step builds a shipper.\<close>

definition task_step ::
  "'q batch_env \<Rightarrow> string \<times> timestamp \<Rightarrow> 'q task \<Rightarrow> operation_store \<times> storage
     \<Rightarrow> 'q task \<times> operation_store \<times> storage" where
  "task_step env fresh t s =
     (case s of (os, db) \<Rightarrow>
      case tk_at t of
        At_Check \<Rightarrow>
          (case tk_requests t of
             [] \<Rightarrow> (t\<lparr>tk_at := At_Load (Mut_Succeed \<lparr>br_shippers = tk_shippers t\<rparr>)\<rparr>, os, db)
           | _ \<Rightarrow> if os_is_cancel_requested os (tk_name t) then (t\<lparr>tk_at := At_Load Mut_Cancel\<rparr>, os, db)
                  else (t\<lparr>tk_at := At_Build\<rparr>, os, db))
      | At_Build \<Rightarrow>
          (case tk_requests t of
             [] \<Rightarrow> (t, os, db)
           | create # later \<Rightarrow>
               (case be_build env fresh create of
                  Inl status \<Rightarrow> (t\<lparr>tk_at := At_Load (Mut_Fail status)\<rparr>, os, db)
                | Inr (resource, shipper) \<Rightarrow>
                    (t\<lparr>tk_requests := later, tk_index := Suc (tk_index t),
                       tk_shippers := tk_shippers t @ [shipper],
                       tk_at := At_Load (Mut_Metadata \<lparr>bm_created = as_i32 (Suc (tk_index t)), bm_total = tk_total t\<rparr>)\<rparr>,
                     os, put_shipper resource shipper db)))
      | At_Load mut \<Rightarrow>
          (case os_get os (tk_name t) of
             None \<Rightarrow> (t\<lparr>tk_at := after_update False mut\<rparr>, os, db)
           | Some inner \<Rightarrow>
               (case from_inner inner of
                  Inl _ \<Rightarrow> (t\<lparr>tk_at := after_update False mut\<rparr>, os, db)
                | Inr op \<Rightarrow> (t\<lparr>tk_at := At_Store mut (mutate (be_metadata env) (be_response env) mut op)\<rparr>, os, db)))
      | At_Store mut op \<Rightarrow> (t\<lparr>tk_at := after_update True mut\<rparr>, os_put op os, db)
      | At_Clear \<Rightarrow> (t\<lparr>tk_at := At_End\<rparr>, os_clear_cancel (tk_name t) os, db)
      | At_End \<Rightarrow> (t, os, db))"

subsection \<open>The service\<close>

definition os_require ::
  "unicode_tables \<Rightarrow> (string \<Rightarrow> bool) \<Rightarrow> operation_store \<Rightarrow> string \<Rightarrow> status + proto_operation" where
  "os_require u uuid_ok os name =
     res_bind (map_err lro_status (operation_name_parse u uuid_ok name)) (\<lambda>_.
       ok_or (lro_status (lro_not_found name)) (os_get os name))"

definition get_operation ::
  "unicode_tables \<Rightarrow> (string \<Rightarrow> bool) \<Rightarrow> operation_store \<Rightarrow> string \<Rightarrow> status + proto_operation" where
  "get_operation u uuid_ok os name = os_require u uuid_ok os name"

definition delete_operation ::
  "unicode_tables \<Rightarrow> (string \<Rightarrow> bool) \<Rightarrow> operation_store \<Rightarrow> string \<Rightarrow> (status + unit) \<times> operation_store" where
  "delete_operation u uuid_ok os name =
     (case operation_name_parse u uuid_ok name of
        Inl e \<Rightarrow> (Inl (lro_status e), os)
      | Inr _ \<Rightarrow>
          (case os_remove name os of (removed, os') \<Rightarrow>
             (if removed then Inr () else Inl (lro_status (lro_not_found name)), os')))"

text \<open>
  The two lock acquisitions of \<open>cancel_operation\<close> one after the other; in \<open>world_step\<close> below they are
  two steps.
\<close>

definition cancel_operation ::
  "unicode_tables \<Rightarrow> (string \<Rightarrow> bool) \<Rightarrow> operation_store \<Rightarrow> string \<Rightarrow> (status + unit) \<times> operation_store" where
  "cancel_operation u uuid_ok os name =
     (case os_require u uuid_ok os name of
        Inl e \<Rightarrow> (Inl e, os)
      | Inr _ \<Rightarrow> (Inr (), os_request_cancel name os))"

record list_operations_request =
  lo_name :: string
  lo_page_size :: int
  lo_page_token :: string

text \<open>\<open>str::parse::<usize>\<close> on a 64-bit target: an optional plus and digits, in range.\<close>

definition parse_usize :: "string \<Rightarrow> nat option" where
  "parse_usize s =
     (let digits = (case s of c # t \<Rightarrow> if c = CHR ''+'' then t else s | [] \<Rightarrow> s)
      in if digits \<noteq> [] \<and> list_all (\<lambda>c. CHR ''0'' \<le> c \<and> c \<le> CHR ''9'') digits then
           (let n = foldl (\<lambda>n c. 10 * n + (of_char c - 48)) 0 digits in if n < 2 ^ 64 then Some n else None)
         else None)"

definition operations_limit :: "int \<Rightarrow> status + nat" where
  "operations_limit n =
     (if n < 0 then Inl (plain_status Code_InvalidArgument ''page_size must not be negative'')
      else if n = 0 then Inr 50
      else Inr (min (nat n) 1000))"

definition list_operations ::
  "operation_store \<Rightarrow> list_operations_request \<Rightarrow> status + proto_operation list \<times> string" where
  "list_operations os req =
     (let operations = os_list os (lo_name req) in
      res_bind (operations_limit (lo_page_size req)) (\<lambda>limit.
      res_bind (if lo_page_token req = [] then Inr 0
                else ok_or (plain_status Code_InvalidArgument ''page_token is not a valid offset'')
                       (parse_usize (lo_page_token req))) (\<lambda>offset.
        let offset = min offset (length operations);
            next_offset = min (offset + limit) (2 ^ 64 - 1);
            next_page_token = (if next_offset < length operations then show_nat next_offset else [])
        in Inr (take limit (drop offset operations), next_page_token))))"

subsection \<open>Tasks and handlers interleaved\<close>

text \<open>
  The server's operations at run time: the store, the tasks spawned, the names minted, the
  \<open>cancel_operation\<close> handlers that have found their operation and not yet set the flag, and the
  \<open>delete_operation\<close> handlers between the two locks of \<open>remove\<close>. A minted name is new (a UUIDv4).
\<close>

record 'q world =
  wd_store :: operation_store
  wd_db :: storage
  wd_tasks :: "'q task list"
  wd_names :: "string list"
  wd_cancelling :: "string list"
  wd_deleting :: "string list"

definition world_new :: "storage \<Rightarrow> 'q world" where
  "world_new db =
     \<lparr>wd_store = operation_store_new, wd_db = db, wd_tasks = [], wd_names = [], wd_cancelling = [],
      wd_deleting = []\<rparr>"

text \<open>The end of \<open>batch_create_shippers\<close>: store the pending operation, spawn the task.\<close>

definition start_batch :: "'q batch_env \<Rightarrow> string \<Rightarrow> 'q list \<Rightarrow> 'q world \<Rightarrow> 'q world" where
  "start_batch env name requests w =
     (let total_count = as_i32 (length requests);
          pending = dyn_pending name (Some (pack (be_metadata env) \<lparr>bm_created = 0, bm_total = total_count\<rparr>))
      in w\<lparr>wd_store := os_put pending (wd_store w),
           wd_tasks := wd_tasks w @ [batch_task name requests total_count],
           wd_names := name # wd_names w\<rparr>)"

definition step_task :: "'q batch_env \<Rightarrow> string \<times> timestamp \<Rightarrow> nat \<Rightarrow> 'q world \<Rightarrow> 'q world" where
  "step_task env fresh i w =
     (case task_step env fresh (wd_tasks w ! i) (wd_store w, wd_db w) of (t, os, db) \<Rightarrow>
        w\<lparr>wd_store := os, wd_db := db, wd_tasks := (wd_tasks w)[i := t]\<rparr>)"

inductive world_step :: "'q batch_env \<Rightarrow> 'q world \<Rightarrow> 'q world \<Rightarrow> bool" for env where
  start: "name \<noteq> [] \<Longrightarrow> name \<notin> set (wd_names w) \<Longrightarrow> world_step env w (start_batch env name requests w)"
| task: "i < length (wd_tasks w) \<Longrightarrow> world_step env w (step_task env fresh i w)"
| delete: "world_step env w (w\<lparr>wd_store := snd (os_remove_operation name (wd_store w)),
                             wd_deleting := name # wd_deleting w\<rparr>)"
| delete_flag: "name \<in> set (wd_deleting w) \<Longrightarrow>
    world_step env w (w\<lparr>wd_store := os_clear_cancel name (wd_store w),
                       wd_deleting := remove1 name (wd_deleting w)\<rparr>)"
| cancel_found: "os_get (wd_store w) name \<noteq> None \<Longrightarrow>
    world_step env w (w\<lparr>wd_cancelling := name # wd_cancelling w\<rparr>)"
| cancel_marked: "name \<in> set (wd_cancelling w) \<Longrightarrow>
    world_step env w (w\<lparr>wd_store := os_request_cancel name (wd_store w),
                       wd_cancelling := remove1 name (wd_cancelling w)\<rparr>)"
| other_write: "world_step env w (w\<lparr>wd_db := db\<rparr>)"

definition reachable_world :: "'q batch_env \<Rightarrow> 'q world \<Rightarrow> bool" where
  "reachable_world env w \<longleftrightarrow> (\<exists>db. (world_step env)\<^sup>*\<^sup>* (world_new db) w)"

inductive_cases world_stepE: "world_step env w w'"

subsection \<open>The invariant\<close>

definition task_live :: "'q task \<Rightarrow> bool" where
  "task_live t \<longleftrightarrow> tk_at t \<noteq> At_Clear \<and> tk_at t \<noteq> At_End"

definition terminal_mutation :: "mutation \<Rightarrow> bool" where
  "terminal_mutation mut \<longleftrightarrow> (case mut of Mut_Metadata _ \<Rightarrow> False | _ \<Rightarrow> True)"

definition task_inv :: "operation_store \<Rightarrow> 'q task \<Rightarrow> bool" where
  "task_inv os t \<longleftrightarrow>
     (\<forall>op. os_get os (tk_name t) = Some op \<longrightarrow> (task_live t \<longleftrightarrow> \<not> op_done op))
     \<and> (\<forall>mut op. tk_at t = At_Store mut op \<longrightarrow>
          op_name op = tk_name t \<and> lro_inv op \<and> (op_done op \<longleftrightarrow> terminal_mutation mut))
     \<and> (tk_at t = At_Build \<longrightarrow> tk_requests t \<noteq> [])
     \<and> tk_name t \<noteq> []"

definition store_inv :: "operation_store \<Rightarrow> bool" where
  "store_inv os \<longleftrightarrow> bt_wf (os_operations os) \<and> (\<forall>k op. os_get os k = Some op \<longrightarrow> op_name op = k \<and> k \<noteq> [] \<and> lro_inv op)"

definition world_inv :: "'q world \<Rightarrow> bool" where
  "world_inv w \<longleftrightarrow>
     store_inv (wd_store w) \<and> (\<forall>t \<in> set (wd_tasks w). task_inv (wd_store w) t)
     \<and> distinct (map tk_name (wd_tasks w))
     \<and> set (map tk_name (wd_tasks w)) = set (wd_names w)
     \<and> (\<forall>k op. os_get (wd_store w) k = Some op \<longrightarrow> k \<in> set (wd_names w))"

lemma map_of_filter_key: "map_of (filter (\<lambda>(k, _). k \<noteq> n) xs) k = (if k = n then None else map_of xs k)"
  by (induction xs) auto

lemma os_get_put [simp]: "os_get (os_put op os) k = (if k = op_name op then Some op else os_get os k)"
  by (simp add: os_get_def os_put_def)

lemma os_cancels_put [simp]: "os_cancels (os_put op os) = os_cancels os"
  by (simp add: os_put_def)

lemma os_get_remove [simp]:
  "os_get (snd (os_remove_operation name os)) k = (if k = name then None else os_get os k)"
  by (auto simp: os_get_def os_remove_operation_def map_of_filter_key)

lemma os_get_flags [simp]:
  "os_get (os_request_cancel name os) k = os_get os k" "os_get (os_clear_cancel name os) k = os_get os k"
  by (simp_all add: os_get_def os_request_cancel_def os_clear_cancel_def)

lemma store_inv_put: "store_inv os \<Longrightarrow> op_name op \<noteq> [] \<Longrightarrow> lro_inv op \<Longrightarrow> store_inv (os_put op os)"
  by (auto simp: store_inv_def os_put_def bt_wf_insert os_get_def)

lemma store_inv_remove: "store_inv os \<Longrightarrow> store_inv (snd (os_remove_operation name os))"
  by (auto simp: store_inv_def os_remove_operation_def bt_wf_def os_get_def map_of_filter_key sorted_wrt_map sorted_wrt_filter
      split: if_splits)

lemma store_inv_flags:
  "store_inv os \<Longrightarrow> store_inv (os_request_cancel name os)" "store_inv os \<Longrightarrow> store_inv (os_clear_cancel name os)"
  by (auto simp: store_inv_def os_get_def os_request_cancel_def os_clear_cancel_def)

lemma mutate_pending:
  assumes "\<not> op_done op" and "lro_inv op"
  shows "op_name (mutate mt rt mut op) = op_name op \<and> lro_inv (mutate mt rt mut op)
    \<and> (op_done (mutate mt rt mut op) \<longleftrightarrow> terminal_mutation mut)"
  using assms
  by (cases mut)
    (simp_all add: lro_inv_def terminal_mutation_def dyn_defs operation_fail_status_def operation_set_metadata_def
      operation_succeed_def)

lemma stored_from_inner:
  "store_inv os \<Longrightarrow> os_get os k = Some op \<Longrightarrow> from_inner op = Inr op"
  using dyn_validate_iff [of op] by (auto simp: store_inv_def from_inner_def)

lemma task_inv_frame:
  "os_get os' (tk_name t) = os_get os (tk_name t) \<Longrightarrow> task_inv os' t = task_inv os t"
  by (simp add: task_inv_def)

lemma task_inv_remove: "task_inv os t \<Longrightarrow> task_inv (snd (os_remove_operation name os)) t"
  by (cases "tk_name t = name") (simp_all add: task_inv_def)

lemma after_update_cases:
  "after_update stored mut = At_Clear \<or> after_update stored mut = At_End \<or> after_update stored mut = At_Check"
  "after_update True mut = At_Check \<longleftrightarrow> \<not> terminal_mutation mut"
  "after_update False mut \<noteq> At_Check"
  by (cases mut; cases stored; simp add: after_update_def terminal_mutation_def)+

lemma task_step_inv:
  assumes inv: "store_inv os" "task_inv os t" and step: "task_step env fresh t (os, db) = (t', os', db')"
  shows "store_inv os' \<and> task_inv os' t' \<and> tk_name t' = tk_name t
    \<and> (\<forall>k. k \<noteq> tk_name t \<longrightarrow> os_get os' k = os_get os k)"
proof (cases "tk_at t")
  case At_Check
  with inv step show ?thesis
    by (cases "tk_requests t") (auto simp: task_step_def task_inv_def task_live_def split: if_splits)
next
  case At_Build
  with inv step show ?thesis
    by (auto simp: task_step_def task_inv_def task_live_def split: list.splits sum.splits)
next
  case (At_Load mut)
  show ?thesis
  proof (cases "os_get os (tk_name t)")
    case None
    with At_Load inv step show ?thesis
      using after_update_cases(1) [of False mut] by (auto simp: task_step_def task_inv_def task_live_def)
  next
    case (Some op)
    with inv have op: "\<not> op_done op" "op_name op = tk_name t" "lro_inv op"
      using At_Load by (auto simp: task_inv_def task_live_def store_inv_def)
    have "task_step env fresh t (os, db)
        = (t\<lparr>tk_at := At_Store mut (mutate (be_metadata env) (be_response env) mut op)\<rparr>, os, db)"
      using At_Load Some stored_from_inner [OF inv(1) Some] by (simp add: task_step_def)
    with step inv op Some mutate_pending [OF op(1,3), of "be_metadata env" "be_response env" mut]
    show ?thesis by (auto simp: task_inv_def task_live_def)
  qed
next
  case (At_Store mut op)
  with inv have op: "op_name op = tk_name t" "lro_inv op" "op_done op \<longleftrightarrow> terminal_mutation mut" "tk_name t \<noteq> []"
    by (auto simp: task_inv_def)
  from At_Store step have "t' = t\<lparr>tk_at := after_update True mut\<rparr>" "os' = os_put op os"
    by (auto simp: task_step_def)
  with op store_inv_put [OF inv(1), of op] after_update_cases(1) [of True mut] after_update_cases(2) [of mut] show ?thesis
    by (auto simp: task_inv_def task_live_def)
next
  case At_Clear
  with inv step show ?thesis
    by (auto simp: task_step_def task_inv_def task_live_def store_inv_flags)
next
  case At_End
  with inv step show ?thesis by (simp add: task_step_def)
qed

lemma world_inv_new: "world_inv (world_new db)"
  by (simp add: world_inv_def world_new_def operation_store_new_def store_inv_def os_get_def)

lemma pending_ok: "lro_inv (dyn_pending name md)" "op_name (dyn_pending name md) = name" "\<not> op_done (dyn_pending name md)"
  by (simp_all add: lro_inv_def dyn_pending_def)

lemma step_task_inv:
  assumes inv: "world_inv w" and i: "i < length (wd_tasks w)"
  shows "world_inv (step_task env fresh i w)"
    and "k \<noteq> tk_name (wd_tasks w ! i) \<Longrightarrow> os_get (wd_store (step_task env fresh i w)) k = os_get (wd_store w) k"
proof -
  let ?t = "wd_tasks w ! i"
  obtain t' os' db' where step: "task_step env fresh ?t (wd_store w, wd_db w) = (t', os', db')"
    by (cases "task_step env fresh ?t (wd_store w, wd_db w)") auto
  have pre: "store_inv (wd_store w)" "task_inv (wd_store w) ?t"
    using inv i by (auto simp: world_inv_def)
  note post = task_step_inv [OF pre step]
  have w': "step_task env fresh i w = w\<lparr>wd_store := os', wd_db := db', wd_tasks := (wd_tasks w)[i := t']\<rparr>"
    by (simp add: step_task_def step)
  have names: "map tk_name ((wd_tasks w)[i := t']) = map tk_name (wd_tasks w)"
    using i post by (intro nth_equalityI) (auto simp: nth_list_update)
  have others: "task_inv os' t" if t: "t \<in> set ((wd_tasks w)[i := t'])" for t
  proof -
    from t obtain j where j: "j < length (wd_tasks w)" "t = (wd_tasks w)[i := t'] ! j"
      by (auto simp: in_set_conv_nth)
    show ?thesis
    proof (cases "j = i")
      case True
      with j post show ?thesis by simp
    next
      case False
      then have "tk_name (wd_tasks w ! j) \<noteq> tk_name ?t"
        using inv i j by (auto simp: world_inv_def distinct_conv_nth)
      moreover have "task_inv (wd_store w) (wd_tasks w ! j)" using inv j by (auto simp: world_inv_def)
      ultimately show ?thesis using j False post task_inv_frame [of os' "wd_tasks w ! j" "wd_store w"] by simp
    qed
  qed
  have "k \<in> set (wd_names w)" if "os_get os' k = Some op" for k op
  proof (cases "k = tk_name ?t")
    case True
    with inv i show ?thesis by (auto simp: world_inv_def)
  next
    case False
    with that post inv show ?thesis by (auto simp: world_inv_def)
  qed
  with names others post inv show "world_inv (step_task env fresh i w)"
    by (auto simp: world_inv_def w')
  show "k \<noteq> tk_name ?t \<Longrightarrow> os_get (wd_store (step_task env fresh i w)) k = os_get (wd_store w) k"
    using post by (simp add: w')
qed

lemma start_batch_inv:
  assumes inv: "world_inv w" and name: "name \<noteq> []" "name \<notin> set (wd_names w)"
  shows "world_inv (start_batch env name requests w)"
proof -
  have none: "os_get (wd_store w) name = None" using inv name unfolding world_inv_def by fastforce
  have "task_inv (os_put (dyn_pending name md) (wd_store w)) t" if "t \<in> set (wd_tasks w)" for t md
  proof -
    have "tk_name t \<noteq> name" using that inv name by (auto simp: world_inv_def)
    with that inv show ?thesis
      using task_inv_frame [of "os_put (dyn_pending name md) (wd_store w)" t "wd_store w"]
      by (auto simp: world_inv_def pending_ok)
  qed
  moreover have "task_inv (os_put (dyn_pending name md) (wd_store w)) (batch_task name requests n)" for md n
    using name by (simp add: task_inv_def batch_task_def pending_ok task_live_def)
  moreover have "store_inv (os_put (dyn_pending name md) (wd_store w))" for md
    using inv name by (intro store_inv_put) (simp_all add: world_inv_def pending_ok)
  ultimately show ?thesis
    using inv name by (auto simp: world_inv_def start_batch_def Let_def pending_ok batch_task_def)
qed

lemma world_step_inv: "world_step env w w' \<Longrightarrow> world_inv w \<Longrightarrow> world_inv w'"
proof (induction rule: world_step.induct)
  case (delete w name)
  then show ?case
    by (auto simp: world_inv_def store_inv_remove task_inv_remove)
next
  case (delete_flag name w)
  then show ?case
    by (auto simp: world_inv_def store_inv_flags task_inv_frame [of "os_clear_cancel name (wd_store w)" _ "wd_store w"])
next
  case (cancel_marked name w)
  then show ?case
    by (auto simp: world_inv_def store_inv_flags task_inv_frame [of "os_request_cancel name (wd_store w)" _ "wd_store w"])
qed (simp_all add: start_batch_inv step_task_inv, simp_all add: world_inv_def)

lemma reachable_world_inv: "reachable_world env w \<Longrightarrow> world_inv w"
  unfolding reachable_world_def
  by (elim exE) (erule rtranclp_induct, auto intro: world_inv_new world_step_inv)

subsection \<open>Done is final\<close>

definition settled :: "'q world \<Rightarrow> string \<Rightarrow> bool" where
  "settled w name \<longleftrightarrow> name \<in> set (wd_names w) \<and> (\<forall>t \<in> set (wd_tasks w). tk_name t = name \<longrightarrow> \<not> task_live t)"

lemma task_step_ended:
  "\<not> task_live t \<Longrightarrow> task_step env fresh t (os, db) = (t', os', db') \<Longrightarrow>
     \<not> task_live t' \<and> tk_name t' = tk_name t \<and> os_get os' k = os_get os k"
  by (auto simp: task_live_def task_step_def)

lemma done_settled:
  assumes "world_inv w" and "os_get (wd_store w) name = Some op" and "op_done op"
  shows "settled w name"
  using assms by (auto simp: world_inv_def settled_def task_inv_def)

lemma settled_step:
  assumes "world_step env w w'" and "world_inv w" and "settled w name"
  shows "settled w' name
    \<and> (os_get (wd_store w') name = os_get (wd_store w) name \<or> os_get (wd_store w') name = None)"
  using assms
proof (induction rule: world_step.induct)
  case (start n w requests)
  then show ?case
    by (auto simp: settled_def start_batch_def Let_def pending_ok batch_task_def)
next
  case (task i w fresh)
  let ?t = "wd_tasks w ! i"
  obtain t' os' db' where step: "task_step env fresh ?t (wd_store w, wd_db w) = (t', os', db')"
    by (cases "task_step env fresh ?t (wd_store w, wd_db w)") auto
  have name: "tk_name t' = tk_name ?t"
    using task_step_inv [OF _ _ step] task by (auto simp: world_inv_def)
  show ?case
  proof (cases "tk_name ?t = name")
    case True
    then have "\<not> task_live ?t" using task by (auto simp: settled_def)
    from task_step_ended [OF this step, of name] task show ?thesis
      by (auto simp: settled_def step_task_def step in_set_conv_nth nth_list_update split: if_splits)
  next
    case False
    with name task step_task_inv(2) [OF task.prems(1) task.hyps, where k = name and env = env and fresh = fresh] show ?thesis
      by (auto simp: settled_def step_task_def step dest!: set_update_subset_insert [THEN subsetD])
  qed
qed (auto simp: settled_def)

lemma settled_steps:
  assumes "(world_step env)\<^sup>*\<^sup>* w w'" and "world_inv w" and "settled w name"
  shows "world_inv w' \<and> settled w' name
    \<and> (os_get (wd_store w') name = os_get (wd_store w) name \<or> os_get (wd_store w') name = None)"
  using assms
proof (induction rule: rtranclp_induct)
  case (step w1 w2)
  then have one: "world_inv w1" "settled w1 name"
    "os_get (wd_store w1) name = os_get (wd_store w) name \<or> os_get (wd_store w1) name = None" by auto
  from settled_step [OF step.hyps(2) one(1,2)] one(3) world_step_inv [OF step.hyps(2) one(1)]
  show ?case by (metis (full_types))
qed simp

text \<open>C7: Done is final. Once a client can read an operation that is done, then however the batch tasks and
  the delete and cancel handlers are interleaved from there, every later read gives the same operation
  (same result, same metadata) or none; and once there is none, there is none ever after.\<close>

theorem done_operation_is_final:
  assumes "reachable_world env w" and "os_get (wd_store w) name = Some op" and "op_done op"
    and "(world_step env)\<^sup>*\<^sup>* w w'"
  shows "os_get (wd_store w') name = Some op
    \<or> os_get (wd_store w') name = None
      \<and> (\<forall>w''. (world_step env)\<^sup>*\<^sup>* w' w'' \<longrightarrow> os_get (wd_store w'') name = None)"
proof -
  have inv: "world_inv w" using assms(1) by (rule reachable_world_inv)
  note later = settled_steps [OF assms(4) inv done_settled [OF inv assms(2,3)]]
  with assms(2) settled_steps [of env w' _ name] show ?thesis by metis
qed

subsection \<open>Every batch resolves\<close>

fun at_rank :: "task_at \<Rightarrow> nat" where
  "at_rank At_Check = 5"
| "at_rank At_Build = 4"
| "at_rank (At_Load mut) = (if terminal_mutation mut then 3 else 7)"
| "at_rank (At_Store mut op) = (if terminal_mutation mut then 2 else 6)"
| "at_rank At_Clear = 1"
| "at_rank At_End = 0"

definition task_measure :: "'q task \<Rightarrow> nat" where
  "task_measure t = 5 * length (tk_requests t) + at_rank (tk_at t)"

lemma task_step_measure:
  assumes "task_inv os t" and "tk_at t \<noteq> At_End" and "task_step env fresh t (os, db) = (t', os', db')"
  shows "task_measure t' < task_measure t"
proof (cases "tk_at t")
  case (At_Load mut)
  with assms show ?thesis
    using after_update_cases(1) [of False mut] after_update_cases(3) [of mut]
    by (auto simp: task_step_def task_measure_def split: option.splits sum.splits)
next
  case (At_Store mut op)
  with assms show ?thesis
    using after_update_cases(1) [of True mut] after_update_cases(2) [of mut]
    by (auto simp: task_step_def task_measure_def)
next
  case At_Check
  with assms show ?thesis
    by (auto simp: task_step_def task_measure_def terminal_mutation_def split: list.splits if_splits)
next
  case At_Build
  with assms show ?thesis
    by (auto simp: task_step_def task_measure_def terminal_mutation_def task_inv_def split: list.splits sum.splits)
next
  case At_Clear
  with assms show ?thesis by (auto simp: task_step_def task_measure_def)
qed (use assms in simp)

lemma step_task_nth:
  assumes "i < length (wd_tasks w)"
  shows "wd_tasks (step_task env fresh i w) ! j =
      (if j = i then fst (task_step env fresh (wd_tasks w ! i) (wd_store w, wd_db w)) else wd_tasks w ! j)"
    and "length (wd_tasks (step_task env fresh i w)) = length (wd_tasks w)"
  using assms by (auto simp: step_task_def split: prod.split)

lemma step_task_measure:
  assumes "world_inv w" and "i < length (wd_tasks w)" and "tk_at (wd_tasks w ! i) \<noteq> At_End"
  shows "task_measure (wd_tasks (step_task env fresh i w) ! i) < task_measure (wd_tasks w ! i)"
proof -
  have "task_inv (wd_store w) (wd_tasks w ! i)" using assms by (auto simp: world_inv_def)
  from task_step_measure [OF this assms(3), of env fresh "wd_db w"] show ?thesis
    using assms(2) by (cases "task_step env fresh (wd_tasks w ! i) (wd_store w, wd_db w)") (simp add: step_task_nth)
qed

lemma run_to_end:
  "world_inv w \<Longrightarrow> i < length (wd_tasks w) \<Longrightarrow> task_measure (wd_tasks w ! i) \<le> n \<Longrightarrow>
   \<exists>k \<le> n. world_inv ((step_task env fresh i ^^ k) w) \<and> i < length (wd_tasks ((step_task env fresh i ^^ k) w))
     \<and> tk_at (wd_tasks ((step_task env fresh i ^^ k) w) ! i) = At_End"
proof (induction n arbitrary: w)
  case 0
  then have "tk_at (wd_tasks w ! i) = At_End"
    by (cases "tk_at (wd_tasks w ! i)") (auto simp: task_measure_def split: if_splits)
  with 0 show ?case by (intro exI [of _ 0]) simp
next
  case (Suc n)
  show ?case
  proof (cases "tk_at (wd_tasks w ! i) = At_End")
    case True
    with Suc.prems show ?thesis by (intro exI [of _ 0]) simp
  next
    case False
    let ?w = "step_task env fresh i w"
    have "world_inv ?w" "i < length (wd_tasks ?w)" "task_measure (wd_tasks ?w ! i) \<le> n"
      using step_task_inv(1) [OF Suc.prems(1,2)] step_task_nth(2) [OF Suc.prems(2)] Suc.prems
        step_task_measure [OF Suc.prems(1,2) False, of env fresh] by auto
    from Suc.IH [OF this] obtain k where "k \<le> n" "world_inv ((step_task env fresh i ^^ k) ?w)"
      "i < length (wd_tasks ((step_task env fresh i ^^ k) ?w))"
      "tk_at (wd_tasks ((step_task env fresh i ^^ k) ?w) ! i) = At_End" by blast
    then show ?thesis by (intro exI [of _ "Suc k"]) (simp add: funpow_swap1)
  qed
qed

lemma step_other_task:
  assumes "world_step env w w'" and "world_inv w" and "i < length (wd_tasks w)"
  shows "wd_tasks w' ! i = wd_tasks w ! i \<or> task_measure (wd_tasks w' ! i) < task_measure (wd_tasks w ! i)"
  using assms
proof (induction rule: world_step.induct)
  case (task j w fresh)
  show ?case
  proof (cases "j = i \<and> tk_at (wd_tasks w ! i) \<noteq> At_End")
    case True
    with task step_task_measure [of w i env fresh] show ?thesis by simp
  next
    case False
    with task show ?thesis
      by (cases "j = i") (auto simp: step_task_nth task_step_def)
  qed
qed (simp_all add: start_batch_def Let_def nth_append)

text \<open>A run of the server in which task \<open>i\<close> takes at least \<open>n\<close> steps, between any steps of anyone.\<close>

inductive task_run :: "'q batch_env \<Rightarrow> nat \<Rightarrow> nat \<Rightarrow> 'q world \<Rightarrow> 'q world \<Rightarrow> bool" for env i where
  stop: "task_run env i 0 w w"
| own: "task_run env i n (step_task env fresh i w) w' \<Longrightarrow> task_run env i (Suc n) w w'"
| any: "world_step env w w1 \<Longrightarrow> task_run env i n w1 w' \<Longrightarrow> task_run env i n w w'"

lemma world_step_length: "world_step env w w' \<Longrightarrow> length (wd_tasks w) \<le> length (wd_tasks w')"
  by (induction rule: world_step.induct) (simp_all add: start_batch_def Let_def step_task_nth)

lemma ended_stays:
  assumes "world_step env w w'" and "i < length (wd_tasks w)" and "tk_at (wd_tasks w ! i) = At_End"
  shows "tk_at (wd_tasks w' ! i) = At_End"
  using assms
proof (induction rule: world_step.induct)
  case (task j w fresh)
  then show ?case by (cases "j = i") (simp_all add: step_task_nth task_step_def)
qed (simp_all add: start_batch_def Let_def nth_append)

lemma task_run_ends:
  "task_run env i n w w' \<Longrightarrow> world_inv w \<Longrightarrow> i < length (wd_tasks w) \<Longrightarrow>
     (tk_at (wd_tasks w ! i) = At_End \<longrightarrow> tk_at (wd_tasks w' ! i) = At_End)
     \<and> (tk_at (wd_tasks w' ! i) = At_End \<or> task_measure (wd_tasks w' ! i) + n \<le> task_measure (wd_tasks w ! i))"
proof (induction rule: task_run.induct)
  case (stop w)
  then show ?case by simp
next
  case (own n fresh w w')
  have step: "world_step env w (step_task env fresh i w)" using own.prems(2) by (rule world_step.task)
  have next_: "world_inv (step_task env fresh i w)" "i < length (wd_tasks (step_task env fresh i w))"
    using own.prems by (simp_all add: step_task_inv step_task_nth)
  show ?case
    using own.IH [OF next_] ended_stays [OF step own.prems(2)] step_task_measure [OF own.prems, of env fresh]
    by (cases "tk_at (wd_tasks w ! i) = At_End") auto
next
  case (any w w1 n w')
  have next_: "world_inv w1" "i < length (wd_tasks w1)"
    using any world_step_inv world_step_length [OF any.hyps(1)] by auto
  show ?case
    using any.IH [OF next_] ended_stays [OF any.hyps(1) any.prems(2)] step_other_task [OF any.hyps(1) any.prems]
    by auto
qed

text \<open>C6: Every batch resolves. In any reachable state, and however deletes, cancels, other batches and
  the steps of this task are interleaved from there, a batch task has ended once it has taken five of its own
  steps per request left and seven more, so nothing others do can keep it going; run alone it ends within
  that bound. A step of anyone leaves it as it is or is progress, and when it has ended its operation is
  done with a result, unless it was deleted: an ended task never leaves its operation pending.\<close>

theorem batch_operation_resolves:
  assumes "reachable_world env w" and "i < length (wd_tasks w)"
  shows "(\<forall>n w'. task_run env i n w w' \<longrightarrow> 5 * length (tk_requests (wd_tasks w ! i)) + 7 \<le> n \<longrightarrow>
            tk_at (wd_tasks w' ! i) = At_End)
    \<and> (\<exists>k \<le> 5 * length (tk_requests (wd_tasks w ! i)) + at_rank (tk_at (wd_tasks w ! i)).
            tk_at (wd_tasks ((step_task env fresh i ^^ k) w) ! i) = At_End)
    \<and> (\<forall>w'. world_step env w w' \<longrightarrow>
          wd_tasks w' ! i = wd_tasks w ! i \<or> task_measure (wd_tasks w' ! i) < task_measure (wd_tasks w ! i))
    \<and> (tk_at (wd_tasks w ! i) = At_End \<longrightarrow>
          (\<forall>op. os_get (wd_store w) (tk_name (wd_tasks w ! i)) = Some op \<longrightarrow> op_done op \<and> op_result op \<noteq> None))"
proof -
  have inv: "world_inv w" using assms(1) by (rule reachable_world_inv)
  have rank: "at_rank a \<le> 7" for a by (cases a) simp_all
  have "op_done op \<and> op_result op \<noteq> None"
    if "tk_at (wd_tasks w ! i) = At_End" "os_get (wd_store w) (tk_name (wd_tasks w ! i)) = Some op" for op
  proof -
    have "task_inv (wd_store w) (wd_tasks w ! i)" "store_inv (wd_store w)"
      using inv assms(2) by (auto simp: world_inv_def)
    with that show ?thesis by (auto simp: task_inv_def task_live_def store_inv_def lro_inv_def)
  qed
  moreover have "tk_at (wd_tasks w' ! i) = At_End"
    if "task_run env i n w w'" "5 * length (tk_requests (wd_tasks w ! i)) + 7 \<le> n" for n w'
    using task_run_ends [OF that(1) inv assms(2)] that(2) rank [of "tk_at (wd_tasks w ! i)"]
    by (cases "tk_at (wd_tasks w' ! i)") (auto simp: task_measure_def split: if_splits)
  ultimately show ?thesis
    using run_to_end [OF inv assms(2), of _ env fresh] step_other_task [OF _ inv assms(2)]
    unfolding task_measure_def by blast
qed

subsection \<open>What an undisturbed batch does\<close>

fun batch_run ::
  "'q batch_env \<Rightarrow> (nat \<Rightarrow> string \<times> timestamp) \<Rightarrow> nat \<Rightarrow> 'q task \<times> operation_store \<times> storage
     \<Rightarrow> 'q task \<times> operation_store \<times> storage" where
  "batch_run env fresh 0 x = x"
| "batch_run env fresh (Suc n) x = batch_run env fresh n (task_step env (fresh (tk_index (fst x))) (fst x) (snd x))"

text \<open>The specification: build in order up to the first refusal.\<close>

fun build_all ::
  "'q batch_env \<Rightarrow> (nat \<Rightarrow> string \<times> timestamp) \<Rightarrow> nat \<Rightarrow> 'q list \<Rightarrow> status option \<times> (shipper_name \<times> shipper) list" where
  "build_all env fresh i [] = (None, [])"
| "build_all env fresh i (q # qs) =
     (case be_build env (fresh i) q of
        Inl st \<Rightarrow> (Some st, [])
      | Inr x \<Rightarrow> (case build_all env fresh (Suc i) qs of (e, xs) \<Rightarrow> (e, x # xs)))"

definition batch_result :: "'q batch_env \<Rightarrow> shipper list \<Rightarrow> status option \<Rightarrow> op_result" where
  "batch_result env shippers e =
     (case e of
        None \<Rightarrow> ResResponse (pack (be_response env) \<lparr>br_shippers = shippers\<rparr>)
      | Some st \<Rightarrow> ResError \<lparr>rs_code = code_number (st_code st), rs_message = st_message st, rs_details = []\<rparr>)"

lemma batch_run_add: "batch_run env fresh (m + n) x = batch_run env fresh n (batch_run env fresh m x)"
  by (induction m arbitrary: x) simp_all

lemma after_update_simps [simp]:
  "after_update stored Mut_Cancel = At_Clear" "after_update stored (Mut_Fail s) = At_End"
  "after_update stored (Mut_Succeed r) = At_End" "after_update True (Mut_Metadata m) = At_Check"
  "after_update False (Mut_Metadata m) = At_End"
  by (simp_all add: after_update_def)

lemma pending_from_inner:
  "op_name op \<noteq> [] \<Longrightarrow> \<not> op_done op \<Longrightarrow> op_result op = None \<Longrightarrow> from_inner op = Inr op"
  using dyn_validate_iff [of op] by (simp add: from_inner_def lro_inv_def)

definition finished :: "'q task \<times> operation_store \<times> storage \<Rightarrow> proto_operation \<Rightarrow> storage \<Rightarrow> bool" where
  "finished x op db \<longleftrightarrow> tk_at (fst x) = At_End \<and> os_get (fst (snd x)) (op_name op) = Some op \<and> snd (snd x) = db"

lemma run_update:
  assumes "tk_at t = At_Load mut" and "os_get os (tk_name t) = Some op" and "op_name op = tk_name t" and "tk_name t \<noteq> []"
    and "\<not> op_done op" and "op_result op = None"
  shows "batch_run env fresh (Suc (Suc 0)) (t, os, db)
    = (t\<lparr>tk_at := after_update True mut\<rparr>, os_put (mutate (be_metadata env) (be_response env) mut op) os, db)"
  using assms pending_from_inner [of op] by (simp add: task_step_def)

lemma batch_run_result:
  assumes "tk_at t = At_Check" and "os_get os (tk_name t) = Some op" and "op_name op = tk_name t" and "tk_name t \<noteq> []"
    and "\<not> op_done op" and "op_result op = None" and "tk_name t \<notin> os_cancels os"
    and "build_all env fresh (tk_index t) (tk_requests t) = (e, xs)"
    and "op_metadata op = Some (pack (be_metadata env) \<lparr>bm_created = as_i32 (tk_index t), bm_total = tk_total t\<rparr>)"
  shows "\<exists>n. finished (batch_run env fresh n (t, os, db))
      (op\<lparr>op_metadata := Some (pack (be_metadata env)
             \<lparr>bm_created = as_i32 (tk_index t + length xs), bm_total = tk_total t\<rparr>),
          op_done := True, op_result := Some (batch_result env (tk_shippers t @ map snd xs) e)\<rparr>)
      (fold (\<lambda>(r, s). put_shipper r s) xs db)"
  using assms
proof (induction "tk_requests t" arbitrary: t os op db xs)
  case Nil
  let ?t = "t\<lparr>tk_at := At_Load (Mut_Succeed \<lparr>br_shippers = tk_shippers t\<rparr>)\<rparr>"
  have "batch_run env fresh (Suc 0 + Suc (Suc 0)) (t, os, db) = batch_run env fresh (Suc (Suc 0)) (?t, os, db)"
    using Nil by (simp add: batch_run_add task_step_def del: add_Suc_right)
  also have "\<dots> = (?t\<lparr>tk_at := At_End\<rparr>,
      os_put (mutate (be_metadata env) (be_response env) (Mut_Succeed \<lparr>br_shippers = tk_shippers t\<rparr>) op) os, db)"
    using Nil by (subst run_update [where mut = "Mut_Succeed \<lparr>br_shippers = tk_shippers t\<rparr>" and op = op]) simp_all
  finally show ?case
    using Nil by (intro exI [of _ "Suc 0 + Suc (Suc 0)"])
      (cases op, auto simp: finished_def operation_succeed_def dyn_defs batch_result_def)
next
  case (Cons q qs)
  have two: "batch_run env fresh 2 (t, os, db)
      = task_step env (fresh (tk_index t)) (t\<lparr>tk_at := At_Build\<rparr>) (os, db)"
    using Cons.prems Cons.hyps(2) [symmetric]
    by (simp add: numeral_2_eq_2 task_step_def os_is_cancel_requested_def)
  show ?case
  proof (cases "be_build env (fresh (tk_index t)) q")
    case (Inl st)
    let ?t = "t\<lparr>tk_at := At_Load (Mut_Fail st)\<rparr>"
    have "batch_run env fresh (2 + Suc (Suc 0)) (t, os, db) = batch_run env fresh (Suc (Suc 0)) (?t, os, db)"
      unfolding batch_run_add two using Inl Cons.hyps(2) [symmetric] by (simp add: task_step_def)
    also have "\<dots> = (?t\<lparr>tk_at := At_End\<rparr>, os_put (mutate (be_metadata env) (be_response env) (Mut_Fail st) op) os, db)"
      using Cons.prems by (subst run_update [where mut = "Mut_Fail st" and op = op]) simp_all
    finally show ?thesis
      using Inl Cons.prems Cons.hyps(2) [symmetric]
      by (intro exI [of _ "2 + Suc (Suc 0)"])
        (cases op, auto simp: finished_def operation_fail_status_def dyn_defs batch_result_def)
  next
    case (Inr x)
    obtain r s where x: "x = (r, s)" by (cases x)
    obtain xs' where later: "build_all env fresh (Suc (tk_index t)) qs = (e, xs')" "xs = x # xs'"
      using Inr Cons.prems(8) Cons.hyps(2) [symmetric] by (auto split: prod.splits)
    let ?m = "\<lparr>bm_created = as_i32 (Suc (tk_index t)), bm_total = tk_total t\<rparr>"
    let ?t = "t\<lparr>tk_requests := qs, tk_index := Suc (tk_index t), tk_shippers := tk_shippers t @ [s],
                tk_at := At_Load (Mut_Metadata ?m)\<rparr>"
    let ?db = "put_shipper r s db" and ?op = "op\<lparr>op_metadata := Some (pack (be_metadata env) ?m)\<rparr>"
    have "batch_run env fresh (2 + Suc (Suc 0)) (t, os, db) = batch_run env fresh (Suc (Suc 0)) (?t, os, ?db)"
      unfolding batch_run_add two using Inr x Cons.hyps(2) [symmetric] by (simp add: task_step_def)
    also have "\<dots> = (?t\<lparr>tk_at := At_Check\<rparr>, os_put (mutate (be_metadata env) (be_response env) (Mut_Metadata ?m) op) os, ?db)"
      using Cons.prems by (subst run_update [where mut = "Mut_Metadata ?m" and op = op]) simp_all
    also have "mutate (be_metadata env) (be_response env) (Mut_Metadata ?m) op = ?op"
      using Cons.prems by (simp add: operation_set_metadata_def dyn_defs)
    finally have four: "batch_run env fresh (2 + Suc (Suc 0)) (t, os, db) = (?t\<lparr>tk_at := At_Check\<rparr>, os_put ?op os, ?db)" .
    have "\<exists>n. finished (batch_run env fresh n (?t\<lparr>tk_at := At_Check\<rparr>, os_put ?op os, ?db))
      (?op\<lparr>op_metadata := Some (pack (be_metadata env)
             \<lparr>bm_created = as_i32 (Suc (tk_index t) + length xs'), bm_total = tk_total t\<rparr>),
          op_done := True, op_result := Some (batch_result env ((tk_shippers t @ [s]) @ map snd xs') e)\<rparr>)
      (fold (\<lambda>(r, s). put_shipper r s) xs' ?db)"
      using Cons.hyps(1) [of "?t\<lparr>tk_at := At_Check\<rparr>" "os_put ?op os" ?op xs' ?db] Cons.prems later
      by simp
    then obtain n where "finished (batch_run env fresh n (?t\<lparr>tk_at := At_Check\<rparr>, os_put ?op os, ?db))
      (?op\<lparr>op_metadata := Some (pack (be_metadata env)
             \<lparr>bm_created = as_i32 (Suc (tk_index t) + length xs'), bm_total = tk_total t\<rparr>),
          op_done := True, op_result := Some (batch_result env ((tk_shippers t @ [s]) @ map snd xs') e)\<rparr>)
      (fold (\<lambda>(r, s). put_shipper r s) xs' ?db)" ..
    then show ?thesis
      unfolding four [symmetric] batch_run_add [symmetric] later(2) x
      by (intro exI [of _ "2 + Suc (Suc 0) + n"]) simp
  qed
qed

lemma cancelled_run:
  assumes "tk_at t = At_Check" and "tk_requests t \<noteq> []" and "os_get os (tk_name t) = Some op" and "op_name op = tk_name t"
    and "tk_name t \<noteq> []" and "\<not> op_done op" and "op_result op = None" and "tk_name t \<in> os_cancels os"
  shows "batch_run env fresh 4 (t, os, db) =
    (t\<lparr>tk_at := At_End\<rparr>,
     os_clear_cancel (tk_name t) (os_put (op\<lparr>op_done := True, op_result := Some (ResError cancelled_status)\<rparr>) os), db)"
proof -
  have "batch_run env fresh (Suc 0) (t, os, db) = (t\<lparr>tk_at := At_Load Mut_Cancel\<rparr>, os, db)"
    using assms by (cases "tk_requests t") (simp_all add: task_step_def os_is_cancel_requested_def)
  moreover have "batch_run env fresh (Suc (Suc 0)) (t\<lparr>tk_at := At_Load Mut_Cancel\<rparr>, os, db)
      = (t\<lparr>tk_at := At_Clear\<rparr>, os_put (op\<lparr>op_done := True, op_result := Some (ResError cancelled_status)\<rparr>) os, db)"
    using assms by (subst run_update [where mut = Mut_Cancel and op = op]) (simp_all add: dyn_defs)
  moreover have "batch_run env fresh (Suc 0)
        (t\<lparr>tk_at := At_Clear\<rparr>, os_put (op\<lparr>op_done := True, op_result := Some (ResError cancelled_status)\<rparr>) os, db)
      = (t\<lparr>tk_at := At_End\<rparr>,
     os_clear_cancel (tk_name t) (os_put (op\<lparr>op_done := True, op_result := Some (ResError cancelled_status)\<rparr>) os), db)"
    by (simp add: task_step_def)
  ultimately have "batch_run env fresh (Suc 0 + (Suc (Suc 0) + Suc 0)) (t, os, db) =
    (t\<lparr>tk_at := At_End\<rparr>,
     os_clear_cancel (tk_name t) (os_put (op\<lparr>op_done := True, op_result := Some (ResError cancelled_status)\<rparr>) os), db)"
    by (simp only: batch_run_add)
  then show ?thesis by (simp add: eval_nat_numeral)
qed

text \<open>C8: What a batch does when nobody interferes. The task stores, in request order, every shipper up to
  the first request that is refused, and ends with the operation done: with the refusal's code and
  message as its error, or with all the shippers as its response; its metadata counts the shippers
  created. When a cancellation was requested before it began it creates none, the operation is
  CANCELLED, and the flag is consumed.\<close>

theorem batch_does_what_was_asked:
  assumes "name \<noteq> []" and "name \<notin> os_cancels os"
    and "build_all env fresh 0 requests = (e, xs)"
  shows "(\<exists>n. finished
        (batch_run env fresh n
          (batch_task name requests total_count,
           os_put (dyn_pending name (Some (pack (be_metadata env) \<lparr>bm_created = 0, bm_total = total_count\<rparr>))) os, db))
        \<lparr>op_name = name,
         op_metadata = Some (pack (be_metadata env) \<lparr>bm_created = as_i32 (length xs), bm_total = total_count\<rparr>),
         op_done = True, op_result = Some (batch_result env (map snd xs) e)\<rparr>
        (fold (\<lambda>(r, s). put_shipper r s) xs db))
    \<and> (requests \<noteq> [] \<longrightarrow>
        (case batch_run env fresh 4
          (batch_task name requests total_count,
           os_request_cancel name
             (os_put (dyn_pending name (Some (pack (be_metadata env) \<lparr>bm_created = 0, bm_total = total_count\<rparr>))) os), db)
         of (t, os', db') \<Rightarrow>
           tk_at t = At_End \<and> db' = db \<and> name \<notin> os_cancels os'
           \<and> map_option op_result (os_get os' name) = Some (Some (ResError cancelled_status))))"
proof -
  let ?op = "dyn_pending name (Some (pack (be_metadata env) \<lparr>bm_created = 0, bm_total = total_count\<rparr>))"
  have zero: "as_i32 0 = 0" by (simp add: as_i32_def)
  have "?op\<lparr>op_metadata := Some (pack (be_metadata env) \<lparr>bm_created = as_i32 (length xs), bm_total = total_count\<rparr>),
         op_done := True, op_result := Some (batch_result env (map snd xs) e)\<rparr>
      = \<lparr>op_name = name,
         op_metadata = Some (pack (be_metadata env) \<lparr>bm_created = as_i32 (length xs), bm_total = total_count\<rparr>),
         op_done = True, op_result = Some (batch_result env (map snd xs) e)\<rparr>"
    by (simp add: dyn_pending_def)
  then have "\<exists>n. finished
        (batch_run env fresh n (batch_task name requests total_count, os_put ?op os, db))
        \<lparr>op_name = name,
         op_metadata = Some (pack (be_metadata env) \<lparr>bm_created = as_i32 (length xs), bm_total = total_count\<rparr>),
         op_done = True, op_result = Some (batch_result env (map snd xs) e)\<rparr>
        (fold (\<lambda>(r, s). put_shipper r s) xs db)"
    using batch_run_result [of "batch_task name requests total_count" "os_put ?op os" ?op env fresh e xs db] assms zero
    by (simp add: batch_task_def dyn_pending_def)
  moreover have "batch_run env fresh 4 (batch_task name requests total_count, os_request_cancel name (os_put ?op os), db)
      = ((batch_task name requests total_count)\<lparr>tk_at := At_End\<rparr>,
         os_clear_cancel name (os_put (?op\<lparr>op_done := True, op_result := Some (ResError cancelled_status)\<rparr>)
           (os_request_cancel name (os_put ?op os))), db)" if "requests \<noteq> []"
    using cancelled_run [of "batch_task name requests total_count" "os_request_cancel name (os_put ?op os)" ?op env fresh db]
      that assms(1)
    by (simp add: batch_task_def dyn_pending_def os_request_cancel_def os_get_def os_put_def)
  ultimately show ?thesis
    by (simp add: os_clear_cancel_def os_get_def os_put_def dyn_pending_def)
qed

subsection \<open>Listing operations\<close>

lemma digits_value:
  "foldl (\<lambda>n c. 10 * n + (of_char c - 48)) a (show_nat n) = a * 10 ^ length (show_nat n) + n"
proof (induction n arbitrary: a rule: show_nat.induct)
  case (1 n)
  have digit: "d < 10 \<Longrightarrow> of_char (digit_char d) - 48 = d" for d :: nat by (simp add: digit_char_def)
  show ?case
  proof (cases "n < 10")
    case True
    then show ?thesis by (subst (1 2) show_nat.simps) (simp add: digit)
  next
    case False
    then have "show_nat n = show_nat (n div 10) @ [digit_char (n mod 10)]" by (subst show_nat.simps) simp
    moreover have "n = 10 * (n div 10) + n mod 10" by simp
    ultimately show ?thesis using 1 [OF False, of a] digit [of "n mod 10"] by simp
  qed
qed

lemma show_nat_digits: "list_all (\<lambda>c. CHR ''0'' \<le> c \<and> c \<le> CHR ''9'') (show_nat n)"
proof (induction n rule: show_nat.induct)
  case (1 n)
  have digit: "d < 10 \<Longrightarrow> CHR ''0'' \<le> digit_char d \<and> digit_char d \<le> CHR ''9''" for d :: nat
    by (simp add: digit_char_def less_eq_char_def)
  with 1 show ?case by (subst show_nat.simps) simp
qed

lemma parse_usize_show: "n < 2 ^ 64 \<Longrightarrow> parse_usize (show_nat n) = Some n"
proof -
  assume "n < 2 ^ 64"
  moreover have "(case show_nat n of c # t \<Rightarrow> if c = CHR ''+'' then t else show_nat n | [] \<Rightarrow> show_nat n) = show_nat n"
    using show_nat_digits [of n] by (cases "show_nat n") (auto simp: less_eq_char_def)
  moreover have "show_nat n \<noteq> []" by simp
  ultimately show ?thesis
    using digits_value [of 0 n] show_nat_digits [of n] unfolding parse_usize_def by simp
qed

fun list_all_operations ::
  "operation_store \<Rightarrow> list_operations_request \<Rightarrow> nat \<Rightarrow> status + proto_operation list" where
  "list_all_operations os req 0 = Inr []"
| "list_all_operations os req (Suc n) =
     res_bind (list_operations os req) (\<lambda>(ops, tok).
       if tok = [] then Inr ops
       else res_bind (list_all_operations os (req\<lparr>lo_page_token := tok\<rparr>) n) (\<lambda>later. Inr (ops @ later)))"

lemma listed_sorted:
  assumes "store_inv os"
  shows "sorted_wrt (<) (map op_name (os_list os name))"
proof -
  have "op_name op = k" if "(k, op) \<in> set (os_operations os)" for k op
    using assms map_of_is_SomeI [OF bt_wf_distinct that] by (auto simp: store_inv_def os_get_def)
  then have "map op_name (map snd (os_operations os)) = map fst (os_operations os)" by auto
  then have "sorted_wrt (<) (map op_name (map snd (os_operations os)))"
    using assms unfolding store_inv_def bt_wf_def by (simp only:)
  then show ?thesis
    unfolding os_list_def Let_def filter_map sorted_wrt_map by (rule sorted_wrt_filter)
qed

lemma list_all_from:
  assumes small: "length (os_list os name) < 2 ^ 64 - 1" and limit: "operations_limit page_len = Inr k" and k: "k > 0"
  shows "offset \<le> length (os_list os name) \<Longrightarrow> tok = [] \<and> offset = 0 \<or> tok = show_nat offset
    \<Longrightarrow> length (os_list os name) - offset < n
    \<Longrightarrow> list_all_operations os \<lparr>lo_name = name, lo_page_size = page_len, lo_page_token = tok\<rparr> n
        = Inr (drop offset (os_list os name))"
proof (induction n arbitrary: tok offset)
  case (Suc n)
  let ?all = "os_list os name" and ?req = "\<lparr>lo_name = name, lo_page_size = page_len, lo_page_token = tok\<rparr>"
  have start: "(if tok = [] then Inr 0
        else ok_or (plain_status Code_InvalidArgument ''page_token is not a valid offset'') (parse_usize tok)) = Inr offset"
    using Suc.prems(1,2) small parse_usize_show [of offset] by auto
  have page: "list_operations os ?req
      = Inr (take k (drop offset ?all), if offset + k < length ?all then show_nat (offset + k) else [])"
    using start limit Suc.prems(1) small by (auto simp: list_operations_def Let_def min_def)
  show ?case
  proof (cases "offset + k < length ?all")
    case True
    have "list_all_operations os \<lparr>lo_name = name, lo_page_size = page_len, lo_page_token = show_nat (offset + k)\<rparr> n
        = Inr (drop (offset + k) ?all)"
      using True k Suc.prems(3) by (intro Suc.IH) auto
    then show ?thesis using True page by (simp add: drop_drop [symmetric] add.commute del: drop_drop)
  next
    case False
    with page show ?thesis by simp
  qed
qed simp

text \<open>C21: Listing operations is complete and its inputs are checked. Following the page tokens from the
  first page lists every operation of the collection once, in name order, in at most one request more
  than there are operations; a negative page size and a token that is no number are refused as
  INVALID_ARGUMENT, and an offset past the end gives an empty last page.\<close>

theorem list_operations_complete:
  assumes "length (os_list os name) < 2 ^ 64 - 1" and "0 \<le> page_len"
  shows "list_all_operations os \<lparr>lo_name = name, lo_page_size = page_len, lo_page_token = []\<rparr>
           (Suc (length (os_list os name))) = Inr (os_list os name)
    \<and> (store_inv os \<longrightarrow> sorted_wrt (<) (map op_name (os_list os name)))
    \<and> (negative < 0 \<longrightarrow> list_operations os \<lparr>lo_name = name, lo_page_size = negative, lo_page_token = tok\<rparr>
         = Inl (plain_status Code_InvalidArgument ''page_size must not be negative''))
    \<and> (tok \<noteq> [] \<and> parse_usize tok = None \<longrightarrow>
         list_operations os \<lparr>lo_name = name, lo_page_size = page_len, lo_page_token = tok\<rparr>
         = Inl (plain_status Code_InvalidArgument ''page_token is not a valid offset''))
    \<and> (\<forall>offset. tok \<noteq> [] \<and> parse_usize tok = Some offset \<and> length (os_list os name) \<le> offset \<longrightarrow>
         list_operations os \<lparr>lo_name = name, lo_page_size = page_len, lo_page_token = tok\<rparr> = Inr ([], []))"
proof -
  obtain k where k: "operations_limit page_len = Inr k" "k > 0"
    using assms(2) by (cases "page_len = 0") (auto simp: operations_limit_def)
  have "store_inv os \<longrightarrow> sorted_wrt (<) (map op_name (os_list os name))"
    using listed_sorted by blast
  moreover have "list_all_operations os \<lparr>lo_name = name, lo_page_size = page_len, lo_page_token = []\<rparr>
           (Suc (length (os_list os name))) = Inr (os_list os name)"
    using list_all_from [OF assms(1) k, of 0 "[]" "Suc (length (os_list os name))"] by simp
  moreover have "list_operations os \<lparr>lo_name = name, lo_page_size = negative, lo_page_token = tok\<rparr>
         = Inl (plain_status Code_InvalidArgument ''page_size must not be negative'')" if "negative < 0"
    using that by (simp add: list_operations_def operations_limit_def Let_def)
  moreover have "list_operations os \<lparr>lo_name = name, lo_page_size = page_len, lo_page_token = tok\<rparr>
         = Inl (plain_status Code_InvalidArgument ''page_token is not a valid offset'')"
    if "tok \<noteq> []" "parse_usize tok = None"
    using that k by (simp add: list_operations_def Let_def)
  moreover have "list_operations os \<lparr>lo_name = name, lo_page_size = page_len, lo_page_token = tok\<rparr> = Inr ([], [])"
    if "tok \<noteq> []" "parse_usize tok = Some offset" "length (os_list os name) \<le> offset" for offset
    using that k assms(1) by (simp add: list_operations_def Let_def min_absorb2)
  ultimately show ?thesis by blast
qed

subsection \<open>An example server\<close>

definition demo_env :: "unit batch_env" where
  "demo_env =
     \<lparr>be_metadata = \<lparr>mt_full_name = ''M'', mt_encode = (\<lambda>_. []), mt_decode = (\<lambda>_. Inl [])\<rparr>,
      be_response = \<lparr>mt_full_name = ''R'', mt_encode = (\<lambda>_. []), mt_decode = (\<lambda>_. Inl [])\<rparr>,
      be_build = (\<lambda>_ _. Inl (plain_status Code_InvalidArgument ''display_name is required''))\<rparr>"

definition demo_fresh :: "string \<times> timestamp" where
  "demo_fresh = (''id'', \<lparr>ts_seconds = 0, ts_nanos = 0\<rparr>)"

definition demo_world :: "nat \<Rightarrow> unit world" where
  "demo_world n = (step_task demo_env demo_fresh 0 ^^ n) (start_batch demo_env ''operations/a'' [()] (world_new storage_new))"

lemma demo_tasks: "length (wd_tasks (demo_world n)) = 1"
proof (induction n)
  case 0
  show ?case by (simp add: demo_world_def start_batch_def world_new_def Let_def)
next
  case (Suc n)
  then show ?case using step_task_nth(2) [of 0 "demo_world n"] by (simp add: demo_world_def)
qed

lemma demo_reachable: "reachable_world demo_env (demo_world n)"
proof -
  have "(world_step demo_env)\<^sup>*\<^sup>* (world_new storage_new) (demo_world n)"
  proof (induction n)
    case 0
    have "world_step demo_env (world_new storage_new) (demo_world 0)"
      unfolding demo_world_def funpow_0 by (rule world_step.start) (simp_all add: world_new_def)
    then show ?case ..
  next
    case (Suc n)
    have "world_step demo_env (demo_world n) (step_task demo_env demo_fresh 0 (demo_world n))"
      by (rule world_step.task) (simp add: demo_tasks)
    moreover have "demo_world (Suc n) = step_task demo_env demo_fresh 0 (demo_world n)"
      by (simp add: demo_world_def)
    ultimately show ?case using Suc by (simp add: rtranclp.rtrancl_into_rtrancl)
  qed
  then show ?thesis unfolding reachable_world_def by blast
qed

definition demo_failed :: proto_operation where
  "demo_failed =
     \<lparr>op_name = ''operations/a'', op_metadata = Some \<lparr>any_type_url = ''type.googleapis.com/M'', any_value = []\<rparr>,
      op_done = True,
      op_result = Some (ResError \<lparr>rs_code = 3, rs_message = ''display_name is required'', rs_details = []\<rparr>)\<rparr>"

definition demo_pending :: proto_operation where
  "demo_pending =
     \<lparr>op_name = ''operations/a'', op_metadata = Some \<lparr>any_type_url = ''type.googleapis.com/M'', any_value = []\<rparr>,
      op_done = False, op_result = None\<rparr>"

definition demo_refusal :: mutation where
  "demo_refusal = Mut_Fail (plain_status Code_InvalidArgument ''display_name is required'')"

definition demo_state :: "task_at \<Rightarrow> proto_operation \<Rightarrow> unit world" where
  "demo_state pc op =
     \<lparr>wd_store = \<lparr>os_operations = [(''operations/a'', op)], os_cancels = {}\<rparr>, wd_db = storage_new,
      wd_tasks = [\<lparr>tk_name = ''operations/a'', tk_requests = [()], tk_index = 0, tk_total = 1, tk_shippers = [],
                   tk_at = pc\<rparr>],
      wd_names = [''operations/a''], wd_cancelling = [], wd_deleting = []\<rparr>"

lemma demo_valid: "from_inner demo_pending = Inr demo_pending"
  by (simp add: from_inner_def dyn_validate_def demo_pending_def)

lemma demo_mutated: "mutate (be_metadata demo_env) (be_response demo_env) demo_refusal demo_pending = demo_failed"
  by (simp add: demo_refusal_def demo_pending_def demo_failed_def operation_fail_status_def dyn_defs)

lemma demo_step:
  "step_task demo_env demo_fresh 0 (demo_state At_Check op) = demo_state At_Build op"
  "step_task demo_env demo_fresh 0 (demo_state At_Build op) = demo_state (At_Load demo_refusal) op"
  "step_task demo_env demo_fresh 0 (demo_state (At_Load demo_refusal) demo_pending)
     = demo_state (At_Store demo_refusal demo_failed) demo_pending"
  "step_task demo_env demo_fresh 0 (demo_state (At_Store demo_refusal demo_failed) op) = demo_state At_End demo_failed"
proof -
  have refusal: "be_build demo_env demo_fresh () = Inl (plain_status Code_InvalidArgument ''display_name is required'')"
    by (simp add: demo_env_def)
  show "step_task demo_env demo_fresh 0 (demo_state At_Check op) = demo_state At_Build op"
    by (simp add: step_task_def demo_state_def task_step_def os_is_cancel_requested_def)
  show "step_task demo_env demo_fresh 0 (demo_state At_Build op) = demo_state (At_Load demo_refusal) op"
    by (simp add: step_task_def demo_state_def task_step_def refusal demo_refusal_def)
  show "step_task demo_env demo_fresh 0 (demo_state (At_Load demo_refusal) demo_pending)
     = demo_state (At_Store demo_refusal demo_failed) demo_pending"
    by (simp add: step_task_def demo_state_def task_step_def os_get_def demo_valid demo_mutated)
  have "op_name demo_failed = ''operations/a''" by (simp add: demo_failed_def)
  then show "step_task demo_env demo_fresh 0 (demo_state (At_Store demo_refusal demo_failed) op) = demo_state At_End demo_failed"
    by (simp add: step_task_def demo_state_def task_step_def os_put_def demo_refusal_def)
qed

lemma demo_start: "demo_world 0 = demo_state At_Check demo_pending"
  by (simp add: demo_world_def start_batch_def demo_state_def world_new_def operation_store_new_def os_put_def
      dyn_pending_def demo_pending_def batch_task_def as_i32_def pack_def demo_env_def Let_def)

lemma demo_next: "demo_world (Suc n) = step_task demo_env demo_fresh 0 (demo_world n)"
  by (simp add: demo_world_def)

lemma demo_worlds:
  "demo_world (Suc (Suc (Suc 0))) = demo_state (At_Store demo_refusal demo_failed) demo_pending"
  "demo_world (Suc (Suc (Suc (Suc 0)))) = demo_state At_End demo_failed"
  by (simp_all add: demo_next demo_start demo_step)

lemma demo_stored: "os_get (wd_store (demo_world (Suc (Suc (Suc (Suc 0)))))) ''operations/a'' = Some demo_failed"
  unfolding demo_worlds by (simp add: demo_state_def os_get_def)

theorem done_operation_is_final_witness:
  "op_done demo_failed
   \<and> (let w = demo_state At_End demo_failed; os = snd (os_remove_operation ''operations/a'' (wd_store w)) in
      os_get os ''operations/a'' = Some demo_failed \<or> os_get os ''operations/a'' = None)"
proof -
  let ?w = "demo_state At_End demo_failed"
  let ?w' = "?w\<lparr>wd_store := snd (os_remove_operation ''operations/a'' (wd_store ?w)),
                wd_deleting := ''operations/a'' # wd_deleting ?w\<rparr>"
  have done_: "op_done demo_failed" by (simp add: demo_failed_def)
  have run: "(world_step demo_env)\<^sup>*\<^sup>* ?w ?w'"
    using world_step.delete by (rule r_into_rtranclp)
  have "reachable_world demo_env ?w" using demo_reachable [of "Suc (Suc (Suc (Suc 0)))"] unfolding demo_worlds .
  from done_operation_is_final [OF this demo_stored [unfolded demo_worlds] done_ run] done_ show ?thesis
    unfolding Let_def by simp
qed

theorem batch_operation_resolves_witness:
  "\<exists>k \<le> 10. tk_at (wd_tasks ((step_task demo_env demo_fresh 0 ^^ k) (demo_state At_Check demo_pending)) ! 0) = At_End"
proof -
  have "reachable_world demo_env (demo_state At_Check demo_pending)"
    using demo_reachable [of 0] unfolding demo_start .
  from batch_operation_resolves [OF this, of 0 demo_fresh] show ?thesis
    by (simp add: demo_state_def)
qed

theorem batch_does_what_was_asked_witness:
  "map_option op_result (os_get (fst (snd (batch_run demo_env (\<lambda>_. demo_fresh) 4
      (batch_task ''operations/a'' [()] 1,
       os_request_cancel ''operations/a'' (os_put (dyn_pending ''operations/a''
         (Some (pack (be_metadata demo_env) \<lparr>bm_created = 0, bm_total = 1\<rparr>))) operation_store_new), storage_new)))) ''operations/a'')
   = Some (Some (ResError cancelled_status))"
proof -
  have "build_all demo_env (\<lambda>_. demo_fresh) 0 [()] = (Some (plain_status Code_InvalidArgument ''display_name is required''), [])"
    by (simp add: demo_env_def)
  from batch_does_what_was_asked [OF _ _ this, of "''operations/a''" operation_store_new 1 storage_new]
  show ?thesis by (simp add: operation_store_new_def split: prod.splits del: batch_run.simps)
qed

theorem list_operations_complete_witness:
  "list_all_operations \<lparr>os_operations = [(''operations/a'', demo_failed)], os_cancels = {}\<rparr>
     \<lparr>lo_name = ''operations'', lo_page_size = 1, lo_page_token = []\<rparr> (Suc (Suc 0)) = Inr [demo_failed]"
proof -
  have "os_list \<lparr>os_operations = [(''operations/a'', demo_failed)], os_cancels = {}\<rparr> ''operations'' = [demo_failed]"
    by (simp add: os_list_def demo_failed_def)
  then show ?thesis
    using list_operations_complete [of "\<lparr>os_operations = [(''operations/a'', demo_failed)], os_cancels = {}\<rparr>" "''operations''" 1]
    by (simp del: list_all_operations.simps)
qed

text \<open>
  The load and the store of \<open>update_operation\<close> are two lock acquisitions. A delete between them is
  acknowledged, and the store then puts the operation back: a client that was told the operation is gone
  reads it again.
\<close>

theorem deleted_operation_returns:
  "\<exists>w. reachable_world demo_env w
     \<and> (let w' = w\<lparr>wd_store := snd (os_remove_operation ''operations/a'' (wd_store w)),
                      wd_deleting := ''operations/a'' # wd_deleting w\<rparr> in
          world_step demo_env w w'
          \<and> fst (delete_operation ascii_tables (\<lambda>_. False) (wd_store w) ''operations/a'') = Inr ()
          \<and> os_get (wd_store w') ''operations/a'' = None
          \<and> os_get (wd_store (step_task demo_env demo_fresh 0 w')) ''operations/a'' = Some demo_failed)"
proof -
  let ?w = "demo_state (At_Store demo_refusal demo_failed) demo_pending"
  let ?w' = "?w\<lparr>wd_store := snd (os_remove_operation ''operations/a'' (wd_store ?w)),
                wd_deleting := ''operations/a'' # wd_deleting ?w\<rparr>"
  have "is_ok (operation_name_parse ascii_tables (\<lambda>_. False) ''operations/a'')" by code_simp
  then have parse: "\<exists>n. operation_name_parse ascii_tables (\<lambda>_. False) ''operations/a'' = Inr n"
    by (simp add: is_ok_def split: sum.splits)
  have "reachable_world demo_env ?w" using demo_reachable [of "Suc (Suc (Suc 0))"] unfolding demo_worlds .
  moreover have "fst (delete_operation ascii_tables (\<lambda>_. False) (wd_store ?w) ''operations/a'') = Inr ()"
    using parse by (auto simp: delete_operation_def os_remove_def os_remove_operation_def os_get_def
        demo_state_def)
  moreover have "os_get (wd_store (step_task demo_env demo_fresh 0 ?w')) ''operations/a'' = Some demo_failed"
    by (simp add: step_task_def task_step_def demo_state_def demo_failed_def)
  moreover have "os_get (wd_store ?w') ''operations/a'' = None" by simp
  ultimately show ?thesis
    using world_step.delete [of demo_env ?w "''operations/a''"] unfolding Let_def by blast
qed

end
