(* ===== verification/Freight_Policy.thy ===== *)
theory Freight_Policy
  imports Iam_Eval
begin

text \<open>
  The IAM half of the example server: \<open>PolicyStore\<close> of \<open>storage.rs\<close>, which keeps a policy as one row per
  binding and member, the \<open>IAMPolicy\<close> service of \<open>iam.rs\<close>, and the gate \<open>authorized\<close> of \<open>service.rs\<close>.
  A table is the list of its rows in insertion order.
\<close>

subsection \<open>The store\<close>

record policy_row =
  pw_resource :: string
  pw_binding_index :: nat
  pw_role :: string
  pw_member_index :: nat
  pw_member :: string
  pw_condition :: "string option"

type_synonym policy_store = "policy_row list"

definition binding_rows :: "string \<Rightarrow> nat \<Rightarrow> binding \<Rightarrow> policy_row list" where
  "binding_rows resource i b =
     map (\<lambda>(j, m). \<lparr>pw_resource = resource, pw_binding_index = i, pw_role = b_role b, pw_member_index = j,
                    pw_member = m, pw_condition = map_option ex_expression (b_condition b)\<rparr>)
       (List.enumerate 0 (b_members b))"

definition policy_rows :: "string \<Rightarrow> policy \<Rightarrow> policy_row list" where
  "policy_rows resource policy =
     concat (map (\<lambda>(i, b). binding_rows resource i b) (List.enumerate 0 (p_bindings policy)))"

definition expression_only :: "string \<Rightarrow> expr" where
  "expression_only e = \<lparr>ex_expression = e, ex_title = [], ex_description = [], ex_location = []\<rparr>"

text \<open>One row of the loop; the state is the bindings so far and the index of the last one.\<close>

definition read_row :: "policy_row \<Rightarrow> binding list \<times> nat option \<Rightarrow> binding list \<times> nat option" where
  "read_row row st =
     (case st of (bindings, current) \<Rightarrow>
        (let bindings =
               (if current \<noteq> Some (pw_binding_index row)
                then bindings @ [\<lparr>b_role = pw_role row, b_members = [],
                                  b_condition = map_option expression_only (pw_condition row)\<rparr>]
                else bindings);
             final = last bindings
         in (butlast bindings @ [final\<lparr>b_members := b_members final @ [pw_member row]\<rparr>],
             Some (pw_binding_index row))))"

definition read_bindings :: "policy_store \<Rightarrow> string \<Rightarrow> binding list" where
  "read_bindings st resource =
     fst (fold read_row
           (sort_key (\<lambda>row. (pw_binding_index row, pw_member_index row))
             (filter (\<lambda>row. pw_resource row = resource) st)) ([], None))"

definition reconstruct :: "digest_ops \<Rightarrow> policy_store \<Rightarrow> string \<Rightarrow> policy" where
  "reconstruct ops st resource =
     (let bindings = read_bindings st resource in
      if bindings = [] then policy_default
      else
        (let policy = policy_default\<lparr>p_version := canonical_version bindings, p_bindings := bindings\<rparr>
         in policy\<lparr>p_etag := policy_etag ops policy\<rparr>))"

definition policies_get :: "digest_ops \<Rightarrow> policy_store \<Rightarrow> string \<Rightarrow> policy option" where
  "policies_get ops st resource =
     (let policy = reconstruct ops st resource in if p_bindings policy = [] then None else Some policy)"

definition set_checked ::
  "digest_ops \<Rightarrow> string \<Rightarrow> policy \<Rightarrow> policy_store \<Rightarrow> (iam_error + policy) \<times> policy_store" where
  "set_checked ops resource policy st =
     (let supplied = p_etag policy;
          policy = policy\<lparr>p_etag := []\<rparr>;
          current = reconstruct ops st resource;
          current = (if p_bindings current = [] then None else Some current)
      in case policy_check ops supplied current of
           Inl e \<Rightarrow> (Inl e, st)
         | Inr _ \<Rightarrow>
             (let policy = normalize policy;
                  st' = filter (\<lambda>row. pw_resource row \<noteq> resource) st @ policy_rows resource policy
              in (Inr (reconstruct ops st' resource), st')))"

subsection \<open>The service\<close>

record set_iam_policy_request =
  si_resource :: string
  si_policy :: "policy option"

definition set_iam_policy ::
  "unicode_tables \<Rightarrow> digest_ops \<Rightarrow> set_iam_policy_request \<Rightarrow> policy_store \<Rightarrow> (status + policy) \<times> policy_store" where
  "set_iam_policy u ops req st =
     (if si_resource req = [] then (Inl (plain_status Code_InvalidArgument ''resource is required''), st)
      else
        (case si_policy req of
           None \<Rightarrow> (Inl (plain_status Code_InvalidArgument ''policy is required''), st)
         | Some policy \<Rightarrow>
             (case try_map member_parse (concat (map b_members (p_bindings policy))) of
                Inl e \<Rightarrow> (Inl (iam_status u e), st)
              | Inr _ \<Rightarrow>
                  (case policy_validate policy of
                     Inl e \<Rightarrow> (Inl (iam_status u e), st)
                   | Inr _ \<Rightarrow>
                       (case set_checked ops (si_resource req) policy st of
                          (r, st') \<Rightarrow> (map_err (iam_status u) r, st'))))))"

definition get_iam_policy :: "digest_ops \<Rightarrow> policy_store \<Rightarrow> string \<Rightarrow> status + policy" where
  "get_iam_policy ops st resource =
     (if resource = [] then Inl (plain_status Code_InvalidArgument ''resource is required'')
      else Inr (case policies_get ops st resource of Some p \<Rightarrow> p | None \<Rightarrow> policy_default))"

definition VIEWER :: "permission list" where
  "VIEWER = map Permission
     [''freight.shippers.get'', ''freight.shippers.list'', ''freight.sites.get'', ''freight.sites.list'',
      ''freight.shipments.get'', ''freight.shipments.list'']"

definition EDITOR_EXTRA :: "permission list" where
  "EDITOR_EXTRA = map Permission
     [''freight.shippers.create'', ''freight.shippers.update'', ''freight.shippers.delete'',
      ''freight.sites.create'', ''freight.sites.update'', ''freight.sites.delete'',
      ''freight.shipments.create'', ''freight.shipments.update'', ''freight.shipments.delete'']"

definition ADMIN_EXTRA :: "permission list" where
  "ADMIN_EXTRA = map Permission [''freight.shippers.getIamPolicy'', ''freight.shippers.setIamPolicy'']"

definition CATALOGUE :: role_set where
  "CATALOGUE = role_set_new
     [(''roles/freight.viewer'', [VIEWER]), (''roles/freight.editor'', [VIEWER, EDITOR_EXTRA]),
      (''roles/freight.admin'', [VIEWER, EDITOR_EXTRA, ADMIN_EXTRA])]"

text \<open>The loop over the bindings; the hash set is the list of what was added.\<close>

fun grant_loop ::
  "('p, 'v, 't) cel_ops \<Rightarrow> 't request_context \<Rightarrow> member option \<Rightarrow> binding list \<Rightarrow> permission list
     \<Rightarrow> iam_error + permission list" where
  "grant_loop cel ctx caller [] held = Inr held"
| "grant_loop cel ctx caller (b # bs) held =
     (if \<not> list_ex (\<lambda>m. grant_admits m caller) (b_members b) then grant_loop cel ctx caller bs held
      else
        (case b_condition b of
           None \<Rightarrow> grant_loop cel ctx caller bs (held @ role_permissions CATALOGUE (b_role b))
         | Some e \<Rightarrow>
             res_bind (condition_compile cel (ex_expression e)) (\<lambda>c.
             res_bind (condition_evaluate cel c ctx) (\<lambda>holds.
               grant_loop cel ctx caller bs
                 (if holds then held @ role_permissions CATALOGUE (b_role b) else held)))))"

definition granted_permissions ::
  "unicode_tables \<Rightarrow> ('p, 'v, 't) cel_ops \<Rightarrow> 't \<Rightarrow> digest_ops \<Rightarrow> policy_store \<Rightarrow> string \<Rightarrow> member option
     \<Rightarrow> status + permission list" where
  "granted_permissions u cel now ops st resource caller =
     (case policies_get ops st resource of
        None \<Rightarrow> Inr []
      | Some policy \<Rightarrow>
          map_err (iam_status u)
            (grant_loop cel (request_resource ''name'' resource (request_new now)) caller (p_bindings policy) []))"

definition test_iam_permissions ::
  "unicode_tables \<Rightarrow> ('p, 'v, 't) cel_ops \<Rightarrow> 't \<Rightarrow> digest_ops \<Rightarrow> policy_store \<Rightarrow> member option \<Rightarrow> string
     \<Rightarrow> string list \<Rightarrow> status + string list" where
  "test_iam_permissions u cel now ops st caller resource permissions =
     (if resource = [] then Inl (plain_status Code_InvalidArgument ''resource is required'')
      else
        res_bind (map_err (iam_status u) (try_map permission_parse permissions)) (\<lambda>requested.
        res_bind (granted_permissions u cel now ops st resource caller) (\<lambda>held.
          Inr (map permission_str (filter (\<lambda>p. p \<in> set held) requested)))))"

text \<open>\<open>FreightServer::authorized\<close>, and the caller read from the request metadata.\<close>

definition authorized :: "digest_ops \<Rightarrow> policy_store \<Rightarrow> member option \<Rightarrow> string \<Rightarrow> bool" where
  "authorized ops st caller resource =
     (case policies_get ops st resource of None \<Rightarrow> True | Some policy \<Rightarrow> policy_grants policy caller)"

definition caller_member :: "string option \<Rightarrow> member option" where
  "caller_member header =
     Option.bind header (\<lambda>s. case member_parse s of Inl _ \<Rightarrow> None | Inr m \<Rightarrow> Some m)"

subsection \<open>Reading back what was written\<close>

text \<open>What the table keeps of a binding: of the condition, the expression only.\<close>

definition stored_binding :: "binding \<Rightarrow> binding" where
  "stored_binding b =
     b\<lparr>b_condition := map_option (\<lambda>e. expression_only (ex_expression e)) (b_condition b)\<rparr>"

lemma stored_binding_sel [simp]:
  "b_role (stored_binding b) = b_role b"
  "b_members (stored_binding b) = b_members b"
  "b_condition (stored_binding b) = map_option (\<lambda>e. expression_only (ex_expression e)) (b_condition b)"
  by (simp_all add: stored_binding_def)

lemma read_row_same:
  "pw_binding_index row = i \<Longrightarrow> read_row row (bs @ [x], Some i) =
     (bs @ [x\<lparr>b_members := b_members x @ [pw_member row]\<rparr>], Some i)"
  by (simp add: read_row_def)

lemma read_row_new:
  "current \<noteq> Some (pw_binding_index row) \<Longrightarrow> read_row row (bs, current) =
     (bs @ [\<lparr>b_role = pw_role row, b_members = [pw_member row],
             b_condition = map_option expression_only (pw_condition row)\<rparr>], Some (pw_binding_index row))"
  by (simp add: read_row_def)

lemma read_members:
  "fold read_row
     (map (\<lambda>(j, m). \<lparr>pw_resource = resource, pw_binding_index = i, pw_role = role, pw_member_index = j,
                    pw_member = m, pw_condition = c\<rparr>) (List.enumerate j ms)) (bs @ [x], Some i) =
     (bs @ [x\<lparr>b_members := b_members x @ ms\<rparr>], Some i)"
  by (induction ms arbitrary: x j) (simp_all add: read_row_same)

lemma read_binding_rows:
  assumes "b_members b \<noteq> []" and "current \<noteq> Some i"
  shows "fold read_row (binding_rows resource i b) (bs, current) = (bs @ [stored_binding b], Some i)"
  using assms
  by (cases "b_members b")
     (simp_all add: binding_rows_def read_row_new read_members stored_binding_def option.map_comp comp_def)

lemma read_policy_rows:
  assumes "\<forall>b \<in> set bs. b_members b \<noteq> []" and "\<forall>i. current = Some i \<longrightarrow> i < n"
  shows "fst (fold read_row (concat (map (\<lambda>(i, b). binding_rows resource i b) (List.enumerate n bs)))
               (acc, current)) = acc @ map stored_binding bs"
  using assms
proof (induction bs arbitrary: acc current n)
  case Nil
  then show ?case by simp
next
  case (Cons b bs)
  then have "current \<noteq> Some n" by blast
  with Cons show ?case by (simp add: read_binding_rows)
qed

lemma binding_rows_keys:
  "row \<in> set (binding_rows resource i b) \<Longrightarrow> pw_resource row = resource \<and> pw_binding_index row = i"
  by (auto simp: binding_rows_def)

lemma policy_rows_keys:
  "row \<in> set (concat (map (\<lambda>(i, b). binding_rows resource i b) (List.enumerate n bs))) \<Longrightarrow>
     pw_resource row = resource \<and> n \<le> pw_binding_index row"
  by (auto simp: in_set_enumerate_eq dest!: binding_rows_keys)

lemma binding_rows_sorted:
  "sorted (map (\<lambda>row. (pw_binding_index row, pw_member_index row)) (binding_rows resource i b))"
proof -
  have "sorted (map (\<lambda>(j, m). (i, j)) (List.enumerate n ms))" for n and ms :: "string list"
    by (induction ms arbitrary: n) (auto simp: in_set_enumerate_eq)
  then show ?thesis by (simp add: binding_rows_def case_prod_unfold comp_def)
qed

lemma policy_rows_sorted:
  "sorted (map (\<lambda>row. (pw_binding_index row, pw_member_index row))
     (concat (map (\<lambda>(i, b). binding_rows resource i b) (List.enumerate n bs))))"
proof (induction bs arbitrary: n)
  case Nil
  then show ?case by simp
next
  case (Cons b bs)
  have "(pw_binding_index r, pw_member_index r) \<le> (pw_binding_index r', pw_member_index r')"
    if "r \<in> set (binding_rows resource n b)"
      "r' \<in> set (concat (map (\<lambda>(i, b). binding_rows resource i b) (List.enumerate (Suc n) bs)))" for r r'
    using binding_rows_keys [OF that(1)] policy_rows_keys [OF that(2)] by simp
  with Cons binding_rows_sorted show ?case by (simp add: sorted_append) blast
qed

lemma read_written:
  assumes "\<forall>b \<in> set (p_bindings policy). b_members b \<noteq> []"
  shows "read_bindings (filter (\<lambda>row. pw_resource row \<noteq> resource) st @ policy_rows resource policy) resource
           = map stored_binding (p_bindings policy)"
proof -
  have "filter (\<lambda>row. pw_resource row = resource) (policy_rows resource policy) = policy_rows resource policy"
    by (auto simp: policy_rows_def filter_id_conv simp del: set_concat dest!: policy_rows_keys)
  then have "filter (\<lambda>row. pw_resource row = resource)
      (filter (\<lambda>row. pw_resource row \<noteq> resource) st @ policy_rows resource policy) = policy_rows resource policy"
    by simp
  moreover have "sort_key (\<lambda>row. (pw_binding_index row, pw_member_index row)) (policy_rows resource policy)
      = policy_rows resource policy"
    unfolding policy_rows_def by (rule sort_key_id_if_sorted) (rule policy_rows_sorted)
  ultimately show ?thesis
    using read_policy_rows [OF assms, of None 0 resource "[]"]
    by (simp add: read_bindings_def policy_rows_def)
qed

lemma read_others:
  assumes "r \<noteq> resource"
  shows "read_bindings (filter (\<lambda>row. pw_resource row \<noteq> resource) st @ policy_rows resource policy) r
           = read_bindings st r"
proof -
  have "filter (\<lambda>row. pw_resource row = r) (policy_rows resource policy) = []"
    using assms by (auto simp: policy_rows_def filter_empty_conv simp del: set_concat dest!: policy_rows_keys)
  moreover have "filter (\<lambda>row. pw_resource row = r) (filter (\<lambda>row. pw_resource row \<noteq> resource) st)
      = filter (\<lambda>row. pw_resource row = r) st"
    using assms by (auto intro: filter_cong)
  ultimately show ?thesis by (simp add: read_bindings_def)
qed

lemma reconstruct_eq:
  "reconstruct ops st resource =
     (let bs = read_bindings st resource in
      if bs = [] then policy_default
      else policy_default\<lparr>p_version := canonical_version bs, p_bindings := bs,
             p_etag := policy_etag ops (policy_default\<lparr>p_version := canonical_version bs, p_bindings := bs\<rparr>)\<rparr>)"
  by (simp add: reconstruct_def Let_def policy_default_def)

lemma reconstruct_sel [simp]:
  "p_bindings (reconstruct ops st resource) = read_bindings st resource"
  "read_bindings st resource \<noteq> [] \<Longrightarrow>
     p_etag (reconstruct ops st resource) = policy_etag ops (reconstruct ops st resource)"
  by (auto simp: reconstruct_eq Let_def policy_default_def policy_etag_def)

lemma reconstruct_validates: "policy_validate (reconstruct ops st resource) = Inr ()"
  by (simp add: reconstruct_eq Let_def policy_validate_def canonical_version_def policy_default_def
      any_conditional_def)

lemma policies_get_eq:
  "policies_get ops st resource =
     (if read_bindings st resource = [] then None else Some (reconstruct ops st resource))"
  by (simp add: policies_get_def Let_def)

lemma grants_members: "policy_grants p caller \<longleftrightarrow>
    (\<exists>m \<in> (\<Union>b \<in> set (p_bindings p). set (b_members b)). grant_admits m caller)"
  by (auto simp: policy_grants_def list_ex_iff)

lemma normalize_members:
  "(\<Union>b \<in> set (p_bindings (normalize p)). set (b_members b)) = (\<Union>b \<in> set (p_bindings p). set (b_members b))"
proof -
  have "(\<Union>b \<in> set bs. set (b_members b)) = (\<lambda>g. snd (snd g)) ` granted bs" for bs
    by (force simp: granted_def)
  then show ?thesis by (simp add: normalize_granted)
qed

lemma normalize_other [simp]:
  "p_version (normalize p) = p_version p" "p_etag (normalize p) = p_etag p"
  "normalize (p\<lparr>p_etag := e\<rparr>) = (normalize p)\<lparr>p_etag := e\<rparr>"
  by (simp_all add: normalize_def)

lemma set_checked_eq:
  "set_checked ops resource q st =
     (case policy_check ops (p_etag q) (policies_get ops st resource) of
        Inl e \<Rightarrow> (Inl e, st)
      | Inr _ \<Rightarrow>
          (let st' = filter (\<lambda>row. pw_resource row \<noteq> resource) st @ policy_rows resource (normalize q)
           in (Inr (reconstruct ops st' resource), st')))"
  by (simp add: set_checked_def policies_get_eq Let_def policy_rows_def split: sum.splits)

lemma set_checked_stored:
  assumes "set_checked ops resource q st = (Inr reply, st')"
  shows "reply = reconstruct ops st' resource"
    and "read_bindings st' resource = map stored_binding (p_bindings (normalize q))"
    and "r \<noteq> resource \<Longrightarrow> read_bindings st' r = read_bindings st r"
proof -
  have st': "st' = filter (\<lambda>row. pw_resource row \<noteq> resource) st @ policy_rows resource (normalize q)"
    and reply: "reply = reconstruct ops st' resource"
    using assms by (auto simp: set_checked_eq Let_def split: sum.splits)
  show "reply = reconstruct ops st' resource" by (rule reply)
  show "read_bindings st' resource = map stored_binding (p_bindings (normalize q))"
    unfolding st' using normalize_canonical [of q] by (intro read_written) (simp add: canonical_def)
  show "r \<noteq> resource \<Longrightarrow> read_bindings st' r = read_bindings st r"
    unfolding st' by (rule read_others)
qed

lemma stored_grants: "policy_grants (reconstruct ops st' resource) caller = policy_grants q caller"
  if "read_bindings st' resource = map stored_binding (p_bindings (normalize q))"
  using that normalize_members [of q] by (simp add: grants_members)

text \<open>C24: a policy the service accepts is the policy it serves: the reply, and every later
  \<open>GetIamPolicy\<close> until the next write, is the normalised policy with each condition cut to its
  expression and a version that validates; it admits the same callers as the policy submitted, and
  no other resource's policy changes.\<close>

theorem accepted_policy_is_served:
  assumes "set_iam_policy u ops \<lparr>si_resource = resource, si_policy = Some policy\<rparr> st = (Inr reply, st')"
  shows "get_iam_policy ops st' resource = Inr reply
    \<and> p_bindings reply = map stored_binding (p_bindings (normalize policy))
    \<and> policy_validate reply = Inr ()
    \<and> authorized ops st' caller resource
        = (policy_grants policy caller \<or> (\<forall>b \<in> set (p_bindings policy). b_members b = []))
    \<and> (other \<noteq> resource \<longrightarrow> policies_get ops st' other = policies_get ops st other)"
proof -
  have set: "set_checked ops resource policy st = (Inr reply, st')" and "resource \<noteq> []"
    using assms by (auto simp: set_iam_policy_def map_err_Inr_iff split: sum.splits prod.splits if_splits)
  note stored = set_checked_stored [OF set]
  have none: "read_bindings st' resource = [] \<longleftrightarrow> (\<forall>b \<in> set (p_bindings policy). b_members b = [])"
  proof -
    have "p_bindings (normalize policy) = [] \<longleftrightarrow>
        (\<Union>b \<in> set (p_bindings (normalize policy)). set (b_members b)) = {}"
      using normalize_canonical [of policy] by (auto simp: canonical_def)
    then show ?thesis unfolding normalize_members stored(2) by auto
  qed
  have "policy_grants reply caller = policy_grants policy caller"
    unfolding stored(1) by (rule stored_grants) (rule stored(2))
  moreover have "policies_get ops st' other = policies_get ops st other" if "other \<noteq> resource"
    using stored(3) [OF that] by (simp add: policies_get_eq reconstruct_eq)
  moreover have "get_iam_policy ops st' resource = Inr reply"
    using \<open>resource \<noteq> []\<close> by (simp add: get_iam_policy_def policies_get_eq stored(1) reconstruct_eq)
  ultimately show ?thesis
    using stored(1,2) none by (auto simp: authorized_def policies_get_eq reconstruct_validates)
qed

subsection \<open>Racing writers\<close>

text \<open>The store after a sequence of writes by other clients, accepted or refused, to any resource.\<close>

definition policy_writes ::
  "unicode_tables \<Rightarrow> digest_ops \<Rightarrow> set_iam_policy_request list \<Rightarrow> policy_store \<Rightarrow> policy_store" where
  "policy_writes u ops reqs st = fold (\<lambda>req st. snd (set_iam_policy u ops req st)) reqs st"

lemma set_iam_policy_refused: "set_iam_policy u ops req st = (Inl e, st') \<Longrightarrow> st' = st"
  by (auto simp: set_iam_policy_def set_checked_eq Let_def split: if_splits option.splits sum.splits prod.splits)

lemma set_iam_policy_elsewhere:
  assumes "si_resource req \<noteq> resource"
  shows "read_bindings (snd (set_iam_policy u ops req st)) resource = read_bindings st resource"
proof (cases "fst (set_iam_policy u ops req st)")
  case (Inl e)
  then show ?thesis using set_iam_policy_refused [of u ops req st e] by (metis prod.collapse)
next
  case (Inr reply)
  then obtain policy st' where "set_checked ops (si_resource req) policy st = (Inr reply, st')"
      "snd (set_iam_policy u ops req st) = st'"
    by (auto simp: set_iam_policy_def map_err_Inr_iff split: if_splits option.splits sum.splits prod.splits)
  with set_checked_stored(3) assms show ?thesis by metis
qed

lemma policy_writes_elsewhere:
  "\<forall>req \<in> set reqs. si_resource req \<noteq> resource \<Longrightarrow>
     read_bindings (policy_writes u ops reqs st) resource = read_bindings st resource"
  by (induction reqs arbitrary: st) (simp_all add: policy_writes_def set_iam_policy_elsewhere)

lemma served_policy:
  "get_iam_policy ops st resource = Inr p \<longleftrightarrow> resource \<noteq> [] \<and> p = reconstruct ops st resource"
  by (auto simp: get_iam_policy_def policies_get_eq reconstruct_eq)

lemma stored_policy: "stored (policies_get ops st resource) = reconstruct ops st resource"
  by (simp add: policies_get_eq stored_def reconstruct_eq)

lemma policy_etag_not_empty: "policy_etag ops p \<noteq> []"
  using hex08_length [of "dg_crc32 ops (dg_encode ops (p\<lparr>p_etag := []\<rparr>))"] by (auto simp: policy_etag_def)

lemma set_iam_policy_decides:
  assumes "resource \<noteq> []" and "is_ok (try_map member_parse (concat (map b_members (p_bindings edit))))"
    and "is_ok (policy_validate edit)"
  shows "is_ok (fst (set_iam_policy u ops \<lparr>si_resource = resource, si_policy = Some edit\<rparr> st)) \<longleftrightarrow>
           p_etag edit = [] \<or> p_etag edit = policy_etag ops (reconstruct ops st resource)"
    and "\<not> is_ok (fst (set_iam_policy u ops \<lparr>si_resource = resource, si_policy = Some edit\<rparr> st)) \<Longrightarrow>
           set_iam_policy u ops \<lparr>si_resource = resource, si_policy = Some edit\<rparr> st
             = (Inl (iam_status u PolicyEtagMismatch), st)"
  using assms
  by (auto simp: set_iam_policy_def set_checked_eq policy_check_eq stored_policy Let_def is_ok_def
      split: sum.splits)

text \<open>C26: No policy update is lost to a race. A client reads a policy, others write in the meantime, and
  the client then writes an edit that carries the etag it read. If every write in between was to another
  resource the edit is accepted. Whatever the writes, an edit whose members parse and whose version
  validates is accepted exactly when the policy then served is still the one it was made from, provided
  that policy and the one read do not share a digest by accident; otherwise the client is told
  \<open>ABORTED\<close> and the store is left as it was.\<close>

theorem racing_policy_edit_refused:
  assumes "get_iam_policy ops st resource = Inr read_policy" and "p_bindings read_policy \<noteq> []"
    and "p_etag edit = p_etag read_policy"
    and "is_ok (try_map member_parse (concat (map b_members (p_bindings edit))))" and "is_ok (policy_validate edit)"
    and now: "get_iam_policy ops (policy_writes u ops reqs st) resource = Inr now_served"
    and "policy_etag ops now_served = policy_etag ops read_policy \<Longrightarrow> now_served = read_policy"
  shows "(is_ok (fst (set_iam_policy u ops \<lparr>si_resource = resource, si_policy = Some edit\<rparr> (policy_writes u ops reqs st)))
            \<longleftrightarrow> now_served = read_policy)
    \<and> (now_served \<noteq> read_policy \<longrightarrow>
         set_iam_policy u ops \<lparr>si_resource = resource, si_policy = Some edit\<rparr> (policy_writes u ops reqs st)
           = (Inl (iam_status u PolicyEtagMismatch), policy_writes u ops reqs st)
         \<and> st_code (iam_status u PolicyEtagMismatch) = Code_Aborted)
    \<and> ((\<forall>req \<in> set reqs. si_resource req \<noteq> resource) \<longrightarrow> now_served = read_policy)"
proof -
  let ?st = "policy_writes u ops reqs st"
  have ne: "resource \<noteq> []" and read: "read_policy = reconstruct ops st resource"
    and served: "now_served = reconstruct ops ?st resource"
    using assms(1) now by (simp_all add: served_policy)
  have "read_bindings st resource \<noteq> []" using assms(2) read by simp
  then have etag: "p_etag edit = policy_etag ops read_policy" using assms(3) read reconstruct_sel(2) by metis
  note decides = set_iam_policy_decides [OF ne assms(4,5), of u ops ?st]
  have "is_ok (fst (set_iam_policy u ops \<lparr>si_resource = resource, si_policy = Some edit\<rparr> ?st))
      \<longleftrightarrow> now_served = read_policy"
    unfolding decides(1) using etag policy_etag_not_empty assms(7) served by metis
  moreover have "(\<forall>req \<in> set reqs. si_resource req \<noteq> resource) \<longrightarrow> now_served = read_policy"
    using policy_writes_elsewhere [of reqs resource u ops st] by (simp add: read served reconstruct_eq)
  moreover have "st_code (iam_status u PolicyEtagMismatch) = Code_Aborted" by (simp add: iam_status_def)
  ultimately show ?thesis using decides(2) by blast
qed

text \<open>A resource without a policy is read with no etag, so a first write is never held to what was read.\<close>

theorem first_policy_write_unguarded:
  assumes "get_iam_policy ops st resource = Inr read_policy" and "p_bindings read_policy = []"
    and "is_ok (try_map member_parse (concat (map b_members (p_bindings edit))))" and "is_ok (policy_validate edit)"
    and "p_etag edit = p_etag read_policy"
  shows "is_ok (fst (set_iam_policy u ops \<lparr>si_resource = resource, si_policy = Some edit\<rparr> (policy_writes u ops reqs st)))"
proof -
  have ne: "resource \<noteq> []" and read: "read_policy = reconstruct ops st resource"
    using assms(1) by (simp_all add: served_policy)
  then have none: "read_bindings st resource = []" using assms(2) by simp
  with read assms(5) have "p_etag edit = []" by (simp add: reconstruct_eq policy_default_def)
  then show ?thesis using set_iam_policy_decides(1) [OF ne assms(3,4)] by blast
qed

subsection \<open>What a caller holds\<close>

text \<open>A binding applies to a caller that one of its members admits, when it has no condition or
  its condition holds; it is broken when the condition neither holds nor fails.\<close>

definition condition_value ::
  "('p, 'v, 't) cel_ops \<Rightarrow> 't request_context \<Rightarrow> binding \<Rightarrow> iam_error + bool" where
  "condition_value cel ctx b =
     (case b_condition b of
        None \<Rightarrow> Inr True
      | Some e \<Rightarrow> res_bind (condition_compile cel (ex_expression e)) (\<lambda>c. condition_evaluate cel c ctx))"

definition admitted :: "member option \<Rightarrow> binding \<Rightarrow> bool" where
  "admitted caller b = list_ex (\<lambda>m. grant_admits m caller) (b_members b)"

lemma grant_loop_Cons:
  "grant_loop cel ctx caller (b # bs) held =
     (if \<not> admitted caller b then grant_loop cel ctx caller bs held
      else res_bind (condition_value cel ctx b) (\<lambda>holds.
        grant_loop cel ctx caller bs (if holds then held @ role_permissions CATALOGUE (b_role b) else held)))"
  by (cases "b_condition b"; cases "condition_compile cel (ex_expression (the (b_condition b)))")
     (simp_all add: admitted_def condition_value_def)

lemma grant_loop_Inr:
  "grant_loop cel ctx caller bs held = Inr res \<longleftrightarrow>
     (\<forall>b \<in> set bs. admitted caller b \<longrightarrow> is_ok (condition_value cel ctx b))
     \<and> res = held @ concat (map (\<lambda>b. role_permissions CATALOGUE (b_role b))
                 (filter (\<lambda>b. admitted caller b \<and> condition_value cel ctx b = Inr True) bs))"
proof (induction bs arbitrary: held)
  case Nil
  then show ?case by auto
next
  case (Cons b bs)
  show ?case
  proof (cases "condition_value cel ctx b")
    case (Inl e)
    then show ?thesis by (simp add: grant_loop_Cons Cons del: grant_loop.simps)
  next
    case (Inr v)
    then show ?thesis by (simp add: grant_loop_Cons Cons del: grant_loop.simps)
  qed
qed

lemma parsed_permissions:
  "try_map permission_parse ss = Inr ps \<longleftrightarrow>
     (\<forall>s \<in> set ss. permission_wf (Permission s)) \<and> ps = map Permission ss"
proof (induction ss arbitrary: ps)
  case Nil
  then show ?case by auto
next
  case (Cons s ss)
  have "permission_parse s = (if is_well_formed s then Inr (Permission s) else Inl (PermissionMalformed s))"
    by (simp add: permission_parse_def)
  with Cons show ?case by (cases "try_map permission_parse ss") auto
qed

text \<open>C25: \<open>TestIamPermissions\<close> answers exactly the permissions asked for, in their order,
  that some binding of the stored policy gives: one that admits the caller, whose condition holds and
  whose role contains the permission. A resource without a policy gives none, and the call fails
  exactly on an empty resource, a malformed permission or a broken condition of a binding that admits
  the caller; a role of the catalogue contains every permission of the tier below.\<close>

theorem held_permissions_answered:
  "(test_iam_permissions u cel now ops st caller resource asked = Inr answer \<longleftrightarrow>
      resource \<noteq> [] \<and> (\<forall>p \<in> set asked. permission_wf (Permission p))
      \<and> (\<forall>b \<in> set (read_bindings st resource). admitted caller b \<longrightarrow>
            is_ok (condition_value cel (request_resource ''name'' resource (request_new now)) b))
      \<and> answer = filter (\<lambda>p. \<exists>b \<in> set (read_bindings st resource). admitted caller b
            \<and> condition_value cel (request_resource ''name'' resource (request_new now)) b = Inr True
            \<and> Permission p \<in> set (role_permissions CATALOGUE (b_role b))) asked)
   \<and> set (role_permissions CATALOGUE ''roles/freight.viewer'')
        \<subset> set (role_permissions CATALOGUE ''roles/freight.editor'')
   \<and> set (role_permissions CATALOGUE ''roles/freight.editor'')
        \<subset> set (role_permissions CATALOGUE ''roles/freight.admin'')"
proof -
  let ?ctx = "request_resource ''name'' resource (request_new now)"
  let ?held = "concat (map (\<lambda>b. role_permissions CATALOGUE (b_role b))
          (filter (\<lambda>b. admitted caller b \<and> condition_value cel ?ctx b = Inr True) (read_bindings st resource)))"
  have held: "granted_permissions u cel now ops st resource caller = Inr held \<longleftrightarrow>
      (\<forall>b \<in> set (read_bindings st resource). admitted caller b \<longrightarrow> is_ok (condition_value cel ?ctx b))
      \<and> held = ?held" for held
    by (auto simp: granted_permissions_def policies_get_eq map_err_Inr_iff grant_loop_Inr)
  have among: "p \<in> set ?held \<longleftrightarrow> (\<exists>b \<in> set (read_bindings st resource). admitted caller b
      \<and> condition_value cel ?ctx b = Inr True \<and> p \<in> set (role_permissions CATALOGUE (b_role b)))" for p
    by auto
  have names: "map permission_str (filter P (map Permission ss)) = filter (\<lambda>s. P (Permission s)) ss" for P ss
    by (simp add: filter_map comp_def)
  have tiers: "set (role_permissions CATALOGUE ''roles/freight.viewer'')
        \<subset> set (role_permissions CATALOGUE ''roles/freight.editor'')"
    "set (role_permissions CATALOGUE ''roles/freight.editor'')
        \<subset> set (role_permissions CATALOGUE ''roles/freight.admin'')"
    by code_simp+
  have "test_iam_permissions u cel now ops st caller resource asked = Inr answer \<longleftrightarrow>
      resource \<noteq> [] \<and> (\<forall>p \<in> set asked. permission_wf (Permission p))
      \<and> (\<exists>held. granted_permissions u cel now ops st resource caller = Inr held
           \<and> answer = filter (\<lambda>s. Permission s \<in> set held) asked)"
    by (auto simp: test_iam_permissions_def res_bind_Inr_iff map_err_Inr_iff parsed_permissions names)
  then have "test_iam_permissions u cel now ops st caller resource asked = Inr answer \<longleftrightarrow>
      resource \<noteq> [] \<and> (\<forall>p \<in> set asked. permission_wf (Permission p))
      \<and> (\<forall>b \<in> set (read_bindings st resource). admitted caller b \<longrightarrow> is_ok (condition_value cel ?ctx b))
      \<and> answer = filter (\<lambda>s. Permission s \<in> set ?held) asked" unfolding held by blast
  with tiers show ?thesis unfolding among by blast
qed

text \<open>A policy with a conditional binding and a digest, for concrete inputs.\<close>

definition sample_digest :: digest_ops where
  "sample_digest = \<lparr>dg_encode = \<lambda>p. concat (map b_role (p_bindings p)), dg_crc32 = \<lambda>s. word_of_nat (length s)\<rparr>"

definition sample_policy :: policy where
  "sample_policy = policy_default\<lparr>p_version := 3, p_bindings :=
     [\<lparr>b_role = ''roles/freight.viewer'', b_members = [''user:b'', ''user:a'', ''user:b''],
       b_condition = Some \<lparr>ex_expression = ''true'', ex_title = ''t'', ex_description = [], ex_location = []\<rparr>\<rparr>]\<rparr>"

definition sample_set :: "(status + policy) \<times> policy_store" where
  "sample_set = set_iam_policy ascii_tables sample_digest
     \<lparr>si_resource = ''shippers/1'', si_policy = Some sample_policy\<rparr> []"

theorem accepted_policy_is_served_witness:
  "get_iam_policy sample_digest (snd sample_set) ''shippers/1'' = fst sample_set \<and> is_ok (fst sample_set)"
proof -
  have ok: "is_ok (fst sample_set)" by code_simp
  then obtain reply where "fst sample_set = Inr reply" by (cases "fst sample_set") auto
  then have "set_iam_policy ascii_tables sample_digest
     \<lparr>si_resource = ''shippers/1'', si_policy = Some sample_policy\<rparr> [] = (Inr reply, snd sample_set)"
    by (simp add: sample_set_def [symmetric] prod_eq_iff)
  from accepted_policy_is_served [OF this] ok show ?thesis
    by (simp add: \<open>fst sample_set = Inr reply\<close>)
qed

text \<open>Another client writes the same resource between the read and the edit.\<close>

definition other_policy :: policy where
  "other_policy = policy_default\<lparr>p_version := 1, p_bindings :=
     [\<lparr>b_role = ''roles/freight.editor2'', b_members = [''user:c''], b_condition = None\<rparr>]\<rparr>"

theorem racing_policy_edit_refused_witness:
  "\<not> is_ok (fst (set_iam_policy ascii_tables sample_digest
       \<lparr>si_resource = ''shippers/1'', si_policy = Some (other_policy\<lparr>p_etag := p_etag (reconstruct sample_digest (snd sample_set) ''shippers/1'')\<rparr>)\<rparr>
       (policy_writes ascii_tables sample_digest [\<lparr>si_resource = ''shippers/1'', si_policy = Some other_policy\<rparr>] (snd sample_set))))"
proof -
  let ?read = "reconstruct sample_digest (snd sample_set) ''shippers/1''"
  let ?reqs = "[\<lparr>si_resource = ''shippers/1'', si_policy = Some other_policy\<rparr>]"
  let ?now = "reconstruct sample_digest (policy_writes ascii_tables sample_digest ?reqs (snd sample_set)) ''shippers/1''"
  let ?edit = "other_policy\<lparr>p_etag := p_etag ?read\<rparr>"
  have differ: "policy_etag sample_digest ?now \<noteq> policy_etag sample_digest ?read" by code_simp
  have read: "get_iam_policy sample_digest (snd sample_set) ''shippers/1'' = Inr ?read"
    and served: "get_iam_policy sample_digest (policy_writes ascii_tables sample_digest ?reqs (snd sample_set)) ''shippers/1'' = Inr ?now"
    by (simp_all add: served_policy)
  have "read_bindings (snd sample_set) ''shippers/1'' \<noteq> []" by code_simp
  then have bindings: "p_bindings ?read \<noteq> []" by simp
  have members: "is_ok (try_map member_parse (concat (map b_members (p_bindings ?edit))))" by code_simp
  have version: "is_ok (policy_validate ?edit)" by code_simp
  from racing_policy_edit_refused [OF read bindings _ members version served] differ
  show ?thesis by auto
qed

definition sample_cel :: "(string, bool, unit) cel_ops" where
  "sample_cel = \<lparr>cel_compile = Inr, cel_execute = \<lambda>s _. Inr (s = ''true''), cel_as_bool = Some, cel_debug = \<lambda>_. []\<rparr>"

theorem held_permissions_answered_witness:
  "test_iam_permissions ascii_tables sample_cel () sample_digest (policy_rows ''shippers/1'' (normalize sample_policy))
     (Some (User ''a'')) ''shippers/1'' [''freight.shippers.delete'', ''freight.shippers.get'']
     = Inr [''freight.shippers.get'']"
proof -
  let ?ctx = "request_resource ''name'' ''shippers/1'' (request_new ())"
  have bindings: "read_bindings (policy_rows ''shippers/1'' (normalize sample_policy)) ''shippers/1'' =
      [\<lparr>b_role = ''roles/freight.viewer'', b_members = [''user:a'', ''user:b''],
        b_condition = Some (expression_only ''true'')\<rparr>]" (is "_ = [?b]")
    by code_simp
  have admits: "admitted (Some (User ''a'')) ?b" by code_simp
  have cond: "condition_value sample_cel ?ctx ?b = Inr True" by code_simp
  have wf: "permission_wf (Permission ''freight.shippers.delete'')" "permission_wf (Permission ''freight.shippers.get'')"
    by code_simp+
  have held: "Permission ''freight.shippers.get'' \<in> set (role_permissions CATALOGUE ''roles/freight.viewer'')"
    "Permission ''freight.shippers.delete'' \<notin> set (role_permissions CATALOGUE ''roles/freight.viewer'')"
    by code_simp+
  show ?thesis
    by (rule held_permissions_answered [THEN conjunct1, THEN iffD2]) (use bindings admits cond wf held in simp)
qed

end
