(* ===== verification/Freight_Service.thy ===== *)
theory Freight_Service
  imports Freight_Operations Freight_Policy Field_Mask Lifecycle
begin

text \<open>
  The write path of \<open>FreightServer\<close> (\<open>examples/freight-server/src/service.rs\<close>): the shipper methods, the
  creation of sites and shipments, the batch methods, the AIP-155 replay and the AIP-211 gate. A handler
  takes the storage and returns the answer with the storage after it; a failed \<open>expect\<close> is \<open>None\<close>. The
  clock and the minted id come in as \<open>fresh\<close>; prost's wire form and its dynamic view of a message are the
  fields of \<open>message_io\<close>.
\<close>

subsection \<open>Requests and surroundings\<close>

record get_shipper_request =
  gs_name :: string
  gs_show_deleted :: bool

record create_shipper_request =
  cs_shipper :: "shipper option"
  cs_request_id :: string
  cs_validate_only :: bool

record update_shipper_request =
  us_shipper :: "shipper option"
  us_update_mask :: "field_mask option"
  us_validate_only :: bool

record delete_shipper_request =
  ds_name :: string
  ds_etag :: string

record create_site_request =
  ci_parent :: string
  ci_site :: "site option"
  ci_request_id :: string
  ci_validate_only :: bool

record create_shipment_request =
  cp_parent :: string
  cp_shipment :: "shipment option"
  cp_request_id :: string
  cp_validate_only :: bool

record batch_create_request =
  bc_requests :: "create_shipper_request list"
  bc_validate_only :: bool

record batch_get_sites_request =
  bg_parent :: string
  bg_names :: "string list"

text \<open>\<open>io_eq\<close> is the derived \<open>PartialEq\<close>, not reflexive on a message that holds a NaN.\<close>

record ('a, 'm) message_io =
  io_encode :: "'a \<Rightarrow> string"
  io_decode :: "string \<Rightarrow> 'a option"
  io_eq :: "'a \<Rightarrow> 'a \<Rightarrow> bool"
  io_dyn :: "'a \<Rightarrow> 'm"
  io_of_dyn :: "'m \<Rightarrow> 'a"

record 'm service_env =
  se_unicode :: unicode_tables
  se_uuid_ok :: "string \<Rightarrow> bool"
  se_digest :: digest_ops
  se_codec :: store_codec
  se_api :: "'m dyn_api"
  se_shipper :: "(shipper, 'm) message_io"
  se_site :: "(site, 'm) message_io"
  se_shipment :: "(shipment, 'm) message_io"
  se_create_shipper :: "(create_shipper_request, 'm) message_io"
  se_create_site :: "(create_site_request, 'm) message_io"
  se_create_shipment :: "(create_shipment_request, 'm) message_io"
  se_batch_create :: "(batch_create_request, 'm) message_io"
  se_metadata :: "batch_metadata message_type"
  se_response :: "batch_response message_type"

definition SHIPPERS_COLLECTION :: string where
  "SHIPPERS_COLLECTION = ''shippers''"

definition SHIPPER_GET_PERMISSION :: permission where
  "SHIPPER_GET_PERMISSION = Permission ''freight.shippers.get''"

definition shipper_not_found :: "string \<Rightarrow> status" where
  "shipper_not_found name = plain_status Code_NotFound (''shipper `'' @ name @ ''` not found'')"

text \<open>\<open>now()\<close> of the wall-clock time: whole seconds.\<close>

definition now :: "timestamp \<Rightarrow> timestamp" where
  "now ts = ts\<lparr>ts_nanos := 0\<rparr>"

definition require_shipper :: "store_codec \<Rightarrow> storage \<Rightarrow> shipper_name \<Rightarrow> (status + unit) option" where
  "require_shipper sc db parent =
     map_option (\<lambda>found. if found = None then Inl (shipper_not_found (sn_name parent)) else Inr ())
       (get_shipper sc db parent)"

subsection \<open>Soft delete of a shipper\<close>

definition shipper_state :: "shipper \<Rightarrow> sd_state" where
  "shipper_state s = from_deleted (sh_delete_time s \<noteq> None)"

definition get_shipper_rpc ::
  "'m service_env \<Rightarrow> policy_store \<Rightarrow> storage \<Rightarrow> member option \<Rightarrow> get_shipper_request \<Rightarrow> (status + shipper) option" where
  "get_shipper_rpc env st db caller req =
     (let name = gs_name req in
      if authorized (se_digest env) st caller name then
        (case shipper_parse_field ''name'' name of
           Inl e \<Rightarrow> Some (Inl (field_error_status (se_unicode env) e))
         | Inr resource \<Rightarrow>
             Option.bind (get_shipper (se_codec env) db resource) (\<lambda>found.
               Some (case found of
                 None \<Rightarrow> Inl (shipper_not_found name)
               | Some shipper \<Rightarrow>
                   res_bind (map_err sd_status
                      (check_visible (shipper_state shipper) (gs_show_deleted req) (sn_name resource)))
                     (\<lambda>_. Inr shipper))))
      else
        Option.bind (case shipper_parse name of
                       Inl _ \<Rightarrow> Some None
                     | Inr resource \<Rightarrow> get_shipper (se_codec env) db resource) (\<lambda>found.
          let visible = (case found of None \<Rightarrow> False
                         | Some shipper \<Rightarrow> is_visible (shipper_state shipper) (gs_show_deleted req))
          in Some (Inl (if visible then permission_denied SHIPPER_GET_PERMISSION name
               else not_found_via_parent SHIPPER_GET_PERMISSION name
                      (authorized (se_digest env) st caller SHIPPERS_COLLECTION)))))"

definition delete_shipper ::
  "'m service_env \<Rightarrow> timestamp \<Rightarrow> delete_shipper_request \<Rightarrow> storage \<Rightarrow> ((status + shipper) \<times> storage) option" where
  "delete_shipper env clock req db =
     (case shipper_parse_field ''name'' (ds_name req) of
        Inl e \<Rightarrow> Some (Inl (field_error_status (se_unicode env) e), db)
      | Inr resource \<Rightarrow>
          Option.bind (get_shipper (se_codec env) db resource) (\<lambda>found. Some
            (case found of
               None \<Rightarrow> (Inl (shipper_not_found (ds_name req)), db)
             | Some existing \<Rightarrow>
                 (case check_visible (shipper_state existing) False (sn_name resource) of
                    Inl e \<Rightarrow> (Inl (sd_status e), db)
                  | Inr _ \<Rightarrow>
                 (case etag_check (se_api env) (dg_crc32 (se_digest env)) (ds_etag req) (io_dyn (se_shipper env) existing) of
                    Inl e \<Rightarrow> (Inl (etag_status (se_unicode env) e), db)
                  | Inr _ \<Rightarrow>
                      (let ts = now clock;
                           shipper = existing\<lparr>sh_delete_time := Some ts, sh_update_time := Some ts\<rparr>
                       in (Inr shipper, put_shipper resource shipper db)))))))"

definition undelete_shipper ::
  "'m service_env \<Rightarrow> timestamp \<Rightarrow> string \<Rightarrow> storage \<Rightarrow> ((status + shipper) \<times> storage) option" where
  "undelete_shipper env clock name db =
     (case shipper_parse_field ''name'' name of
        Inl e \<Rightarrow> Some (Inl (field_error_status (se_unicode env) e), db)
      | Inr resource \<Rightarrow>
          Option.bind (get_shipper (se_codec env) db resource) (\<lambda>found. Some
            (case found of
               None \<Rightarrow> (Inl (shipper_not_found name), db)
             | Some existing \<Rightarrow>
                 (case check_deleted (shipper_state existing) name of
                    Inl e \<Rightarrow> (Inl (sd_status e), db)
                  | Inr _ \<Rightarrow>
                      (let shipper = existing\<lparr>sh_delete_time := None, sh_update_time := Some (now clock)\<rparr>
                       in (Inr shipper, put_shipper resource shipper db))))))"

subsection \<open>Creating, replaying and updating\<close>

definition idempotent_lookup ::
  "(string \<Rightarrow> bool) \<Rightarrow> ('q, 'm) message_io \<Rightarrow> ('r, 'm) message_io \<Rightarrow> storage \<Rightarrow> string \<Rightarrow> 'q
     \<Rightarrow> (status + 'r option) option" where
  "idempotent_lookup uuid_ok q_io r_io db request_id request =
     (if request_id = [] then Some (Inr None)
      else
        (case request_id_validate uuid_ok request_id of
           Inl e \<Rightarrow> Some (Inl (reqid_status e))
         | Inr _ \<Rightarrow>
             (let recorded = idempotent_get db request_id;
                  matches = map_option (\<lambda>record. case io_decode q_io (ir_request record) of
                                Some before \<Rightarrow> io_eq q_io before request | None \<Rightarrow> False) recorded
              in case decide matches of
                   New \<Rightarrow> Some (Inr None)
                 | Replayed \<Rightarrow> Option.bind recorded (\<lambda>record.
                     map_option (\<lambda>r. Inr (Some r)) (io_decode r_io (ir_response record)))
                 | Conflict \<Rightarrow> Some (Inl (conflict request_id)))))"

definition idempotent_record ::
  "('r, 'm) message_io \<Rightarrow> string \<Rightarrow> string \<Rightarrow> 'r \<Rightarrow> storage \<Rightarrow> storage" where
  "idempotent_record r_io request_id fingerprint response db =
     (if request_id = [] then db else idempotent_put request_id fingerprint (io_encode r_io response) db)"

definition build_shipper ::
  "'m service_env \<Rightarrow> string \<times> timestamp \<Rightarrow> create_shipper_request \<Rightarrow> status + shipper_name \<times> shipper" where
  "build_shipper env fresh req =
     (let io = se_shipper env; api = se_api env in
      res_bind (map_err fb_status (validate_required (io_dyn (se_create_shipper env)) api req)) (\<lambda>_.
      res_bind (ok_or (plain_status Code_InvalidArgument ''shipper is required'') (cs_shipper req)) (\<lambda>shipper.
        let shipper = clear_fields (io_dyn io) (io_of_dyn io) api [FB_OutputOnly, FB_Immutable] shipper;
            resource = shipper_mint (fst fresh);
            ts = now (snd fresh);
            shipper = shipper\<lparr>sh_name := sn_name resource, sh_create_time := Some ts, sh_update_time := Some ts,
                        sh_delete_time := None\<rparr>;
            shipper = shipper\<lparr>sh_etag := etag_compute api (dg_crc32 (se_digest env)) (io_dyn io shipper)\<rparr>
        in Inr (resource, shipper))))"

definition create_shipper ::
  "'m service_env \<Rightarrow> string \<times> timestamp \<Rightarrow> create_shipper_request \<Rightarrow> storage \<Rightarrow> ((status + shipper) \<times> storage) option" where
  "create_shipper env fresh req db =
     (let request_id = cs_request_id req;
          fingerprint = io_encode (se_create_shipper env) req
      in case idempotent_lookup (se_uuid_ok env) (se_create_shipper env) (se_shipper env) db request_id req of
           None \<Rightarrow> None
         | Some (Inl e) \<Rightarrow> Some (Inl e, db)
         | Some (Inr (Some existing)) \<Rightarrow> Some (Inr existing, db)
         | Some (Inr None) \<Rightarrow>
             (case build_shipper env fresh req of
                Inl e \<Rightarrow> Some (Inl e, db)
              | Inr (resource, shipper) \<Rightarrow>
                  Some (Inr shipper,
                    fst (commit_unless (cs_validate_only req)
                      (\<lambda>db. (idempotent_record (se_shipper env) request_id fingerprint shipper
                               (put_shipper resource shipper db), ())) db))))"

definition create_site ::
  "'m service_env \<Rightarrow> string \<times> timestamp \<Rightarrow> create_site_request \<Rightarrow> storage \<Rightarrow> ((status + site) \<times> storage) option" where
  "create_site env fresh req db =
     (let request_id = ci_request_id req;
          fingerprint = io_encode (se_create_site env) req
      in case idempotent_lookup (se_uuid_ok env) (se_create_site env) (se_site env) db request_id req of
           None \<Rightarrow> None
         | Some (Inl e) \<Rightarrow> Some (Inl e, db)
         | Some (Inr (Some existing)) \<Rightarrow> Some (Inr existing, db)
         | Some (Inr None) \<Rightarrow>
      (case validate_required (io_dyn (se_create_site env)) (se_api env) req of
         Inl e \<Rightarrow> Some (Inl (fb_status e), db)
       | Inr _ \<Rightarrow>
      (case ci_site req of
         None \<Rightarrow> Some (Inl (plain_status Code_InvalidArgument ''site is required''), db)
       | Some site \<Rightarrow>
      (case shipper_parse_field ''parent'' (ci_parent req) of
         Inl e \<Rightarrow> Some (Inl (field_error_status (se_unicode env) e), db)
       | Inr parent \<Rightarrow>
      Option.bind (require_shipper (se_codec env) db parent) (\<lambda>required.
      case required of
        Inl e \<Rightarrow> Some (Inl e, db)
      | Inr _ \<Rightarrow>
          (let name = site_mint_under parent (fst fresh);
               ts = now (snd fresh);
               site = site\<lparr>st_name := in_name name, st_create_time := Some ts, st_update_time := Some ts,
                           st_delete_time := None\<rparr>
           in map_option (\<lambda>db'. (Inr site, db'))
                (fst (commit_unless (ci_validate_only req)
                   (\<lambda>s. (map_option (idempotent_record (se_site env) request_id fingerprint site)
                            (Option.bind s (put_site (se_codec env) name site)), ())) (Some db)))))))))"

definition create_shipment ::
  "'m service_env \<Rightarrow> string \<times> timestamp \<Rightarrow> create_shipment_request \<Rightarrow> storage
     \<Rightarrow> ((status + shipment) \<times> storage) option" where
  "create_shipment env fresh req db =
     (let request_id = cp_request_id req;
          fingerprint = io_encode (se_create_shipment env) req
      in case idempotent_lookup (se_uuid_ok env) (se_create_shipment env) (se_shipment env) db request_id req of
           None \<Rightarrow> None
         | Some (Inl e) \<Rightarrow> Some (Inl e, db)
         | Some (Inr (Some existing)) \<Rightarrow> Some (Inr existing, db)
         | Some (Inr None) \<Rightarrow>
      (case validate_required (io_dyn (se_create_shipment env)) (se_api env) req of
         Inl e \<Rightarrow> Some (Inl (fb_status e), db)
       | Inr _ \<Rightarrow>
      (case cp_shipment req of
         None \<Rightarrow> Some (Inl (plain_status Code_InvalidArgument ''shipment is required''), db)
       | Some shipment \<Rightarrow>
      (case shipper_parse_field ''parent'' (cp_parent req) of
         Inl e \<Rightarrow> Some (Inl (field_error_status (se_unicode env) e), db)
       | Inr parent \<Rightarrow>
      Option.bind (require_shipper (se_codec env) db parent) (\<lambda>required.
      case required of
        Inl e \<Rightarrow> Some (Inl e, db)
      | Inr _ \<Rightarrow>
          (let name = shipment_mint_under parent (fst fresh);
               ts = now (snd fresh);
               shipment = shipment\<lparr>sp_name := pn_name name, sp_create_time := Some ts,
                                   sp_update_time := Some ts, sp_delete_time := None\<rparr>
           in map_option (\<lambda>db'. (Inr shipment, db'))
                (fst (commit_unless (cp_validate_only req)
                   (\<lambda>s. (map_option (idempotent_record (se_shipment env) request_id fingerprint shipment)
                            (Option.bind s (put_shipment (se_codec env) name shipment)), ())) (Some db)))))))))"

text \<open>The body of \<open>update_shipper\<close> between the lookup and the commit.\<close>

definition merge_shipper ::
  "'m service_env \<Rightarrow> timestamp \<Rightarrow> field_mask \<Rightarrow> shipper \<Rightarrow> shipper \<Rightarrow> (status + shipper) option" where
  "merge_shipper env clock fmask existing incoming =
     (let io = se_shipper env; api = se_api env; u = se_unicode env in
      case etag_check api (dg_crc32 (se_digest env)) (sh_etag incoming) (io_dyn io existing) of
        Inl e \<Rightarrow> Some (Inl (etag_status u e))
      | Inr _ \<Rightarrow>
      (case mask_validate (da_pool api) fmask (da_name api (io_dyn io existing)) of
         Inl e \<Rightarrow> Some (Inl (mask_status u e))
       | Inr _ \<Rightarrow>
      Option.bind (mask_update (io_dyn io) (io_of_dyn io) api fmask existing incoming) (\<lambda>updated.
      case updated of
        Inl e \<Rightarrow> Some (Inl (mask_status u e))
      | Inr shipper \<Rightarrow>
      (case validate_required_with_mask (io_dyn io) api shipper fmask of
         Inl e \<Rightarrow> Some (Inl (fb_status e))
       | Inr _ \<Rightarrow>
      map_option (\<lambda>shipper.
          let shipper = shipper\<lparr>sh_update_time := Some (now clock)\<rparr>
          in Inr (shipper\<lparr>sh_etag := etag_compute api (dg_crc32 (se_digest env)) (io_dyn io shipper)\<rparr>))
        (copy_fields (io_dyn io) (io_of_dyn io) api [FB_OutputOnly] shipper existing)))))"

definition update_shipper ::
  "'m service_env \<Rightarrow> timestamp \<Rightarrow> update_shipper_request \<Rightarrow> storage \<Rightarrow> ((status + shipper) \<times> storage) option" where
  "update_shipper env clock req db =
     (case us_shipper req of
        None \<Rightarrow> Some (Inl (plain_status Code_InvalidArgument ''shipper is required''), db)
      | Some incoming \<Rightarrow>
     (case shipper_parse (sh_name incoming) of
        Inl _ \<Rightarrow> Some (Inl (shipper_not_found (sh_name incoming)), db)
      | Inr resource \<Rightarrow>
     Option.bind (get_shipper (se_codec env) db resource) (\<lambda>found.
     case found of
       None \<Rightarrow> Some (Inl (shipper_not_found (sh_name incoming)), db)
     | Some existing \<Rightarrow>
         map_option (\<lambda>merged. case merged of
             Inl e \<Rightarrow> (Inl e, db)
           | Inr shipper \<Rightarrow>
               (Inr shipper, fst (commit_unless (us_validate_only req)
                  (\<lambda>db. (put_shipper resource shipper db, ())) db)))
           (merge_shipper env clock (case us_update_mask req of Some m \<Rightarrow> m | None \<Rightarrow> []) existing incoming))))"

subsection \<open>The batch methods\<close>

text \<open>\<open>batch_create_shippers\<close>: \<open>fresh\<close> gives what each validated shipper mints; \<open>new_id\<close> is the operation's id.\<close>

definition batch_env_of :: "'m service_env \<Rightarrow> create_shipper_request batch_env" where
  "batch_env_of env =
     \<lparr>be_metadata = se_metadata env, be_response = se_response env, be_build = build_shipper env\<rparr>"

definition batch_create_shippers ::
  "'m service_env \<Rightarrow> (nat \<Rightarrow> string \<times> timestamp) \<Rightarrow> string \<Rightarrow> batch_create_request \<Rightarrow> create_shipper_request world
     \<Rightarrow> ((status + proto_operation) \<times> create_shipper_request world) option" where
  "batch_create_shippers env fresh new_id req w =
     (case validate_required (io_dyn (se_batch_create env)) (se_api env) req of
        Inl e \<Rightarrow> Some (Inl (fb_status e), w)
      | Inr _ \<Rightarrow>
          if bc_validate_only req then
            Some (res_bind (try_map (\<lambda>(i, create). build_shipper env (fresh i) create) (List.enumerate 0 (bc_requests req)))
                    (\<lambda>built. Inr (operation_validated (se_response env) \<lparr>br_shippers = map snd built\<rparr>)), w)
          else
            (case operation_name_parse (se_unicode env) (se_uuid_ok env) (''operations/'' @ new_id) of
               Inl _ \<Rightarrow> None
             | Inr name \<Rightarrow>
                 Some (Inr (operation_pending (se_metadata env) name
                         \<lparr>bm_created = 0, bm_total = as_i32 (length (bc_requests req))\<rparr>),
                       start_batch (batch_env_of env) (operation_name_display name) (bc_requests req) w)))"

fun batch_get_loop ::
  "unicode_tables \<Rightarrow> store_codec \<Rightarrow> storage \<Rightarrow> string \<Rightarrow> string list \<Rightarrow> (status + site list) option" where
  "batch_get_loop u sc db parent [] = Some (Inr [])"
| "batch_get_loop u sc db parent (name # names) =
     (case site_parse_field ''names'' name of
        Inl e \<Rightarrow> Some (Inl (field_error_status u e))
      | Inr resource \<Rightarrow>
          if parent \<noteq> [] \<and> sn_name (site_parent resource) \<noteq> parent then
            Some (Inl (plain_status Code_InvalidArgument
              (''site `'' @ name @ ''` is not under parent `'' @ parent @ ''`'')))
          else
            Option.bind (get_site sc db resource) (\<lambda>found.
            case found of
              None \<Rightarrow> Some (Inl (plain_status Code_NotFound (''site `'' @ name @ ''` not found'')))
            | Some site \<Rightarrow>
                map_option (\<lambda>later. res_bind later (\<lambda>sites. Inr (site # sites)))
                  (batch_get_loop u sc db parent names)))"

definition batch_get_sites ::
  "'m service_env \<Rightarrow> storage \<Rightarrow> batch_get_sites_request \<Rightarrow> (status + site list) option" where
  "batch_get_sites env db req = batch_get_loop (se_unicode env) (se_codec env) db (bg_parent req) (bg_names req)"

text \<open>The methods that are not wired.\<close>

definition unimplemented :: "string \<Rightarrow> status" where
  "unimplemented rpc =
     plain_status Code_Unimplemented (rpc @ '' is not implemented yet in the aip-rs demo'')"

end
