(* ===== verification/Freight_Lifecycle.thy ===== *)
theory Freight_Lifecycle
  imports Freight_Service
begin

text \<open>
  What the write path of the example server guarantees: who may read a shipper and under which spelling
  of its name, the replay of a create, previews and refusals that change nothing, and the soft-delete life
  of a shipper.
\<close>

subsection \<open>Reading through the gate\<close>

definition sees :: "'m service_env \<Rightarrow> storage \<Rightarrow> get_shipper_request \<Rightarrow> bool" where
  "sees env db req \<longleftrightarrow>
     (\<exists>n s. shipper_parse (gs_name req) = Inr n \<and> get_shipper (se_codec env) db n = Some (Some s)
        \<and> is_visible (shipper_state s) (gs_show_deleted req))"

lemma denied_read:
  assumes ok: "storage_ok (se_codec env) db"
    and denied: "\<not> authorized (se_digest env) st caller (gs_name req)"
  shows "get_shipper_rpc env st db caller req =
     Some (Inl (if sees env db req \<or> \<not> authorized (se_digest env) st caller SHIPPERS_COLLECTION
                then permission_denied SHIPPER_GET_PERMISSION (gs_name req)
                else not_found_via_parent SHIPPER_GET_PERMISSION (gs_name req) True))"
proof (cases "shipper_parse (gs_name req)")
  case (Inl e)
  with denied show ?thesis by (simp add: get_shipper_rpc_def Let_def sees_def not_found_hides)
next
  case (Inr n)
  from get_shipper_ok [OF ok, of n] obtain found where "get_shipper (se_codec env) db n = Some found" by blast
  with Inr denied show ?thesis
    by (cases found) (simp_all add: get_shipper_rpc_def Let_def sees_def not_found_hides)
qed


text \<open>The gate looks a policy up under the name as the client spelled it, the store under
  the name it parses to. A second spelling of a protected shipper, such as one with a leading slash, has no
  policy and is served to every caller, while the first spelling is denied.\<close>

theorem gate_reads_the_spelling:
  assumes "shipper_parse_field ''name'' spelling = Inr n"
    and "get_shipper (se_codec env) db n = Some (Some s)" and "is_visible (shipper_state s) show_deleted"
    and "policies_get (se_digest env) st spelling = None"
  shows "get_shipper_rpc env st db caller \<lparr>gs_name = spelling, gs_show_deleted = show_deleted\<rparr> = Some (Inr s)"
  using assms by (simp add: get_shipper_rpc_def authorized_def check_visible_def)

subsection \<open>Previews, refusals, replays\<close>

text \<open>\<open>answers P\<close> says that \<open>P\<close> holds of the answer and the store of a call that returns.\<close>

definition answers :: "('a \<Rightarrow> storage \<Rightarrow> bool) \<Rightarrow> ('a \<times> storage) option \<Rightarrow> bool" where
  "answers P x \<longleftrightarrow> (case x of None \<Rightarrow> True | Some (r, db) \<Rightarrow> P r db)"

lemma answers_simps [simp]:
  "answers P None"
  "answers P (Some (r, db)) = P r db"
  "answers P (Option.bind x f) \<longleftrightarrow> (\<forall>y. x = Some y \<longrightarrow> answers P (f y))"
  "answers P (map_option g x) \<longleftrightarrow> (\<forall>y. x = Some y \<longrightarrow> answers P (Some (g y)))"
  by (cases x; auto simp: answers_def split: option.split)+

lemma answersD: "answers P x \<Longrightarrow> x = Some (r, db) \<Longrightarrow> P r db"
  by simp

lemma create_shipper_frame:
  "answers (\<lambda>r db'. cs_validate_only req \<or> \<not> is_ok r \<longrightarrow> db' = db) (create_shipper env fresh req db)"
  by (simp add: create_shipper_def Let_def commit_unless_def split: option.split sum.split prod.split)

lemma create_site_frame:
  "answers (\<lambda>r db'. ci_validate_only req \<or> \<not> is_ok r \<longrightarrow> db' = db) (create_site env fresh req db)"
  by (simp add: create_site_def Let_def commit_unless_def split: option.split sum.split)

lemma create_shipment_frame:
  "answers (\<lambda>r db'. cp_validate_only req \<or> \<not> is_ok r \<longrightarrow> db' = db) (create_shipment env fresh req db)"
  by (simp add: create_shipment_def Let_def commit_unless_def split: option.split sum.split)

lemma update_shipper_frame:
  "answers (\<lambda>r db'. us_validate_only req \<or> \<not> is_ok r \<longrightarrow> db' = db) (update_shipper env clock req db)"
  by (simp add: update_shipper_def Let_def commit_unless_def split: option.split sum.split)

lemma delete_shipper_frame:
  "answers (\<lambda>r db'. \<not> is_ok r \<longrightarrow> db' = db) (delete_shipper env clock req db)"
  by (simp add: delete_shipper_def Let_def split: option.split sum.split)

lemma undelete_shipper_frame:
  "answers (\<lambda>r db'. \<not> is_ok r \<longrightarrow> db' = db) (undelete_shipper env clock name db)"
  by (simp add: undelete_shipper_def Let_def split: option.split sum.split)

text \<open>A create, an update, a delete or an undelete that is refused, or a create or an
  update that only validates, leaves the store as it was: the resources and the recorded request ids.\<close>

theorem refused_or_previewed_changes_nothing:
  "answers (\<lambda>r db'. cs_validate_only q1 \<or> \<not> is_ok r \<longrightarrow> db' = db) (create_shipper env fresh q1 db)
   \<and> answers (\<lambda>r db'. ci_validate_only q2 \<or> \<not> is_ok r \<longrightarrow> db' = db) (create_site env fresh q2 db)
   \<and> answers (\<lambda>r db'. cp_validate_only q3 \<or> \<not> is_ok r \<longrightarrow> db' = db) (create_shipment env fresh q3 db)
   \<and> answers (\<lambda>r db'. us_validate_only q4 \<or> \<not> is_ok r \<longrightarrow> db' = db) (update_shipper env clock q4 db)
   \<and> answers (\<lambda>r db'. \<not> is_ok r \<longrightarrow> db' = db) (delete_shipper env clock q5 db)
   \<and> answers (\<lambda>r db'. \<not> is_ok r \<longrightarrow> db' = db) (undelete_shipper env clock name db)"
  by (intro conjI create_shipper_frame create_site_frame create_shipment_frame update_shipper_frame
      delete_shipper_frame undelete_shipper_frame)

definition recorded ::
  "(string \<Rightarrow> bool) \<Rightarrow> ('q, 'm) message_io \<Rightarrow> ('r, 'm) message_io \<Rightarrow> storage \<Rightarrow> string \<Rightarrow> 'q \<Rightarrow> 'r \<Rightarrow> bool" where
  "recorded uuid_ok q_io r_io db request_id q r \<longleftrightarrow>
     request_id \<noteq> [] \<and> uuid_ok request_id
     \<and> (\<exists>rec. idempotent_get db request_id = Some rec
          \<and> io_decode q_io (ir_request rec) = Some q \<and> io_decode r_io (ir_response rec) = Some r)"

lemma lookup_recorded:
  assumes "recorded uuid_ok q_io r_io db request_id q r" and "io_eq q_io = (=)"
  shows "idempotent_lookup uuid_ok q_io r_io db request_id q' =
     Some (if q' = q then Inr (Some r) else Inl (conflict request_id))"
  using assms by (auto simp: recorded_def idempotent_lookup_def request_id_validate_def)

lemma lookup_replayed:
  assumes "idempotent_lookup uuid_ok q_io r_io db request_id q = Some (Inr (Some r))" and "io_eq q_io = (=)"
  shows "recorded uuid_ok q_io r_io db request_id q r"
proof -
  have known: "request_id \<noteq> []" "uuid_ok request_id"
    using assms(1) by (auto simp: idempotent_lookup_def request_id_validate_def split: if_splits)
  show ?thesis
  proof (cases "idempotent_get db request_id")
    case None
    with assms known show ?thesis by (simp add: idempotent_lookup_def request_id_validate_def)
  next
    case (Some rec)
    define same where "same = (case io_decode q_io (ir_request rec) of Some before \<Rightarrow> before = q | None \<Rightarrow> False)"
    with assms known Some show ?thesis
      by (cases same) (auto simp: idempotent_lookup_def request_id_validate_def recorded_def Let_def split: option.splits)
  qed
qed

lemma lookup_uuid:
  assumes "idempotent_lookup uuid_ok q_io r_io db request_id q = Some (Inr x)" and "request_id \<noteq> []"
  shows "uuid_ok request_id"
  using assms by (auto simp: idempotent_lookup_def request_id_validate_def split: if_splits)

lemma create_shipper_records:
  assumes eq: "io_eq (se_create_shipper env) = (=)"
    and q: "io_decode (se_create_shipper env) (io_encode (se_create_shipper env) q) = Some q"
    and id: "cs_request_id q \<noteq> []" and commit: "\<not> cs_validate_only q"
  shows "answers (\<lambda>a db'. \<forall>r. a = Inr r \<longrightarrow> io_decode (se_shipper env) (io_encode (se_shipper env) r) = Some r \<longrightarrow>
      recorded (se_uuid_ok env) (se_create_shipper env) (se_shipper env) db' (cs_request_id q) q r)
    (create_shipper env fresh q db)"
proof -
  have new: "recorded (se_uuid_ok env) (se_create_shipper env) (se_shipper env)
      (idempotent_record (se_shipper env) (cs_request_id q) (io_encode (se_create_shipper env) q) r db')
      (cs_request_id q) q r"
    if "idempotent_lookup (se_uuid_ok env) (se_create_shipper env) (se_shipper env) db (cs_request_id q) q = Some (Inr None)"
      and "io_decode (se_shipper env) (io_encode (se_shipper env) r) = Some r" for r db'
    using lookup_uuid [OF that(1) id] that(2) q id
    by (simp add: recorded_def idempotent_record_def idempotent_get_def idempotent_put_def)
  show ?thesis
    using commit
    by (auto simp: create_shipper_def Let_def commit_unless_def lookup_replayed [OF _ eq] new
        split: option.split sum.split prod.split)
qed


subsection \<open>Soft delete\<close>

text \<open>A shipper as the store gives it back: named by its key, with whole seconds that load again.\<close>

definition settled_shipper :: "store_codec \<Rightarrow> string \<Rightarrow> shipper \<Rightarrow> bool" where
  "settled_shipper sc k s \<longleftrightarrow> id_segment k \<and> shipper_loads sc s \<and> stored_shipper (shipper_from_parts k) s = s"

lemma loads_seconds: "loads sc t \<Longrightarrow> loads sc (to_seconds t)"
  by (auto simp: loads_def to_seconds_def store_time_def format_timestamp_def)

lemma to_seconds_idem [simp]: "to_seconds (to_seconds t) = to_seconds t"
  by (cases t) (simp_all add: to_seconds_def)

lemma to_seconds_now [simp]: "to_seconds (Some (now t)) = Some (now t)" "to_seconds None = None"
  by (simp_all add: to_seconds_def now_def)

lemma get_settled:
  assumes "storage_ok sc db" and "get_shipper sc db n = Some (Some s)"
  shows "settled_shipper sc (sn_shipper n) s"
proof (cases "db_shippers db (sn_shipper n)")
  case None
  with assms(2) show ?thesis by (simp add: get_shipper_def optional_row_def)
next
  case (Some row)
  with assms(1) obtain t where t: "id_segment (sn_shipper n)" "shipper_loads sc t"
    "row = shipper_row (shipper_from_parts (sn_shipper n)) t" unfolding storage_ok_def by blast
  with Some assms(2) have "s = stored_shipper (shipper_from_parts (sn_shipper n)) t"
    by (simp add: get_shipper_def optional_row_def shipper_read_back)
  with t show ?thesis by (simp add: settled_shipper_def stored_shipper_def shipper_loads_def loads_seconds)
qed

lemma get_put_settled:
  "settled_shipper sc k s \<Longrightarrow> n = shipper_from_parts k \<Longrightarrow> keys_filed db \<Longrightarrow>
     get_shipper sc (put_shipper n s db) n = Some (Some s)"
  by (simp add: settled_shipper_def get_put_shipper)

lemma settled_restamp:
  "settled_shipper sc k s \<Longrightarrow> loads sc (Some (now t)) \<Longrightarrow>
     settled_shipper sc k (s\<lparr>sh_delete_time := Some (now t), sh_update_time := Some (now t)\<rparr>)"
  "settled_shipper sc k s \<Longrightarrow> loads sc (Some (now t)) \<Longrightarrow>
     settled_shipper sc k (s\<lparr>sh_delete_time := None, sh_update_time := Some (now t)\<rparr>)"
  by (cases s; auto simp: settled_shipper_def shipper_loads_def stored_shipper_def loads_def)+

lemma parse_field_parse: "shipper_parse_field f name = Inr n \<Longrightarrow> shipper_parse name = Inr n"
  by (auto simp: shipper_parse_field_def Let_def res_bind_Inr_iff map_err_Inr_iff)

lemma parsed_from_parts: "shipper_parse name = Inr n \<Longrightarrow> n = shipper_from_parts (sn_shipper n)"
  by (auto simp: shipper_parse_iff)

text \<open>C9: the life of a stored shipper. A delete stamps it and keeps it; from then on it is
  hidden as not found, shown on request as the delete returned it, and cannot be deleted again. An
  undelete gives back the shipper as it was with a new update time, visible again, and cannot be repeated.\<close>

theorem soft_delete_life:
  assumes ok: "storage_ok (se_codec env) db" and name: "shipper_parse_field ''name'' name = Inr n"
    and stored: "get_shipper (se_codec env) db n = Some (Some s)" and live: "sh_delete_time s = None"
    and clocks: "loads (se_codec env) (Some (now t1))" "loads (se_codec env) (Some (now t2))"
    and may: "authorized (se_digest env) st caller name"
  shows "\<exists>db1 db2. let gone = s\<lparr>sh_delete_time := Some (now t1), sh_update_time := Some (now t1)\<rparr>;
                        again = s\<lparr>sh_update_time := Some (now t2)\<rparr>;
                        hidden = Inl (sd_status (ErrDeleted (sn_name n)))
    in delete_shipper env t1 \<lparr>ds_name = name, ds_etag = []\<rparr> db = Some (Inr gone, db1)
     \<and> get_shipper_rpc env st db1 caller \<lparr>gs_name = name, gs_show_deleted = False\<rparr> = Some hidden
     \<and> get_shipper_rpc env st db1 caller \<lparr>gs_name = name, gs_show_deleted = True\<rparr> = Some (Inr gone)
     \<and> delete_shipper env t2 \<lparr>ds_name = name, ds_etag = token\<rparr> db1 = Some (hidden, db1)
     \<and> undelete_shipper env t2 name db1 = Some (Inr again, db2)
     \<and> get_shipper_rpc env st db2 caller \<lparr>gs_name = name, gs_show_deleted = False\<rparr> = Some (Inr again)
     \<and> undelete_shipper env t1 name db2 = Some (Inl (sd_status (NotDeleted name)), db2)"
proof -
  define gone where "gone = s\<lparr>sh_delete_time := Some (now t1), sh_update_time := Some (now t1)\<rparr>"
  define again where "again = s\<lparr>sh_update_time := Some (now t2)\<rparr>"
  have again': "gone\<lparr>sh_delete_time := None, sh_update_time := Some (now t2)\<rparr> = again"
    using live by (simp add: gone_def again_def)
  have n: "n = shipper_from_parts (sn_shipper n)"
    by (rule parsed_from_parts) (rule parse_field_parse [OF name])
  have "settled_shipper (se_codec env) (sn_shipper n) gone"
    unfolding gone_def by (rule settled_restamp(1) [OF get_settled [OF ok stored] clocks(1)])
  moreover from settled_restamp(2) [OF this clocks(2)] have "settled_shipper (se_codec env) (sn_shipper n) again"
    by (simp add: again')
  ultimately have "get_shipper (se_codec env) (put_shipper n gone d) n = Some (Some gone)"
    "get_shipper (se_codec env) (put_shipper n again d) n = Some (Some again)"
    if "keys_filed d" for d
    using get_put_settled n that by blast+
  moreover have "keys_filed db" by (rule storage_ok_filed [OF ok])
  ultimately have get: "get_shipper (se_codec env) (put_shipper n gone db) n = Some (Some gone)"
    "get_shipper (se_codec env) (put_shipper n again (put_shipper n gone db)) n = Some (Some again)"
    using keys_filed_put_shipper by blast+
  have state: "shipper_state gone = Deleted" "shipper_state again = Live" "shipper_state s = Live"
    using live by (simp_all add: shipper_state_def from_deleted_def gone_def again_def)
  note [simp] = name get state may stored again' check_visible_def check_deleted_def is_visible_def is_deleted_def Let_def
  show ?thesis
    unfolding Let_def gone_def [symmetric] again_def [symmetric]
    by (intro exI [of _ "put_shipper n gone db"] exI [of _ "put_shipper n again (put_shipper n gone db)"])
       (simp add: delete_shipper_def undelete_shipper_def get_shipper_rpc_def etag_check_def gone_def [symmetric])
qed

end
