(* ===== verification/Freight_Reachable.thy ===== *)
theory Freight_Reachable
  imports Freight_Lifecycle
begin

text \<open>
  The storages the write path of the example server can reach from the empty one, as an inductive step
  relation over the requests of \<open>Freight_Service\<close>, and the invariant that they can be read.
\<close>

subsection \<open>What copying the server-owned fields restores\<close>

text \<open>
  What the generated descriptor and prost give for a time of a shipper: a message field of that name,
  annotated \<open>OUTPUT_ONLY\<close>, which the typed field mirrors.
\<close>

definition stamp_field :: "'m service_env \<Rightarrow> string \<Rightarrow> (shipper \<Rightarrow> timestamp option) \<Rightarrow> bool" where
  "stamp_field env f sel \<longleftrightarrow>
     (\<forall>m m'. da_has (se_api env) m f = da_has (se_api env) m' f \<longrightarrow>
        (da_has (se_api env) m f \<longrightarrow> da_get (se_api env) m f = da_get (se_api env) m' f) \<longrightarrow>
        sel (io_of_dyn (se_shipper env) m) = sel (io_of_dyn (se_shipper env) m'))
     \<and> (\<forall>s. sel (io_of_dyn (se_shipper env) (io_dyn (se_shipper env) s)) = sel s)
     \<and> (\<forall>s. \<exists>fd d. (f, fd) \<in> set (fields_of (se_api env) (io_dyn (se_shipper env) s))
          \<and> \<not> fd_is_list fd \<and> \<not> fd_is_map fd \<and> fd_kind fd = K_Message d
          \<and> has_any_behavior (behaviors_of (se_api env) (io_dyn (se_shipper env) s) f) [FB_OutputOnly])"

lemma copied_field:
  assumes laws: "message_laws api" and ind: "\<And>f. solo api f" and pres: "presence_kept api"
    and copy: "copy_fields_dynamic api behaviors dst src = Some m"
    and field: "(f, fd) \<in> set (fields_of api dst)" "\<not> fd_is_list fd" "\<not> fd_is_map fd" "fd_kind fd = K_Message d"
    and behavior: "has_any_behavior (behaviors_of api dst f) behaviors"
  shows "da_has api m f = da_has api src f \<and> (da_has api m f \<longrightarrow> da_get api m f = da_get api src f)"
proof -
  define step where "step = (\<lambda>(f, fd) m.
     if \<not> has_any_behavior (behaviors_of api dst f) behaviors then m
     else if is_field_present api src f fd then da_set api f (da_get api src f) m else da_clear api f m)"
  have m: "m = fold step (fields_of api dst) dst"
    using copy by (simp add: copy_fields_dynamic_def step_def split: if_splits)
  have other: "da_has api (fold step fs x) f = da_has api x f \<and> da_get api (fold step fs x) f = da_get api x f"
    if "f \<notin> fst ` set fs" for fs x using that
  proof (induction fs arbitrary: x)
    case (Cons g fs)
    then have "f \<noteq> fst g" by auto
    with Cons solo_other [OF ind this] laws_clear_other [OF laws this] show ?case
      by (cases g) (simp add: step_def)
  qed simp
  obtain pre post where split: "fields_of api dst = pre @ (f, fd) # post" using field(1) by (meson split_list)
  then have "f \<notin> fst ` set post" using laws_distinct [OF laws, of dst] by auto
  then have after: "da_has api m f = da_has api (step (f, fd) x) f \<and> da_get api m f = da_get api (step (f, fd) x) f"
    if "x = fold step pre dst" for x
    using other [of post "step (f, fd) x"] that by (simp add: m split)
  have present: "is_field_present api src f fd = da_has api src f"
    using field by (simp add: is_field_present_def Let_def)
  show ?thesis
  proof (cases "da_has api src f")
    case True
    then have "da_has api (da_set api f (da_get api src f) x) f" for x
      using pres unfolding presence_kept_def by blast
    with after True present behavior laws show ?thesis by (simp add: step_def)
  next
    case False
    have "\<not> da_has api (da_clear api f x) f" for x
      using laws_cleared [OF laws, of f x] unfolding populated_def by blast
    with after False present behavior show ?thesis by (simp add: step_def)
  qed
qed

lemma copied_stamp:
  assumes "message_laws (se_api env)" and "\<And>f. solo (se_api env) f" and "presence_kept (se_api env)"
    and stamp: "stamp_field env f sel"
    and copy: "copy_fields (io_dyn (se_shipper env)) (io_of_dyn (se_shipper env)) (se_api env) [FB_OutputOnly] a b = Some c"
  shows "sel c = sel b"
proof -
  obtain m where m: "copy_fields_dynamic (se_api env) [FB_OutputOnly] (io_dyn (se_shipper env) a) (io_dyn (se_shipper env) b) = Some m"
    "c = io_of_dyn (se_shipper env) m"
    using copy by (auto simp: copy_fields_def)
  obtain fd d where "(f, fd) \<in> set (fields_of (se_api env) (io_dyn (se_shipper env) a))"
    "\<not> fd_is_list fd" "\<not> fd_is_map fd" "fd_kind fd = K_Message d"
    "has_any_behavior (behaviors_of (se_api env) (io_dyn (se_shipper env) a) f) [FB_OutputOnly]"
    using stamp unfolding stamp_field_def by blast
  from copied_field [OF assms(1-3) m(1) this]
  have "sel c = sel (io_of_dyn (se_shipper env) (io_dyn (se_shipper env) b))"
    using stamp m(2) unfolding stamp_field_def by blast
  with stamp show ?thesis unfolding stamp_field_def by metis
qed

subsection \<open>Steps\<close>

definition clock_ok :: "'m service_env \<Rightarrow> timestamp \<Rightarrow> bool" where
  "clock_ok env t \<longleftrightarrow> loads (se_codec env) (Some (now t))"

definition fresh_ok :: "'m service_env \<Rightarrow> string \<times> timestamp \<Rightarrow> bool" where
  "fresh_ok env fresh \<longleftrightarrow> id_segment (fst fresh) \<and> clock_ok env (snd fresh)"

definition site_input_ok :: "store_codec \<Rightarrow> site \<Rightarrow> bool" where
  "site_input_ok sc s \<longleftrightarrow>
     map_loads sc (st_annotations s) \<and> js_list_from sc (js_list_to sc (st_tags s)) = Some (st_tags s)"

definition shipment_input_ok :: "store_codec \<Rightarrow> shipment \<Rightarrow> bool" where
  "shipment_input_ok sc s \<longleftrightarrow>
     loads sc (sp_pickup_earliest_time s) \<and> loads sc (sp_pickup_latest_time s)
     \<and> loads sc (sp_delivery_earliest_time s) \<and> loads sc (sp_delivery_latest_time s)
     \<and> map_loads sc (sp_annotations s) \<and> items_load sc (sp_line_items s)"

text \<open>
  One request that returns. The client's JSON text and the clock load again; so do the times and items
  of a shipment, which is what \<open>create_shipment\<close> does not check.
\<close>

inductive service_step :: "'m service_env \<Rightarrow> storage \<Rightarrow> storage \<Rightarrow> bool" for env where
  create_shipper: "create_shipper env fresh q db = Some (r, db') \<Longrightarrow> fresh_ok env fresh \<Longrightarrow> service_step env db db'"
| update_shipper: "update_shipper env clock q db = Some (r, db') \<Longrightarrow> clock_ok env clock \<Longrightarrow> service_step env db db'"
| delete_shipper: "delete_shipper env clock q db = Some (r, db') \<Longrightarrow> clock_ok env clock \<Longrightarrow> service_step env db db'"
| undelete_shipper: "undelete_shipper env clock n db = Some (r, db') \<Longrightarrow> clock_ok env clock \<Longrightarrow> service_step env db db'"
| create_site: "create_site env fresh q db = Some (r, db') \<Longrightarrow> fresh_ok env fresh \<Longrightarrow>
    pred_option (site_input_ok (se_codec env)) (ci_site q) \<Longrightarrow> service_step env db db'"
| create_shipment: "create_shipment env fresh q db = Some (r, db') \<Longrightarrow> fresh_ok env fresh \<Longrightarrow>
    pred_option (shipment_input_ok (se_codec env)) (cp_shipment q) \<Longrightarrow> service_step env db db'"

inductive_cases service_stepE: "service_step env db db'"

lemma storage_ok_record:
  "storage_ok sc db \<Longrightarrow> storage_ok sc (idempotent_record io request_id fingerprint r db)"
  by (simp add: idempotent_record_def storage_ok_idempotency)

lemma storage_ok_put:
  "storage_ok sc db \<Longrightarrow> settled_shipper sc (sn_shipper n) s \<Longrightarrow> n = shipper_from_parts (sn_shipper n) \<Longrightarrow>
     storage_ok sc (put_shipper n s db)"
  by (metis settled_shipper_def storage_ok_shipper)

lemma built_shipper:
  "build_shipper env fresh q = Inr (n, s) \<Longrightarrow> fresh_ok env fresh \<Longrightarrow>
     n = shipper_from_parts (fst fresh) \<and> id_segment (fst fresh) \<and> shipper_loads (se_codec env) s"
  by (auto simp: build_shipper_def Let_def res_bind_Inr_iff shipper_mint_def fresh_ok_def clock_ok_def
      shipper_loads_def) (simp_all add: loads_def)

lemma create_shipper_ok:
  "storage_ok (se_codec env) db \<Longrightarrow> fresh_ok env fresh \<Longrightarrow>
     answers (\<lambda>_ db'. storage_ok (se_codec env) db') (create_shipper env fresh q db)"
  using built_shipper [of env fresh q]
  by (auto simp: create_shipper_def Let_def commit_unless_def storage_ok_record storage_ok_shipper
      split: option.split sum.split prod.split)

lemma delete_shipper_ok:
  assumes ok: "storage_ok (se_codec env) db" and "clock_ok env clock"
  shows "answers (\<lambda>_ db'. storage_ok (se_codec env) db') (delete_shipper env clock q db)"
  using assms parsed_from_parts [OF parse_field_parse]
    settled_restamp(1) [OF get_settled [OF ok]]
  by (auto simp: delete_shipper_def Let_def clock_ok_def split: option.split sum.split intro!: storage_ok_put)

lemma undelete_shipper_ok:
  assumes ok: "storage_ok (se_codec env) db" and "clock_ok env clock"
  shows "answers (\<lambda>_ db'. storage_ok (se_codec env) db') (undelete_shipper env clock q db)"
  using assms parsed_from_parts [OF parse_field_parse]
    settled_restamp(2) [OF get_settled [OF ok]]
  by (auto simp: undelete_shipper_def Let_def clock_ok_def split: option.split sum.split intro!: storage_ok_put)

definition server_ok :: "'m service_env \<Rightarrow> bool" where
  "server_ok env \<longleftrightarrow>
     message_laws (se_api env) \<and> (\<forall>f. solo (se_api env) f) \<and> presence_kept (se_api env)
     \<and> stamp_field env ''create_time'' sh_create_time \<and> stamp_field env ''delete_time'' sh_delete_time"

lemma pred_option_bind [simp]: "pred_option P (Option.bind x f) \<longleftrightarrow> (\<forall>y. x = Some y \<longrightarrow> pred_option P (f y))"
  by (cases x) simp_all

text \<open>Whatever the mask and the client's shipper say, a merge keeps the two server-owned times.\<close>

lemma merged_times:
  assumes env: "server_ok env" and merge: "merge_shipper env clock fmask existing incoming = Some (Inr s)"
  shows "sh_create_time s = sh_create_time existing" and "sh_delete_time s = sh_delete_time existing"
    and "sh_update_time s = Some (now clock)"
proof -
  have "pred_option (\<lambda>r. \<forall>s. r = Inr s \<longrightarrow> (\<exists>a c e. copy_fields (io_dyn (se_shipper env)) (io_of_dyn (se_shipper env))
      (se_api env) [FB_OutputOnly] a existing = Some c \<and> s = c\<lparr>sh_update_time := Some (now clock), sh_etag := e\<rparr>))
    (merge_shipper env clock fmask existing incoming)"
    by (auto simp: merge_shipper_def Let_def option.pred_map comp_def option.pred_set split: sum.split)
  with merge obtain a c where copy: "copy_fields (io_dyn (se_shipper env)) (io_of_dyn (se_shipper env)) (se_api env)
      [FB_OutputOnly] a existing = Some c"
    and s: "\<exists>e. s = c\<lparr>sh_update_time := Some (now clock), sh_etag := e\<rparr>" by auto
  show "sh_create_time s = sh_create_time existing" "sh_delete_time s = sh_delete_time existing"
    using copied_stamp [OF _ _ _ _ copy] env s unfolding server_ok_def by auto
  show "sh_update_time s = Some (now clock)" using s by auto
qed

lemma update_shipper_ok:
  assumes env: "server_ok env" and ok: "storage_ok (se_codec env) db" and clock: "clock_ok env clock"
  shows "answers (\<lambda>_ db'. storage_ok (se_codec env) db') (update_shipper env clock q db)"
proof -
  have put: "storage_ok (se_codec env) (put_shipper n s db)"
    if "shipper_parse name = Inr n" "get_shipper (se_codec env) db n = Some (Some old)"
      "merge_shipper env clock fmask old incoming = Some (Inr s)" for name n old fmask incoming s
  proof -
    have "settled_shipper (se_codec env) (sn_shipper n) old" by (rule get_settled [OF ok that(2)])
    then have "shipper_loads (se_codec env) s" "id_segment (sn_shipper n)"
      using merged_times [OF env that(3)] clock by (simp_all add: settled_shipper_def shipper_loads_def clock_ok_def)
    with ok storage_ok_shipper parsed_from_parts [OF that(1)] show ?thesis by metis
  qed
  show ?thesis
    using ok put by (auto simp: update_shipper_def commit_unless_def split: option.split sum.split)
qed

lemma required_shipper:
  "require_shipper sc db parent = Some (Inr x) \<Longrightarrow> db_shippers db (sn_shipper parent) \<noteq> None"
  by (auto simp: require_shipper_def get_shipper_def optional_row_def split: option.splits if_splits)

lemma create_site_ok:
  assumes ok: "storage_ok (se_codec env) db" and fresh: "fresh_ok env fresh"
    and input: "pred_option (site_input_ok (se_codec env)) (ci_site q)"
  shows "answers (\<lambda>_ db'. storage_ok (se_codec env) db') (create_site env fresh q db)"
proof -
  have put: "storage_ok (se_codec env) (idempotent_record io request_id fingerprint made db'')"
    if "shipper_parse_field ''parent'' (ci_parent q) = Inr parent" "ci_site q = Some s"
      "made = s\<lparr>st_name := x, st_create_time := Some (now (snd fresh)), st_update_time := Some (now (snd fresh)),
                st_delete_time := None\<rparr>"
      "put_site (se_codec env) (site_mint_under parent (fst fresh)) made db = Some db''"
    for parent s made x io request_id fingerprint db''
  proof -
    have "id_segment (sn_shipper parent)" by (rule parsed_shipper_plain) (rule parse_field_parse [OF that(1)])
    moreover have "site_loads (se_codec env) made"
      using input fresh that(2) by (simp add: that(3) site_loads_def site_input_ok_def fresh_ok_def clock_ok_def loads_def)
    ultimately have "storage_ok (se_codec env) db''"
      using fresh that(4) by (intro storage_ok_site [OF ok]) (simp_all add: site_mint_under_def fresh_ok_def)
    then show ?thesis by (rule storage_ok_record)
  qed
  show ?thesis
    using ok by (auto simp: create_site_def Let_def commit_unless_def bind_eq_Some_conv put split: option.split sum.split)
qed

lemma create_shipment_ok:
  assumes ok: "storage_ok (se_codec env) db" and fresh: "fresh_ok env fresh"
    and input: "pred_option (shipment_input_ok (se_codec env)) (cp_shipment q)"
  shows "answers (\<lambda>_ db'. storage_ok (se_codec env) db') (create_shipment env fresh q db)"
proof -
  have put: "storage_ok (se_codec env) (idempotent_record io request_id fingerprint made db'')"
    if "shipper_parse_field ''parent'' (cp_parent q) = Inr parent" "cp_shipment q = Some s"
      "made = s\<lparr>sp_name := x, sp_create_time := Some (now (snd fresh)), sp_update_time := Some (now (snd fresh)),
                sp_delete_time := None\<rparr>"
      "put_shipment (se_codec env) (shipment_mint_under parent (fst fresh)) made db = Some db''"
    for parent s made x io request_id fingerprint db''
  proof -
    have "id_segment (sn_shipper parent)" by (rule parsed_shipper_plain) (rule parse_field_parse [OF that(1)])
    moreover have "shipment_loads (se_codec env) made"
      using input fresh that(2)
      by (simp add: that(3) shipment_loads_def shipment_times_def shipment_input_ok_def fresh_ok_def clock_ok_def
          loads_def)
    ultimately have "storage_ok (se_codec env) db''"
      using fresh that(4) by (intro storage_ok_shipment [OF ok]) (simp_all add: shipment_mint_under_def fresh_ok_def)
    then show ?thesis by (rule storage_ok_record)
  qed
  show ?thesis
    using ok
    by (auto simp: create_shipment_def Let_def commit_unless_def bind_eq_Some_conv put split: option.split sum.split)
qed

lemma service_step_ok:
  assumes env: "server_ok env" and step: "service_step env db db'" and ok: "storage_ok (se_codec env) db"
  shows "storage_ok (se_codec env) db'"
  using step
  by (elim service_stepE)
     (blast dest: answersD [OF create_shipper_ok [OF ok]] answersD [OF update_shipper_ok [OF env ok]]
        answersD [OF delete_shipper_ok [OF ok]] answersD [OF undelete_shipper_ok [OF ok]]
        answersD [OF create_site_ok [OF ok]] answersD [OF create_shipment_ok [OF ok]])+

lemma reachable_storage_ok:
  assumes "server_ok env" and "(service_step env)\<^sup>*\<^sup>* storage_new db"
  shows "storage_ok (se_codec env) db"
  using assms(2)
  by (induction rule: rtranclp_induct) (auto intro: storage_ok_new service_step_ok [OF assms(1)])

lemma get_shipment_row:
  "storage_ok sc db \<Longrightarrow> db_shipments db (k, i) = Some row \<Longrightarrow>
     row_to_shipment sc row \<noteq> None \<and> db_shippers db k \<noteq> None"
  unfolding storage_ok_def using shipment_read_back by fastforce

lemma get_site_row:
  "storage_ok sc db \<Longrightarrow> db_sites db (k, i) = Some row \<Longrightarrow> row_to_site sc row \<noteq> None \<and> db_shippers db k \<noteq> None"
  unfolding storage_ok_def using site_read_back by fastforce

text \<open>Whatever requests the server answered since it started, everything it stores can
  be read: no row of a shipper, site or shipment ends a lookup or a list in a panic, every site and
  shipment has its shipper, and the methods that read or soft-delete a shipper return. Updates take part
  with any mask, since they never move a server-owned time; shipments only with times and items that load.\<close>

theorem reachable_storage_readable:
  assumes "server_ok env" and "(service_step env)\<^sup>*\<^sup>* storage_new db"
  shows "get_shipper (se_codec env) db n \<noteq> None \<and> get_site (se_codec env) db m \<noteq> None
    \<and> (db_sites db (k, i) = Some row \<longrightarrow> row_to_site (se_codec env) row \<noteq> None \<and> db_shippers db k \<noteq> None)
    \<and> (db_shipments db (k, i) = Some row \<longrightarrow>
         row_to_shipment (se_codec env) row \<noteq> None \<and> db_shippers db k \<noteq> None)
    \<and> get_shipper_rpc env st db caller req \<noteq> None
    \<and> delete_shipper env clock del db \<noteq> None \<and> undelete_shipper env clock name db \<noteq> None"
proof -
  have ok: "storage_ok (se_codec env) db" by (rule reachable_storage_ok [OF assms])
  note total = get_shipper_ok [OF ok] get_site_ok [OF ok]
  have "get_shipper_rpc env st db caller req \<noteq> None"
    by (simp add: get_shipper_rpc_def Let_def bind_eq_None_conv total del: not_None_eq split: sum.split)
  moreover have "delete_shipper env clock del db \<noteq> None" "undelete_shipper env clock name db \<noteq> None"
    by (simp_all add: delete_shipper_def undelete_shipper_def bind_eq_None_conv total del: not_None_eq split: sum.split)
  ultimately show ?thesis using total get_site_row [OF ok, of k i row] get_shipment_row [OF ok, of k i row] by blast
qed

end
