(* ===== verification/Freight_Sample.thy ===== *)
theory Freight_Sample
  imports Freight_Reachable
begin

text \<open>
  A concrete server for the witnesses: messages are trees, a time is a submessage of its seconds and
  nanoseconds, and the codecs read back the one request and shipper the witnesses send.
\<close>

definition sample_decl :: decls where
  "sample_decl n =
     (if n = ''Shipper'' then
        [(''create_time'', \<lparr>fd_is_list = False, fd_is_map = False, fd_kind = K_Message ''T''\<rparr>),
         (''delete_time'', \<lparr>fd_is_list = False, fd_is_map = False, fd_kind = K_Message ''T''\<rparr>)]
      else [])"

definition sample_api :: "tree dyn_api" where
  "sample_api = tree_api sample_decl (\<lambda>n f. [3])"

definition time_tree :: "timestamp \<Rightarrow> tree rvalue" where
  "time_tree t = V_Message (Tree ''T'' [(''s'', V_I64 (ts_seconds t)), (''n'', V_I32 (ts_nanos t))])"

fun tree_time :: "tree rvalue \<Rightarrow> timestamp option" where
  "tree_time (V_Message (Tree n [(_, V_I64 s), (_, V_I32 m)])) = Some \<lparr>ts_seconds = s, ts_nanos = m\<rparr>"
| "tree_time _ = None"

definition shipper_tree :: "shipper \<Rightarrow> tree" where
  "shipper_tree s = Tree ''Shipper''
     ((case sh_create_time s of None \<Rightarrow> [] | Some t \<Rightarrow> [(''create_time'', time_tree t)])
      @ (case sh_delete_time s of None \<Rightarrow> [] | Some t \<Rightarrow> [(''delete_time'', time_tree t)]))"

definition tree_stamp :: "tree \<Rightarrow> string \<Rightarrow> timestamp option" where
  "tree_stamp m f = Option.bind (map_of (tree_fields m) f) tree_time"

definition tree_shipper :: "tree \<Rightarrow> shipper" where
  "tree_shipper m =
     \<lparr>sh_name = [], sh_create_time = tree_stamp m ''create_time'', sh_update_time = None,
      sh_delete_time = tree_stamp m ''delete_time'', sh_display_name = ''Acme'', sh_etag = []\<rparr>"

definition at_five :: timestamp where
  "at_five = \<lparr>ts_seconds = 5, ts_nanos = 9\<rparr>"

definition sample_shipper :: shipper where
  "sample_shipper =
     \<lparr>sh_name = ''shippers/acme'', sh_create_time = Some \<lparr>ts_seconds = 5, ts_nanos = 0\<rparr>,
      sh_update_time = Some \<lparr>ts_seconds = 5, ts_nanos = 0\<rparr>, sh_delete_time = None,
      sh_display_name = ''Acme'', sh_etag = ''00000000''\<rparr>"

definition sample_request :: create_shipper_request where
  "sample_request = \<lparr>cs_shipper = Some small_shipper, cs_request_id = ''r1'', cs_validate_only = False\<rparr>"

definition sample_io :: "('a \<Rightarrow> 'a \<Rightarrow> bool) \<Rightarrow> 'a \<Rightarrow> ('a \<Rightarrow> tree) \<Rightarrow> (tree \<Rightarrow> 'a) \<Rightarrow> ('a, tree) message_io" where
  "sample_io eq x to_dyn of_dyn =
     \<lparr>io_encode = \<lambda>_. [], io_decode = \<lambda>_. Some x, io_eq = eq, io_dyn = to_dyn, io_of_dyn = of_dyn\<rparr>"

definition sample_server :: "tree service_env" where
  "sample_server =
     \<lparr>se_unicode = ascii_tables, se_uuid_ok = \<lambda>_. True, se_digest = sample_digest, se_codec = small_codec,
      se_api = sample_api,
      se_shipper = sample_io (=) sample_shipper shipper_tree tree_shipper,
      se_site = sample_io (\<lambda>_ _. False) small_site (\<lambda>_. Tree ''Site'' []) (\<lambda>_. small_site),
      se_shipment = sample_io (\<lambda>_ _. False) small_shipment (\<lambda>_. Tree ''Shipment'' []) (\<lambda>_. small_shipment),
      se_create_shipper = sample_io (=) sample_request (\<lambda>_. Tree ''Q'' []) (\<lambda>_. sample_request),
      se_create_site = sample_io (\<lambda>_ _. False) \<lparr>ci_parent = [], ci_site = None, ci_request_id = [], ci_validate_only = True\<rparr>
        (\<lambda>_. Tree ''Q'' []) (\<lambda>_. \<lparr>ci_parent = [], ci_site = None, ci_request_id = [], ci_validate_only = True\<rparr>),
      se_create_shipment =
        sample_io (\<lambda>_ _. False) \<lparr>cp_parent = [], cp_shipment = None, cp_request_id = [], cp_validate_only = True\<rparr>
        (\<lambda>_. Tree ''Q'' []) (\<lambda>_. \<lparr>cp_parent = [], cp_shipment = None, cp_request_id = [], cp_validate_only = True\<rparr>),
      se_batch_create = sample_io (\<lambda>_ _. False) \<lparr>bc_requests = [], bc_validate_only = True\<rparr> (\<lambda>_. Tree ''Q'' [])
        (\<lambda>_. \<lparr>bc_requests = [], bc_validate_only = True\<rparr>),
      se_metadata = \<lparr>mt_full_name = [], mt_encode = \<lambda>_. [], mt_decode = \<lambda>_. Inl []\<rparr>,
      se_response = \<lparr>mt_full_name = [], mt_encode = \<lambda>_. [], mt_decode = \<lambda>_. Inl []\<rparr>\<rparr>"

lemma sample_sel [simp]:
  "se_api sample_server = sample_api" "se_codec sample_server = small_codec"
  "se_digest sample_server = sample_digest"
  "io_dyn (se_shipper sample_server) = shipper_tree" "io_of_dyn (se_shipper sample_server) = tree_shipper"
  by (simp_all add: sample_server_def sample_io_def)

lemma sample_api_sel:
  "da_has sample_api m f \<longleftrightarrow> map_of (tree_fields m) f \<noteq> None" "da_get sample_api m f = tree_get sample_decl m f"
  "da_set sample_api = tree_set"
  by (simp_all add: sample_api_def tree_api_sel)

lemma sample_laws: "message_laws sample_api"
  unfolding sample_api_def by (rule tree_laws) (simp add: sample_decl_def)

lemma sample_fields:
  "fields_of sample_api (shipper_tree s) =
     [(''create_time'', \<lparr>fd_is_list = False, fd_is_map = False, fd_kind = K_Message ''T''\<rparr>),
      (''delete_time'', \<lparr>fd_is_list = False, fd_is_map = False, fd_kind = K_Message ''T''\<rparr>)]"
  by (simp add: sample_api_def fields_of_def tree_api_sel sample_decl_def shipper_tree_def tree_api_def da_name_def)

lemma sample_behavior: "has_any_behavior (behaviors_of sample_api m f) [FB_OutputOnly]"
  by (simp add: sample_api_def tree_api_def behaviors_of_def has_any_behavior_def fb_try_from_def
      List.map_filter_def)

lemma sample_stamp: "tree_stamp (shipper_tree s) ''create_time'' = sh_create_time s"
  "tree_stamp (shipper_tree s) ''delete_time'' = sh_delete_time s"
  by (cases "sh_create_time s"; cases "sh_delete_time s"; simp add: tree_stamp_def shipper_tree_def time_tree_def)+

lemma sample_reads:
  assumes "da_has sample_api m f = da_has sample_api m' f"
    and "da_has sample_api m f \<longrightarrow> da_get sample_api m f = da_get sample_api m' f"
  shows "tree_stamp m f = tree_stamp m' f"
proof (cases "map_of (tree_fields m) f")
  case None
  with assms(1) have "map_of (tree_fields m') f = None" by (simp add: sample_api_sel)
  with None show ?thesis by (simp add: tree_stamp_def)
next
  case (Some v)
  with assms(1) obtain w where "map_of (tree_fields m') f = Some w" by (auto simp: sample_api_sel)
  with assms(2) Some show ?thesis by (simp add: sample_api_sel tree_get_def tree_stamp_def)
qed

lemma sample_stamp_field:
  assumes sel: "\<And>m. sel (tree_shipper m) = tree_stamp m f" and stamp: "\<And>s. tree_stamp (shipper_tree s) f = sel s"
    and f: "f = ''create_time'' \<or> f = ''delete_time''"
  shows "stamp_field sample_server f sel"
  unfolding stamp_field_def sample_sel
proof (intro conjI allI impI)
  show "sel (tree_shipper m) = sel (tree_shipper m')"
    if "da_has sample_api m f = da_has sample_api m' f"
      "da_has sample_api m f \<longrightarrow> da_get sample_api m f = da_get sample_api m' f" for m m'
    unfolding sel by (rule sample_reads [OF that])
  show "sel (tree_shipper (shipper_tree s)) = sel s" for s unfolding sel by (rule stamp)
  show "\<exists>fd d. (f, fd) \<in> set (fields_of sample_api (shipper_tree s)) \<and> \<not> fd_is_list fd
      \<and> \<not> fd_is_map fd \<and> fd_kind fd = K_Message d
      \<and> has_any_behavior (behaviors_of sample_api (shipper_tree s) f) [FB_OutputOnly]" for s
    unfolding sample_fields using f sample_behavior
    by (intro exI [of _ "\<lparr>fd_is_list = False, fd_is_map = False, fd_kind = K_Message ''T''\<rparr>"] exI [of _ "''T''"]) auto
qed

lemma sample_server_ok: "server_ok sample_server"
proof -
  have "solo sample_api f" for f unfolding solo_def sample_api_sel by (simp add: tree_other_field)
  moreover have "presence_kept sample_api" unfolding presence_kept_def sample_api_sel by (simp add: tree_set_present)
  moreover have "stamp_field sample_server ''create_time'' sh_create_time"
    by (rule sample_stamp_field) (simp_all add: tree_shipper_def sample_stamp)
  moreover have "stamp_field sample_server ''delete_time'' sh_delete_time"
    by (rule sample_stamp_field) (simp_all add: tree_shipper_def sample_stamp)
  ultimately show ?thesis unfolding server_ok_def sample_sel using sample_laws by blast
qed

definition sample_created :: "((status + shipper) \<times> storage) option" where
  "sample_created = create_shipper sample_server (''acme'', at_five) sample_request storage_new"

lemma sample_created_answer: "case sample_created of Some (Inr s, _) \<Rightarrow> s = sample_shipper | _ \<Rightarrow> False"
  by code_simp

lemma sample_created_some: "\<exists>db. sample_created = Some (Inr sample_shipper, db)"
  using sample_created_answer by (auto split: option.splits sum.splits prod.splits)


lemma five_loads: "loads small_codec (Some (now at_five))"
  by (simp add: loads_def small_codec_def now_def at_five_def)

theorem reachable_storage_readable_witness:
  "\<exists>db. (service_step sample_server)\<^sup>*\<^sup>* storage_new db \<and> sample_created = Some (Inr sample_shipper, db)
     \<and> get_shipper small_codec db (shipper_from_parts ''acme'') \<noteq> None"
proof -
  from sample_created_some obtain db where run: "sample_created = Some (Inr sample_shipper, db)" by blast
  have "fresh_ok sample_server (''acme'', at_five)"
    using small_segments five_loads by (simp add: fresh_ok_def clock_ok_def)
  with run have "service_step sample_server storage_new db"
    unfolding sample_created_def by (rule service_step.create_shipper)
  then have reach: "(service_step sample_server)\<^sup>*\<^sup>* storage_new db" by (rule r_into_rtranclp)
  from reachable_storage_readable [OF sample_server_ok reach] run reach show ?thesis
    unfolding sample_sel by blast
qed

definition sample_db :: storage where
  "sample_db = put_shipper (shipper_from_parts ''acme'') sample_shipper storage_new"

lemma sample_db_ok: "storage_ok small_codec sample_db"
  unfolding sample_db_def using small_segments
  by (intro storage_ok_shipper storage_ok_new)
     (simp_all add: shipper_loads_def loads_def sample_shipper_def small_codec_def)

lemma sample_stored: "get_shipper small_codec sample_db (shipper_from_parts ''acme'') = Some (Some sample_shipper)"
proof -
  have "settled_shipper small_codec ''acme'' sample_shipper"
    using small_segments shipper_from_parts_name [of "''acme''"]
    by (simp add: settled_shipper_def stored_shipper_def sample_shipper_def shipper_loads_def loads_def to_seconds_def
        small_codec_def)
  then show ?thesis unfolding sample_db_def
    by (rule get_put_settled) (simp_all add: keys_filed_def storage_new_def)
qed

lemma sample_names:
  "shipper_parse_field ''name'' ''shippers/acme'' = Inr (shipper_from_parts ''acme'')"
  "shipper_parse_field ''name'' ''/shippers/acme'' = Inr (shipper_from_parts ''acme'')"
  by code_simp+

definition locked_policy :: policy where
  "locked_policy = policy_default\<lparr>p_version := 1, p_bindings :=
     [\<lparr>b_role = ''roles/freight.viewer'', b_members = [''user:a''], b_condition = None\<rparr>]\<rparr>"

definition locked_policies :: policy_store where
  "locked_policies = policy_rows ''shippers/acme'' locked_policy @ policy_rows ''shippers'' locked_policy"

lemma locked:
  "\<not> authorized sample_digest locked_policies None ''shippers/acme''"
  "\<not> authorized sample_digest locked_policies None SHIPPERS_COLLECTION"
  "authorized sample_digest locked_policies (Some (User ''a'')) ''shippers/acme''"
  "policies_get sample_digest locked_policies ''/shippers/acme'' = None"
  by code_simp+


theorem gate_reads_the_spelling_witness:
  "get_shipper_rpc sample_server locked_policies sample_db None \<lparr>gs_name = ''/shippers/acme'', gs_show_deleted = False\<rparr>
     = Some (Inr sample_shipper)
   \<and> get_shipper_rpc sample_server locked_policies sample_db None \<lparr>gs_name = ''shippers/acme'', gs_show_deleted = False\<rparr>
     = Some (Inl (permission_denied SHIPPER_GET_PERMISSION ''shippers/acme''))"
  using gate_reads_the_spelling [OF sample_names(2), of sample_server sample_db sample_shipper False locked_policies None]
    denied_read [of sample_server sample_db locked_policies None "\<lparr>gs_name = ''shippers/acme'', gs_show_deleted = False\<rparr>"]
    sample_stored sample_db_ok locked
  by (simp add: shipper_state_def is_visible_def is_deleted_def from_deleted_def sample_shipper_def)

theorem soft_delete_life_witness:
  "\<exists>db. delete_shipper sample_server at_five \<lparr>ds_name = ''shippers/acme'', ds_etag = []\<rparr> sample_db
       = Some (Inr (sample_shipper\<lparr>sh_delete_time := Some (now at_five), sh_update_time := Some (now at_five)\<rparr>), db)
     \<and> get_shipper_rpc sample_server locked_policies db (Some (User ''a''))
         \<lparr>gs_name = ''shippers/acme'', gs_show_deleted = False\<rparr> = Some (Inl (sd_status (ErrDeleted ''shippers/acme'')))"
proof -
  have name: "sn_name (shipper_from_parts ''acme'') = ''shippers/acme''"
    using shipper_from_parts_name [of "''acme''"] by simp
  have "sh_delete_time sample_shipper = None" by (simp add: sample_shipper_def)
  from soft_delete_life [of sample_server sample_db _ _ _ at_five at_five, unfolded sample_sel, OF sample_db_ok
      sample_names(1) sample_stored this five_loads five_loads locked(3)]
  show ?thesis unfolding Let_def name by blast
qed

end
