(* ===== verification/Spec2Isabelle.thy ===== *)
theory Spec2Isabelle
  imports Rn_Pattern Iam_Eval F_Checker Pagination Error_Domain Ids Lifecycle Validation Lro Field_Mask Ordering Sql_Timestamp Sql_Transpile Cel_Proto Matcher_Agreement Freight_List Freight_Sample
begin

text \<open>
  A verification library for aip-rs, the Rust toolkit for APIs in the style of the Google AIPs. The
  crates under \<open>src/crates\<close> are small libraries a gRPC server composes; the server under
  \<open>src/examples/freight-server\<close> composes them. Every definition is a translation of the code named
  beside it and computes; every operation returns its errors as values (\<open>Inl\<close>, or \<open>None\<close>).

  \<^bold>\<open>Base.\<close> \<open>Prelude\<close> has fallible results (\<open>res_bind\<close>, \<open>map_err\<close>, \<open>try_map\<close>), the operations of Rust's
  \<open>str\<close> the crates use, decimal text and ordered maps (\<open>btree\<close>). A Rust string is its list of bytes;
  \<open>Utf8\<close> decodes characters, with the Unicode tables a parameter. \<open>Status\<close> is \<open>tonic::Status\<close> with its
  AIP-193 details, and the locale of an error type that converts to one. \<open>Codec\<close> is the locale of a
  type with a text form. \<open>Digest\<close> is the content digest over CRC-32. \<open>F64\<close>, \<open>F64_Text\<close> and
  \<open>F64_Arith\<close> are binary64 numbers: literals, \<open>str::parse\<close>, comparison, conversion and addition.
  \<open>Reflect\<close> and \<open>Dynamic\<close> are what the crates read of \<open>prost-reflect\<close>; \<open>Dynamic_Tree\<close> is a concrete
  instance, messages as trees.

  \<^bold>\<open>Names and identities.\<close> \<open>Rn_Error\<close>, \<open>Rn_Scanner\<close>, \<open>Rn_Name\<close>, \<open>Rn_Pattern\<close>: \<open>aip-resourcename\<close>. The
  scanner is the remaining text with its position; patterns are segment lists. The lemmas relate the
  loops to the segment list of a name, and parsing, matching and formatting to one another. \<open>Ids\<close>:
  \<open>aip-resourceid\<close>, \<open>aip-requestid\<close>. \<open>Iam_Principal\<close>, \<open>Iam_Policy\<close>, \<open>Iam_Eval\<close>: \<open>aip-iam\<close>; a policy is
  characterised by the members each role grants.

  \<^bold>\<open>Filtering.\<close> \<open>F_Token\<close>, \<open>F_Lexer\<close>, \<open>F_Parser\<close>, \<open>F_Parser_Total\<close>, \<open>F_Checker\<close>, \<open>F_Debug\<close>, \<open>Cel_Proto\<close>,
  \<open>Matcher\<close>: \<open>aip-filtering\<close>. Lexer and parser carry the input and a byte position. The recursive descent
  runs on fuel, one more than the bytes of the input: every production consumes a token before it
  recurses, so that many calls are enough, and \<open>parse_filter_returns\<close> shows that the fuel never runs
  out. The checker is compared with an inductive typing relation. \<open>Matcher_Agreement\<close> compares the
  in-memory matcher with the SQL path.

  \<^bold>\<open>SQL.\<close> \<open>Sql_Predicate\<close>, \<open>Sql_Dialect\<close>, \<open>Sql_Schema\<close>, \<open>Sql_Transpile\<close>, \<open>Sql_Timestamp\<close>: \<open>aip-sql\<close>. What a
  predicate means is its three-valued truth over a row (\<open>sat\<close>), in an engine given by its comparison
  and has tests; the rendered text is parsed back by a reader of the SQL it is written in.

  \<^bold>\<open>Lists.\<close> \<open>Pagination\<close>, \<open>Ordering\<close>: \<open>aip-pagination\<close>, \<open>aip-ordering\<close>.

  \<^bold>\<open>Resources.\<close> \<open>Field_Behavior\<close>, \<open>Field_Mask\<close>, \<open>Lifecycle\<close> (\<open>aip-etag\<close>, \<open>aip-softdelete\<close>,
  \<open>aip-preview\<close>), \<open>Validation\<close>, \<open>Lro\<close>, \<open>Error_Domain\<close>: one crate each. Walks over a message recurse on
  fuel, its nesting depth plus one; a message is finite, and the laws of the reflection interface say that a
  nested message is shallower, so the fuel is enough.

  \<^bold>\<open>The example server.\<close> \<open>Freight_Names\<close> is the code \<open>protoc-gen-prost-aip\<close> emits for the resource names.
  \<open>Freight_Data\<close> has the messages and the rows \<open>storage.rs\<close> writes and reads, \<open>Freight_Store\<close> the tables, the
  upserts and the idempotency cache; \<open>storage_ok\<close> is the invariant that rows are filed under their keys, can
  be read, and have their shipper. \<open>Freight_Operations\<close> is the operation store, the background task of a
  batch as a state machine whose steps are its lock and await points, and the operations service; a world
  holds any number of tasks, and a step relation interleaves them with deletes (the two locks of \<open>remove\<close>
  apart) and cancels. \<open>Freight_Policy\<close> is the policy table, the \<open>IAMPolicy\<close> service and the gate.
  \<open>Freight_Service\<close> is the write path of \<open>FreightServer\<close>, a handler per definition, which composes the crates:
  \<open>update_shipper\<close> calls \<open>etag_check\<close>, \<open>mask_validate\<close>, \<open>mask_update\<close>, \<open>validate_required_with_mask\<close>,
  \<open>copy_fields\<close>, \<open>etag_compute\<close> and \<open>put_shipper\<close> in the order of the code. \<open>Freight_Lifecycle\<close> states what the
  handlers promise, \<open>Freight_Reachable\<close> the storages they reach as a step relation with its invariant,
  \<open>Freight_Sample\<close> a concrete server for the witnesses. \<open>Freight_List\<close> has the helpers of the lists.

  \<^bold>\<open>Interfaces.\<close> A locale states each contract several components keep, interpreted where it is kept:
  \<open>detailed_mapping\<close> (an error becomes a status of its own code and reason) for the error types of the
  crates, the text form of \<open>Codec\<close> for patterns, members, permissions, roles and operation names, the
  freshness of \<open>Digest\<close> for the etags of policies and of resources, the invariant a parser keeps of the
  trees it builds (\<open>ast_invariant\<close>) for the range of literals, and the dialect a predicate is rendered in
  (\<open>sql_dialect\<close>) for SQLite.

  \<^bold>\<open>Bounds.\<close> A listing of \<open>n\<close> rows is given \<open>n + 1\<close> fetches, since every page but the last has a row; a batch
  task ends within \<open>5 * requests + 7\<close> of its own steps, where a request left costs
  five (check, build, load, store, and back) and where the task stands at most seven. Both bounds are proved.

  \<^bold>\<open>Parameters.\<close> Code that is not in the repository is an argument: the reflection of \<open>prost-reflect\<close>,
  \<open>postcard\<close>, \<open>base64\<close>, \<open>crc32fast\<close>, \<open>serde_json\<close>, the parser of \<open>prost_types::Timestamp\<close>, SQLite, the CEL
  engine, the clock and the minted ids. What is relied on is a named hypothesis (\<open>message_laws\<close>, \<open>codec_ok\<close>,
  \<open>loads\<close>, \<open>sqlite_order\<close>, \<open>sqlite_has\<close>), and the witnesses instantiate it.

  \<^bold>\<open>Not modelled.\<close> \<open>aip-reflect\<close> and \<open>aip-codegen\<close> (reading annotations out of descriptors, templates of Rust
  text), the plugin's standard input and output, the generated transport, \<open>WaitOperation\<close> (a timed wait on a
  notification) and the start-up of the server. A handler of the write path is one step: the locks of an
  idempotent lookup and of the record that follows are not interleaved with another call.
\<close>

end
